(* ===== verification/Prelude.thy ===== *)
theory Prelude
  imports Main "HOL-Library.Word" "HOL-Library.Multiset" "HOL-Library.Sublist"
    "HOL-Library.Char_ord"
begin

text \<open>
  Shared vocabulary of the development: the machine integers of the Rust sources and their
  saturating and checked operations, the string operations of the Rust standard library
  that the sources use (strings are UTF-8 byte lists), error results as sums, and the
  interface of a component that is driven by events (an invariant kept by one step is kept
  by every run).
\<close>

named_theorems string_eval \<open>evaluation of the string operations on literals\<close>
named_theorems word_facts \<open>arithmetic of the saturating and checked operations\<close>

section \<open>Machine integers\<close>

type_synonym u8 = "8 word"
type_synonym u16 = "16 word"
type_synonym u32 = "32 word"
type_synonym u64 = "64 word"

text \<open>\<open>saturating_add\<close>, \<open>saturating_sub\<close>, \<open>saturating_mul\<close> and the checked
  operations of the unsigned integers.\<close>

definition saturating_add :: "'a::len word \<Rightarrow> 'a word \<Rightarrow> 'a word" where
  "saturating_add a b = (if unat a + unat b < 2 ^ LENGTH('a) then a + b else - 1)"

definition saturating_sub :: "'a::len word \<Rightarrow> 'a word \<Rightarrow> 'a word" where
  "saturating_sub a b = (if b \<le> a then a - b else 0)"

definition saturating_mul :: "'a::len word \<Rightarrow> 'a word \<Rightarrow> 'a word" where
  "saturating_mul a b = (if unat a * unat b < 2 ^ LENGTH('a) then a * b else - 1)"

definition checked_add :: "'a::len word \<Rightarrow> 'a word \<Rightarrow> 'a word option" where
  "checked_add a b = (if unat a + unat b < 2 ^ LENGTH('a) then Some (a + b) else None)"

definition checked_mul :: "'a::len word \<Rightarrow> 'a word \<Rightarrow> 'a word option" where
  "checked_mul a b = (if unat a * unat b < 2 ^ LENGTH('a) then Some (a * b) else None)"

text \<open>\<open>u64::try_from\<close> of a signed integer.\<close>

definition try_from_int :: "int \<Rightarrow> 'a::len word option" where
  "try_from_int i = (if 0 \<le> i \<and> i < 2 ^ LENGTH('a) then Some (word_of_int i) else None)"

lemma unat_minus_one_max: "unat (- 1 :: 'a::len word) = 2 ^ LENGTH('a) - 1"
  by (metis mask_eq_exp_minus_1 unsigned_minus_1_eq_mask)

lemma unat_saturating_add [word_facts]:
  "unat (saturating_add a b :: 'a::len word) = min (unat a + unat b) (2 ^ LENGTH('a) - 1)"
  by (auto simp: saturating_add_def unat_word_ariths unat_minus_one_max min_def)

lemma unat_saturating_sub [word_facts]:
  "unat (saturating_sub a b :: 'a::len word) = unat a - unat b"
  by (auto simp: saturating_sub_def unat_sub word_le_nat_alt)

lemma unat_saturating_mul [word_facts]:
  "unat (saturating_mul a b :: 'a::len word) = min (unat a * unat b) (2 ^ LENGTH('a) - 1)"
proof (cases "unat a * unat b < 2 ^ LENGTH('a)")
  case True
  then show ?thesis by (simp add: saturating_mul_def unat_word_ariths)
next
  case False
  then show ?thesis by (simp add: saturating_mul_def unat_minus_one_max)
qed

lemma checked_add_Some [word_facts]:
  "checked_add a b = Some (c :: 'a::len word) \<longleftrightarrow>
     unat c = unat a + unat b"
proof -
  have c: "unat c = unat a + unat b \<Longrightarrow> unat a + unat b < 2 ^ LENGTH('a)"
    by (metis unsigned_less)
  then show ?thesis
    by (auto simp: checked_add_def unat_word_ariths word_unat_eq_iff)
qed

lemma checked_mul_Some [word_facts]:
  "checked_mul a b = Some (c :: 'a::len word) \<longleftrightarrow>
     unat c = unat a * unat b"
proof -
  have c: "unat c = unat a * unat b \<Longrightarrow> unat a * unat b < 2 ^ LENGTH('a)"
    by (metis unsigned_less)
  then show ?thesis
    by (auto simp: checked_mul_def unat_word_ariths word_unat_eq_iff)
qed

lemma try_from_int_Some [word_facts]:
  "try_from_int i = Some (w :: 'a::len word) \<longleftrightarrow> i = uint w"
proof -
  have "0 \<le> uint w" "uint w < 2 ^ LENGTH('a)" by (simp_all add: uint_lt2p)
  then show ?thesis
    by (auto simp: try_from_int_def word_uint_eq_iff take_bit_int_eq_self uint_word_of_int)
qed

lemma try_from_int_uint [simp]: "try_from_int (uint w) = Some (w :: 'a::len word)"
  by (simp add: try_from_int_Some)

lemma unat_less_u8 [simp]: "unat (b :: u8) < 256"
proof -
  have "unat b < 2 ^ LENGTH(8)" by (rule unsigned_less)
  then show ?thesis by simp
qed

lemma unat_less_u16 [simp]: "unat (b :: u16) < 65536"
proof -
  have "unat b < 2 ^ LENGTH(16)" by (rule unsigned_less)
  then show ?thesis by simp
qed

lemma unat_ucast_up:
  "LENGTH('a) \<le> LENGTH('b) \<Longrightarrow> unat (ucast (w :: 'a::len word) :: 'b::len word) = unat w"
proof -
  assume "LENGTH('a) \<le> LENGTH('b)"
  then have "(2 :: nat) ^ LENGTH('a) \<le> 2 ^ LENGTH('b)" by (intro power_increasing) auto
  moreover have "unat w < 2 ^ LENGTH('a)" by (rule unsigned_less)
  ultimately have "unat w < 2 ^ LENGTH('b)" by (rule less_le_trans [rotated])
  then show ?thesis by (simp add: unsigned_ucast_eq take_bit_nat_eq_self)
qed

section \<open>Results\<close>

text \<open>\<open>Result\<close> is a sum with the error on the left; \<open>?\<close> is this bind.\<close>

fun try_then :: "'e + 'a \<Rightarrow> ('a \<Rightarrow> 'e + 'b) \<Rightarrow> 'e + 'b" where
  "try_then (Inl e) f = Inl e"
| "try_then (Inr x) f = f x"

fun is_ok :: "'e + 'a \<Rightarrow> bool" where
  "is_ok (Inl e) = False"
| "is_ok (Inr x) = True"

fun ok_or :: "'a option \<Rightarrow> 'e \<Rightarrow> 'e + 'a" where
  "ok_or None e = Inl e"
| "ok_or (Some x) e = Inr x"

lemma try_then_Inr [simp]:
  "try_then r f = Inr y \<longleftrightarrow> (\<exists>x. r = Inr x \<and> f x = Inr y)"
  by (cases r) auto

lemma ok_or_Inr [simp]: "ok_or r e = Inr y \<longleftrightarrow> r = Some y"
  by (cases r) auto

section \<open>Strings\<close>

definition is_digit :: "char \<Rightarrow> bool" where
  "is_digit c \<longleftrightarrow> CHR ''0'' \<le> c \<and> c \<le> CHR ''9''"

definition digit_val :: "char \<Rightarrow> nat" where
  "digit_val c = of_char c - of_char (CHR ''0'')"

definition to_lower :: "char \<Rightarrow> char" where
  "to_lower c = (if CHR ''A'' \<le> c \<and> c \<le> CHR ''Z'' then char_of ((of_char c :: nat) + 32) else c)"

definition to_ascii_lowercase :: "string \<Rightarrow> string" where
  "to_ascii_lowercase s = map to_lower s"

definition eq_ignore_ascii_case :: "string \<Rightarrow> string \<Rightarrow> bool" where
  "eq_ignore_ascii_case s t \<longleftrightarrow> to_ascii_lowercase s = to_ascii_lowercase t"

text \<open>The code points with the property \<open>White_Space\<close>, as UTF-8.\<close>

definition white_space :: "string list" where
  "white_space = map (map char_of)
     ([[9], [10], [11], [12], [13], [32], [194, 133], [194, 160], [225, 154, 128],
       [226, 128, 168], [226, 128, 169], [226, 128, 175], [226, 129, 159], [227, 128, 128 :: nat]]
      @ map (\<lambda>n. [226, 128, n]) [128..<139])"

fun trim_with :: "string list \<Rightarrow> nat \<Rightarrow> string \<Rightarrow> string" where
  "trim_with ws 0 s = s"
| "trim_with ws (Suc n) s =
     (case find (\<lambda>w. prefix w s) ws of None \<Rightarrow> s | Some w \<Rightarrow> trim_with ws n (drop (length w) s))"

text \<open>\<open>str::trim\<close>: every step removes at least one byte, so the length is fuel enough.\<close>

definition trim_start :: "string \<Rightarrow> string" where
  "trim_start s = trim_with white_space (length s) s"

definition trim_end :: "string \<Rightarrow> string" where
  "trim_end s = rev (trim_with (map rev white_space) (length s) (rev s))"

definition trim :: "string \<Rightarrow> string" where
  "trim s = trim_end (trim_start s)"

text \<open>\<open>str::parse\<close> for an unsigned type with the given largest value: an optional plus
  sign, at least one digit, nothing else, no overflow.\<close>

definition digits_val :: "string \<Rightarrow> nat" where
  "digits_val s = foldl (\<lambda>n c. 10 * n + digit_val c) 0 s"

definition parse_digits :: "nat \<Rightarrow> string \<Rightarrow> nat option" where
  "parse_digits mx s =
     (if s \<noteq> [] \<and> list_all is_digit s \<and> digits_val s \<le> mx then Some (digits_val s) else None)"

definition parse_unsigned :: "nat \<Rightarrow> string \<Rightarrow> nat option" where
  "parse_unsigned mx s =
     (case s of c # cs \<Rightarrow> parse_digits mx (if c = CHR ''+'' then cs else s) | [] \<Rightarrow> None)"

lemma parse_unsigned_le: "parse_unsigned mx s = Some n \<Longrightarrow> n \<le> mx"
  by (auto simp: parse_unsigned_def parse_digits_def split: list.splits if_splits)

text \<open>Decimal rendering, as \<open>Display\<close> of an unsigned integer.\<close>

fun show_nat :: "nat \<Rightarrow> string" where
  "show_nat n = (if n < 10 then [char_of (48 + n)] else show_nat (n div 10) @ [char_of (48 + n mod 10)])"

declare show_nat.simps [simp del]

lemma of_char_digit: "d < 10 \<Longrightarrow> of_char (char_of (48 + d :: nat)) = 48 + d"
  by simp

lemma digit_val_char: "d < 10 \<Longrightarrow> digit_val (char_of (48 + d)) = d"
  by (simp add: digit_val_def)

lemma is_digit_char: "(d :: nat) < 10 \<Longrightarrow> is_digit (char_of (48 + d))"
  by (simp add: is_digit_def less_eq_char_def)

lemma digits_val_snoc [simp]: "digits_val (s @ [c]) = 10 * digits_val s + digit_val c"
  by (simp add: digits_val_def)

lemma show_nat_digits: "show_nat n \<noteq> [] \<and> list_all is_digit (show_nat n) \<and> digits_val (show_nat n) = n"
proof (induction n rule: show_nat.induct)
  case (1 n)
  show ?case
  proof (cases "n < 10")
    case True
    then show ?thesis
      by (simp add: show_nat.simps [of n] is_digit_char digit_val_char digits_val_def)
  next
    case False
    with "1.IH" show ?thesis
      by (simp add: show_nat.simps [of n] is_digit_char digit_val_char)
  qed
qed

lemma parse_digits_show: "n \<le> mx \<Longrightarrow> parse_digits mx (show_nat n) = Some n"
  using show_nat_digits [of n] by (simp add: parse_digits_def)

lemma parse_unsigned_show: "n \<le> mx \<Longrightarrow> parse_unsigned mx (show_nat n) = Some n"
proof -
  assume le: "n \<le> mx"
  obtain c cs where s: "show_nat n = c # cs"
    using show_nat_digits [of n] by (cases "show_nat n") auto
  have "is_digit c" using show_nat_digits [of n] s by simp
  then have "c \<noteq> CHR ''+''" by (auto simp: is_digit_def less_eq_char_def)
  with s le show ?thesis
    using parse_digits_show [OF le] by (simp add: parse_unsigned_def)
qed

definition show_word :: "'a::len word \<Rightarrow> string" where
  "show_word w = show_nat (unat w)"

text \<open>The rules that evaluate the string operations on literals (\<open>simp add: string_eval\<close>).\<close>

lemmas [string_eval] = show_word_def show_nat.simps char_of_def bit_0 to_ascii_lowercase_def
  to_lower_def eq_ignore_ascii_case_def is_digit_def less_eq_char_def digits_val_def digit_val_def
  parse_digits_def parse_unsigned_def

text \<open>Whether bytes are valid UTF-8 (\<open>OsStr::to_str\<close>), over the byte values.\<close>

definition utf8_cont :: "nat \<Rightarrow> bool" where
  "utf8_cont b \<longleftrightarrow> 128 \<le> b \<and> b < 192"

fun utf8_bytes :: "nat list \<Rightarrow> bool" where
  "utf8_bytes [] = True"
| "utf8_bytes (a # s) =
     (if a < 128 then utf8_bytes s
      else case s of
        b # s1 \<Rightarrow>
          (if 194 \<le> a \<and> a < 224 then utf8_cont b \<and> utf8_bytes s1
           else case s1 of
             c # s2 \<Rightarrow>
               (if 224 \<le> a \<and> a < 240
                then utf8_cont b \<and> utf8_cont c \<and> (a = 224 \<longrightarrow> 160 \<le> b) \<and> (a = 237 \<longrightarrow> b < 160) \<and> utf8_bytes s2
                else case s2 of
                  d # s3 \<Rightarrow> 240 \<le> a \<and> a < 245 \<and> utf8_cont b \<and> utf8_cont c \<and> utf8_cont d
                    \<and> (a = 240 \<longrightarrow> 144 \<le> b) \<and> (a = 244 \<longrightarrow> b < 144) \<and> utf8_bytes s3
                | [] \<Rightarrow> False)
           | [] \<Rightarrow> False)
      | [] \<Rightarrow> False)"

definition valid_utf8 :: "string \<Rightarrow> bool" where
  "valid_utf8 s = utf8_bytes (map of_char s)"

lemmas [string_eval] = valid_utf8_def utf8_cont_def

lemma utf8_bytes_ascii: "list_all (\<lambda>b. b < 128) s \<Longrightarrow> utf8_bytes s"
  by (induction s) auto

text \<open>\<open>str::split\<close> at a character.\<close>

fun split_char :: "char \<Rightarrow> string \<Rightarrow> string list" where
  "split_char c [] = [[]]"
| "split_char c (x # xs) =
     (if x = c then [] # split_char c xs
      else case split_char c xs of [] \<Rightarrow> [[x]] | w # ws \<Rightarrow> (x # w) # ws)"

text \<open>Splitting after the longest prefix whose characters satisfy a predicate.\<close>

definition span :: "(char \<Rightarrow> bool) \<Rightarrow> string \<Rightarrow> string \<times> string" where
  "span p s = (takeWhile p s, dropWhile p s)"

text \<open>\<open>parse_humansize\<close> of \<open>src/src/util/mod.rs\<close>: a number, or digits, space and a unit.\<close>

definition parse_humansize :: "string \<Rightarrow> string + nat" where
  "parse_humansize input =
     (case parse_unsigned (2 ^ 64 - 1) input of
        Some n \<Rightarrow> Inr n
      | None \<Rightarrow>
          let digits = takeWhile is_digit input;
              unit_name = trim_start (dropWhile is_digit input)
          in if digits = [] then Inl ''invalid size''
             else case parse_unsigned (2 ^ 64 - 1) digits of
               None \<Rightarrow> Inl ''number too large''
             | Some value \<Rightarrow>
                 if unit_name = ''GB'' then
                   (if value * 1000000000 < 2 ^ 64 then Inr (value * 1000000000) else Inl ''size too large'')
                 else if unit_name = ''MB'' then
                   (if value * 1000000 < 2 ^ 64 then Inr (value * 1000000) else Inl ''size too large'')
                 else Inl ''invalid unit'')"

section \<open>Components driven by events\<close>

fun run_steps :: "('s \<Rightarrow> 'e \<Rightarrow> 's) \<Rightarrow> 's \<Rightarrow> 'e list \<Rightarrow> 's" where
  "run_steps step s [] = s"
| "run_steps step s (e # es) = run_steps step (step s e) es"

lemma run_steps_append [simp]:
  "run_steps step s (es @ fs) = run_steps step (run_steps step s es) fs"
  by (induction es arbitrary: s) auto

text \<open>The contract of a component that keeps an invariant: every operation, given as an
  event, keeps it. What the client gets is that every run keeps it.\<close>

locale invariant_machine =
  fixes step :: "'s \<Rightarrow> 'e \<Rightarrow> 's"
    and inv :: "'s \<Rightarrow> bool"
  assumes step_inv: "inv s \<Longrightarrow> inv (step s e)"
begin

lemma run_inv: "inv s \<Longrightarrow> inv (run_steps step s es)"
  by (induction es arbitrary: s) (auto intro: step_inv)

lemma prefix_inv: "inv s \<Longrightarrow> prefix es fs \<Longrightarrow> inv (run_steps step s es)"
  by (rule run_inv)

end

text \<open>A component that in addition never moves down in an order (a counter, a latch).\<close>

locale monotone_machine = invariant_machine step inv
  for step :: "'s \<Rightarrow> 'e \<Rightarrow> 's" and inv :: "'s \<Rightarrow> bool" +
  fixes level :: "'s \<Rightarrow> nat"
  assumes step_level: "inv s \<Longrightarrow> level s \<le> level (step s e)"
begin

lemma run_level: "inv s \<Longrightarrow> level s \<le> level (run_steps step s es)"
proof (induction es arbitrary: s)
  case Nil
  then show ?case by simp
next
  case (Cons e es)
  have "level s \<le> level (step s e)" using Cons.prems by (rule step_level)
  also have "\<dots> \<le> level (run_steps step (step s e) es)"
    using Cons.prems by (intro Cons.IH step_inv)
  finally show ?case by simp
qed

end

end
