(* ===== verification/Datetime.thy ===== *)
theory Datetime
  imports Prelude
begin

text \<open>
  Timestamp parsing (\<open>src/src/datetime.rs\<close>, function \<open>parse\<close>). The timestamp type and its
  own parser belong to the chrono crate: the type is a parameter \<open>'dt\<close> and the parser an
  argument \<open>chrono\<close>, \<open>None\<close> for a rejected string. What is modelled is the code's own part:
  the regular expression that splits a partial timestamp into fields, the defaults for the
  missing ones, and the normal form handed to chrono the second time. Digits are the ASCII
  digits.
\<close>

section \<open>The fields of a partial timestamp\<close>

text \<open>Every group after the year is optional and nothing follows the last one, so the
  leftmost greedy match is a left to right scan in which each optional item is taken
  whenever it is there.\<close>

definition opt_char :: "char \<Rightarrow> string \<Rightarrow> string" where
  "opt_char c s = (case s of x # xs \<Rightarrow> if x = c then xs else s | [] \<Rightarrow> [])"

definition opt_digits :: "nat \<Rightarrow> string \<Rightarrow> string option \<times> string" where
  "opt_digits n s =
     (if n \<le> length s \<and> list_all is_digit (take n s) then (Some (take n s), drop n s)
      else (None, s))"

definition opt_fraction :: "string \<Rightarrow> string option \<times> string" where
  "opt_fraction s =
     (case s of
        x # xs \<Rightarrow>
          (if x = CHR ''.'' \<and> takeWhile is_digit xs \<noteq> []
           then (Some (takeWhile is_digit xs), dropWhile is_digit xs) else (None, s))
      | [] \<Rightarrow> (None, []))"

definition opt_offset :: "string \<Rightarrow> string option" where
  "opt_offset s =
     (case s of
        x # xs \<Rightarrow>
          (if (x = CHR ''+'' \<or> x = CHR ''-'') \<and> 4 \<le> length xs \<and> list_all is_digit (take 4 xs)
           then Some (x # take 4 xs)
           else if x = CHR ''Z'' then Some ''Z'' else None)
      | [] \<Rightarrow> None)"

record ts_fields =
  tf_year :: string
  tf_month :: "string option"
  tf_day :: "string option"
  tf_hour :: "string option"
  tf_minute :: "string option"
  tf_second :: "string option"
  tf_subs :: "string option"
  tf_offset :: "string option"

definition ts_captures :: "string \<Rightarrow> ts_fields option" where
  "ts_captures s =
     (case opt_digits 4 s of
        (None, _) \<Rightarrow> None
      | (Some year, s) \<Rightarrow>
          let (month, s) = opt_digits 2 (opt_char (CHR ''-'') s);
              (day, s) = opt_digits 2 (opt_char (CHR ''-'') s);
              (hour, s) = opt_digits 2 (opt_char (CHR ''T'') s);
              (minute, s) = opt_digits 2 (opt_char (CHR '':'') s);
              (second, s) = opt_digits 2 (opt_char (CHR '':'') s);
              (subs, s) = opt_fraction s
          in Some \<lparr>tf_year = year, tf_month = month, tf_day = day, tf_hour = hour,
                   tf_minute = minute, tf_second = second, tf_subs = subs,
                   tf_offset = opt_offset s\<rparr>)"

definition or_default :: "string \<Rightarrow> string option \<Rightarrow> string" where
  "or_default d m = (case m of None \<Rightarrow> d | Some x \<Rightarrow> x)"

definition ts_fixed :: "string \<Rightarrow> ts_fields \<Rightarrow> string" where
  "ts_fixed default_tz c =
     tf_year c @ ''-'' @ or_default ''01'' (tf_month c) @ ''-'' @ or_default ''01'' (tf_day c)
     @ ''T'' @ or_default ''00'' (tf_hour c) @ '':'' @ or_default ''00'' (tf_minute c)
     @ '':'' @ or_default ''00'' (tf_second c) @ ''.'' @ or_default ''0'' (tf_subs c)
     @ or_default default_tz (tf_offset c)"

section \<open>parse\<close>

definition datetime_parse ::
    "(string \<Rightarrow> 'dt option) \<Rightarrow> string \<Rightarrow> string option \<Rightarrow> string + 'dt" where
  "datetime_parse chrono input tz_offset =
     (case chrono input of
        Some ts \<Rightarrow> Inr ts
      | None \<Rightarrow>
          (case ts_captures input of
             None \<Rightarrow> Inl ''invalid format''
           | Some c \<Rightarrow>
               (case chrono (ts_fixed (or_default ''Z'' tz_offset) c) of
                  Some ts \<Rightarrow> Inr ts
                | None \<Rightarrow> Inl ''invalid format'')))"

section \<open>Lemmas\<close>

text \<open>A group of exactly \<open>n\<close> digits is taken whole, whatever follows it.\<close>

definition digit_group :: "nat \<Rightarrow> string \<Rightarrow> bool" where
  "digit_group n s \<longleftrightarrow> length s = n \<and> list_all is_digit s"

lemma opt_digits_group [simp]:
  "digit_group n d \<Longrightarrow> opt_digits n (d @ s) = (Some d, s)"
  by (simp add: opt_digits_def digit_group_def)

lemma opt_digits_group_end [simp]:
  "digit_group n d \<Longrightarrow> opt_digits n d = (Some d, [])"
  using opt_digits_group [of n d "[]"] by simp

lemma opt_digits_Nil [simp]: "0 < n \<Longrightarrow> opt_digits n [] = (None, [])"
  by (simp add: opt_digits_def)

lemma digit_group_Cons:
  "digit_group n (c # s) \<Longrightarrow> is_digit c"
  by (simp add: digit_group_def)

text \<open>A separator is skipped when it is there, and its absence before a digit changes
  nothing.\<close>

lemma opt_char_same [simp]: "opt_char c (c # s) = s"
  by (simp add: opt_char_def)

lemma opt_char_Nil [simp]: "opt_char c [] = []"
  by (simp add: opt_char_def)

lemma opt_char_group [simp]:
  "digit_group n d \<Longrightarrow> 0 < n \<Longrightarrow> \<not> is_digit c \<Longrightarrow> opt_char c (d @ s) = d @ s"
  by (cases d) (auto simp: opt_char_def digit_group_def)

lemma not_digit_seps [simp]:
  "\<not> is_digit (CHR ''-'')" "\<not> is_digit (CHR ''T'')" "\<not> is_digit (CHR '':'')"
  "\<not> is_digit (CHR ''.'')" "\<not> is_digit (CHR ''+'')" "\<not> is_digit (CHR ''Z'')"
  by (simp_all add: is_digit_def less_eq_char_def)

definition fraction_group :: "string \<Rightarrow> bool" where
  "fraction_group s \<longleftrightarrow> s \<noteq> [] \<and> list_all is_digit s"

lemma takeWhile_all_digits:
  "list_all is_digit f \<Longrightarrow> \<not> is_digit c \<Longrightarrow> takeWhile is_digit (f @ c # s) = f
     \<and> dropWhile is_digit (f @ c # s) = c # s"
  by (induction f) auto

text \<open>An explicit offset is a sign with four digits, or \<open>Z\<close>.\<close>

definition offset_group :: "string \<Rightarrow> bool" where
  "offset_group s \<longleftrightarrow> s = ''Z'' \<or>
     (\<exists>c d. s = c # d \<and> (c = CHR ''+'' \<or> c = CHR ''-'') \<and> digit_group 4 d)"

lemma opt_offset_group: "offset_group s \<Longrightarrow> opt_offset s = Some s"
  by (auto simp: offset_group_def opt_offset_def digit_group_def)

lemma opt_fraction_group:
  assumes "fraction_group f" and "offset_group z"
  shows "opt_fraction (CHR ''.'' # f @ z) = (Some f, z)"
proof -
  have "\<exists>c s. z = c # s \<and> \<not> is_digit c"
    using assms(2) not_digit_seps unfolding offset_group_def by fastforce
  then obtain c s where z: "z = c # s" and "\<not> is_digit c" by blast
  then show ?thesis
    using assms(1) takeWhile_all_digits [of f c s] by (simp add: opt_fraction_def fraction_group_def)
qed

lemmas ts_scan = opt_digits_group opt_char_same opt_char_group opt_fraction_group
  opt_offset_group not_digit_seps

text \<open>The extended and the compact form of a complete timestamp have the same fields.\<close>

definition ts_extended :: "string \<Rightarrow> string \<Rightarrow> string \<Rightarrow> string \<Rightarrow> string \<Rightarrow> string \<Rightarrow> string \<Rightarrow> string \<Rightarrow> string"
  where "ts_extended y mo d h mi s f z =
    y @ ''-'' @ mo @ ''-'' @ d @ ''T'' @ h @ '':'' @ mi @ '':'' @ s @ ''.'' @ f @ z"

definition ts_compact :: "string \<Rightarrow> string \<Rightarrow> string \<Rightarrow> string \<Rightarrow> string \<Rightarrow> string \<Rightarrow> string \<Rightarrow> string \<Rightarrow> string"
  where "ts_compact y mo d h mi s f z = y @ mo @ d @ ''T'' @ h @ mi @ s @ ''.'' @ f @ z"

lemma ts_captures_extended:
  assumes "digit_group 4 y" "digit_group 2 mo" "digit_group 2 d" "digit_group 2 h"
    "digit_group 2 mi" "digit_group 2 s" "fraction_group f" "offset_group z"
  shows "ts_captures (ts_extended y mo d h mi s f z) =
    Some \<lparr>tf_year = y, tf_month = Some mo, tf_day = Some d, tf_hour = Some h,
          tf_minute = Some mi, tf_second = Some s, tf_subs = Some f, tf_offset = Some z\<rparr>"
  using assms by (simp add: ts_captures_def ts_extended_def ts_scan)

lemma ts_captures_compact:
  assumes "digit_group 4 y" "digit_group 2 mo" "digit_group 2 d" "digit_group 2 h"
    "digit_group 2 mi" "digit_group 2 s" "fraction_group f" "offset_group z"
  shows "ts_captures (ts_compact y mo d h mi s f z) =
    Some \<lparr>tf_year = y, tf_month = Some mo, tf_day = Some d, tf_hour = Some h,
          tf_minute = Some mi, tf_second = Some s, tf_subs = Some f, tf_offset = Some z\<rparr>"
  using assms by (simp add: ts_captures_def ts_compact_def ts_scan)

lemma ts_captures_year:
  "digit_group 4 y \<Longrightarrow> ts_captures y =
    Some \<lparr>tf_year = y, tf_month = None, tf_day = None, tf_hour = None, tf_minute = None,
          tf_second = None, tf_subs = None, tf_offset = None\<rparr>"
  by (simp add: ts_captures_def opt_fraction_def opt_offset_def)

end
