(* ===== verification/Query_Parser.thy ===== *)
theory Query_Parser
  imports Datetime
begin

text \<open>
  The query language of the search box (\<open>src/src/queryparser.rs\<close>): its elements, the
  tokenizers \<open>parse_token\<close>, \<open>parse_value\<close> and \<open>parse_quoted_string\<close>, and the loop of
  \<open>parse\<close> that turns a query string into elements. The nom combinators used are the
  complete ones (\<open>multispace0\<close>, \<open>opt (alt (tag, tag))\<close>, \<open>take_till\<close>), none of which fails
  in these uses, so the tokenizers return a pair and not a result. Timestamps are those of
  theory Datetime, with its chrono parameter.
\<close>

section \<open>Elements\<close>

datatype 'dt query_value =
    QV_String string
  | QV_KeyValue string string
  | QV_From 'dt
  | QV_To 'dt
  | QV_After 'dt
  | QV_Before 'dt
  | QV_Archived
  | QV_Escalated

record 'dt query_element =
  qe_negated :: bool
  qe_value :: "'dt query_value"

text \<open>The error is the message of the datetime error, which \<open>?\<close> converts.\<close>

datatype query_error = Bad_Time_Format string

fun first_from :: "'dt query_element list \<Rightarrow> 'dt option" where
  "first_from [] = None"
| "first_from (e # es) = (case qe_value e of QV_From ts \<Rightarrow> Some ts | _ \<Rightarrow> first_from es)"

section \<open>Tokenizers\<close>

fun quoted_loop :: "string \<Rightarrow> bool \<Rightarrow> string \<Rightarrow> string \<times> string" where
  "quoted_loop [] escaped str = ([], str)"
| "quoted_loop (c # ptr) escaped str =
     (if escaped then quoted_loop ptr False (str @ [c])
      else if c = CHR 0x5C then quoted_loop ptr True str
      else if c = CHR 0x22 then (ptr, str)
      else quoted_loop ptr False (str @ [c]))"

text \<open>The caller has checked that the input starts with a quote.\<close>

definition parse_quoted_string :: "string \<Rightarrow> string \<times> string" where
  "parse_quoted_string input = quoted_loop (tl input) False []"

definition multispace :: "char \<Rightarrow> bool" where
  "multispace c \<longleftrightarrow> c \<in> {CHR '' '', CHR 0x09, CHR 0x0D, CHR 0x0A}"

definition scan_token :: "(char \<Rightarrow> bool) \<Rightarrow> string \<Rightarrow> string \<times> string" where
  "scan_token till input0 =
     (let input = dropWhile multispace input0
      in case input of
           [] \<Rightarrow> ([], [])
         | c # rest \<Rightarrow>
             (if c = CHR ''!'' \<or> c = CHR ''-'' then (rest, [c])
              else if c = CHR 0x22 then parse_quoted_string input
              else (dropWhile (\<lambda>c. \<not> till c) input, takeWhile (\<lambda>c. \<not> till c) input)))"

definition parse_token :: "string \<Rightarrow> string \<times> string" where
  "parse_token input = scan_token (\<lambda>c. c = CHR '' '' \<or> c = CHR '':'') input"

definition parse_value :: "string \<Rightarrow> string \<times> string" where
  "parse_value input = scan_token (\<lambda>c. c = CHR '' '') input"

text \<open>The contract of a tokenizer: it returns the rest of the input, never more than it
  was given.\<close>

locale tokenizer =
  fixes scan :: "string \<Rightarrow> string \<times> string"
  assumes scan_suffix: "suffix (fst (scan s)) s"
begin

lemma scan_length: "scan s = (r, t) \<Longrightarrow> length r \<le> length s"
  using scan_suffix [of s] by (auto dest: suffix_length_le)

lemma scan_then_length: "scan s = (r, t) \<Longrightarrow> length s < n \<Longrightarrow> length r < n"
  using scan_length [of s r t] by simp

end

lemma quoted_loop_suffix: "suffix (fst (quoted_loop s e acc)) s"
  by (induction s e acc rule: quoted_loop.induct)
     (auto intro: suffix_ConsI)

lemma suffix_dropWhile': "suffix (dropWhile p s) s"
  by (rule suffix_dropWhile)

lemma scan_token_suffix: "suffix (fst (scan_token till s)) s"
proof (cases "dropWhile multispace s")
  case Nil
  then show ?thesis by (simp add: scan_token_def Let_def del: dropWhile_eq_Nil_conv)
next
  case (Cons c rest)
  have s: "suffix (c # rest) s" using suffix_dropWhile' [of multispace s] Cons by simp
  have "suffix (fst (parse_quoted_string (c # rest))) (c # rest)"
    using quoted_loop_suffix by (auto simp: parse_quoted_string_def intro: suffix_ConsI)
  moreover have "suffix (dropWhile (\<lambda>c. \<not> till c) (c # rest)) (c # rest)"
    by (rule suffix_dropWhile')
  ultimately have "suffix (fst (scan_token till s)) (c # rest)"
    using Cons by (auto simp: scan_token_def Let_def suffix_ConsI)
  then show ?thesis using s by (rule suffix_order.trans)
qed

interpretation token: tokenizer parse_token
  by unfold_locales (simp add: parse_token_def scan_token_suffix)

interpretation val: tokenizer parse_value
  by unfold_locales (simp add: parse_value_def scan_token_suffix)

text \<open>A token that consumes no input is the empty one in front of a colon.\<close>

lemma parse_token_progress:
  assumes "parse_token s = (r, t)" and "s \<noteq> []"
  shows "length r < length s \<or> (t = [] \<and> (\<exists>rest. r = CHR '':'' # rest))"
proof (cases "dropWhile multispace s")
  case Nil
  then show ?thesis using assms
    by (simp add: parse_token_def scan_token_def Let_def del: dropWhile_eq_Nil_conv)
next
  case (Cons c rest)
  have le: "Suc (length rest) \<le> length s"
    using length_dropWhile_le [of multispace s] Cons by simp
  have nm: "\<not> multispace c" using Cons by (metis hd_dropWhile list.distinct(1) list.sel(1))
  consider "c = CHR ''!'' \<or> c = CHR ''-''" | "c \<noteq> CHR ''!'' \<and> c \<noteq> CHR ''-''" "c = CHR 0x22"
    | "c \<noteq> CHR ''!'' \<and> c \<noteq> CHR ''-''" "c \<noteq> CHR 0x22" "c = CHR '':''"
    | "c \<noteq> CHR ''!'' \<and> c \<noteq> CHR ''-''" "c \<noteq> CHR 0x22" "c \<noteq> CHR '':''" "c \<noteq> CHR '' ''"
    using nm by (auto simp: multispace_def)
  then show ?thesis
  proof cases
    case 1
    then show ?thesis using assms(1) Cons le by (auto simp: parse_token_def scan_token_def)
  next
    case 2
    have "length (fst (quoted_loop rest False [])) \<le> length rest"
      by (rule suffix_length_le [OF quoted_loop_suffix])
    then show ?thesis
      using assms(1) 2 Cons le by (auto simp: parse_token_def scan_token_def parse_quoted_string_def)
  next
    case 3
    then have "t = []" "r = CHR '':'' # rest"
      using assms(1) Cons by (simp_all add: parse_token_def scan_token_def Let_def)
    then show ?thesis by simp
  next
    case 4
    then have "length r \<le> length rest"
      using assms(1) Cons length_dropWhile_le [of _ rest]
      by (auto simp: parse_token_def scan_token_def)
    then show ?thesis using le by simp
  qed
qed

section \<open>parse\<close>

text \<open>What the loop pushes for \<open>key:value\<close>.\<close>

definition timed :: "('dt \<Rightarrow> 'dt query_value) \<Rightarrow> string + 'dt \<Rightarrow> query_error + 'dt query_element" where
  "timed mk r =
     (case r of Inl e \<Rightarrow> Inl (Bad_Time_Format e)
      | Inr ts \<Rightarrow> Inr \<lparr>qe_negated = False, qe_value = mk ts\<rparr>)"

definition query_term ::
    "(string \<Rightarrow> 'dt option) \<Rightarrow> string option \<Rightarrow> bool \<Rightarrow> string \<Rightarrow> string
      \<Rightarrow> query_error + 'dt query_element" where
  "query_term chrono tz negated key tok =
     (if key = ''@from'' then timed QV_From (datetime_parse chrono tok tz)
      else if key = ''@to'' then timed QV_To (datetime_parse chrono tok tz)
      else if key = ''@before'' then timed QV_Before (datetime_parse chrono tok tz)
      else if key = ''@after'' then timed QV_After (datetime_parse chrono tok tz)
      else Inr \<lparr>qe_negated = negated, qe_value =
        (if key = ''is'' \<and> eq_ignore_ascii_case tok ''archived'' then QV_Archived
         else if key = ''is'' \<and> eq_ignore_ascii_case tok ''escalated'' then QV_Escalated
         else QV_KeyValue key tok)\<rparr>)"

text \<open>What it pushes for a bare token.\<close>

definition query_word :: "bool \<Rightarrow> string \<Rightarrow> 'dt query_element list" where
  "query_word negated tok =
     (if trim tok = [] then [] else [\<lparr>qe_negated = negated, qe_value = QV_String (trim tok)\<rparr>])"

function query_loop ::
    "(string \<Rightarrow> 'dt option) \<Rightarrow> string option \<Rightarrow> string \<Rightarrow> bool \<Rightarrow> 'dt query_element list
      \<Rightarrow> query_error + 'dt query_element list" where
  "query_loop chrono tz ptr negated elements =
     (if ptr = [] then Inr elements
      else case parse_token ptr of (ptr', tok) \<Rightarrow>
        if tok = ''-'' \<or> tok = ''!'' then query_loop chrono tz ptr' True elements
        else if prefix '':'' ptr' then
          (case parse_value (drop 1 ptr') of (ptr'', val) \<Rightarrow>
             (case query_term chrono tz negated tok val of
                Inl e \<Rightarrow> Inl e
              | Inr el \<Rightarrow> query_loop chrono tz ptr'' False (elements @ [el])))
        else query_loop chrono tz ptr' False (elements @ query_word negated tok))"
  by pat_completeness auto
termination
proof (relation "measure (\<lambda>(chrono, tz, ptr, negated, elements). length ptr)", goal_cases)
  case 1
  show ?case by simp
next
  case (2 chrono tz ptr negated elements x tok)
  then show ?case using parse_token_progress [of ptr x tok] by auto
next
  case (3 chrono tz ptr negated elements x tok y val z)
  then have "length x \<le> length ptr" by (metis token.scan_length)
  moreover have "length y \<le> length (drop 1 x)" using 3 by (metis val.scan_length)
  moreover have "x \<noteq> []" using 3 by auto
  ultimately show ?case by (cases x) auto
next
  case (4 chrono tz ptr negated elements x tok)
  then show ?case using parse_token_progress [of ptr x tok] by (auto simp: prefix_def)
qed

declare query_loop.simps [simp del]

definition queryparser_parse ::
    "(string \<Rightarrow> 'dt option) \<Rightarrow> string \<Rightarrow> string option \<Rightarrow> query_error + 'dt query_element list" where
  "queryparser_parse chrono input tz_offset = query_loop chrono tz_offset input False []"

section \<open>Rendering, the specification side\<close>

text \<open>A printer of elements: every string is quoted, with quotes and backslashes escaped.\<close>

fun escape :: "string \<Rightarrow> string" where
  "escape [] = []"
| "escape (c # s) =
     (if c = CHR 0x22 \<or> c = CHR 0x5C then CHR 0x5C # c # escape s else c # escape s)"

definition quote :: "string \<Rightarrow> string" where
  "quote s = CHR 0x22 # escape s @ [CHR 0x22]"

definition render_term :: "string \<Rightarrow> string \<Rightarrow> string" where
  "render_term k v = quote k @ CHR '':'' # quote v"

fun render_value :: "('dt \<Rightarrow> string) \<Rightarrow> 'dt query_value \<Rightarrow> string" where
  "render_value show_ts (QV_String s) = quote s"
| "render_value show_ts (QV_KeyValue k v) = render_term k v"
| "render_value show_ts (QV_From ts) = render_term ''@from'' (show_ts ts)"
| "render_value show_ts (QV_To ts) = render_term ''@to'' (show_ts ts)"
| "render_value show_ts (QV_After ts) = render_term ''@after'' (show_ts ts)"
| "render_value show_ts (QV_Before ts) = render_term ''@before'' (show_ts ts)"
| "render_value show_ts QV_Archived = render_term ''is'' ''archived''"
| "render_value show_ts QV_Escalated = render_term ''is'' ''escalated''"

definition render_element :: "('dt \<Rightarrow> string) \<Rightarrow> 'dt query_element \<Rightarrow> string" where
  "render_element show_ts e =
     (if qe_negated e then ''-'' else []) @ render_value show_ts (qe_value e)"

fun render_query :: "('dt \<Rightarrow> string) \<Rightarrow> 'dt query_element list \<Rightarrow> string" where
  "render_query show_ts [] = []"
| "render_query show_ts [e] = render_element show_ts e"
| "render_query show_ts (e # es) = render_element show_ts e @ CHR '' '' # render_query show_ts es"

definition time_keys :: "string set" where
  "time_keys = {''@from'', ''@to'', ''@before'', ''@after''}"

text \<open>The elements a query can denote: no operator as a word or key, words trimmed, keys
  that are not time keys, no state flag spelled as a plain term, no negated time.\<close>

fun value_ok :: "bool \<Rightarrow> 'dt query_value \<Rightarrow> bool" where
  "value_ok neg (QV_String s) \<longleftrightarrow> s \<noteq> [] \<and> trim s = s \<and> s \<notin> {''-'', ''!''}"
| "value_ok neg (QV_KeyValue k v) \<longleftrightarrow> k \<notin> {''-'', ''!''} \<and> k \<notin> time_keys \<and>
     \<not> (k = ''is'' \<and> (eq_ignore_ascii_case v ''archived'' \<or> eq_ignore_ascii_case v ''escalated''))"
| "value_ok neg QV_Archived \<longleftrightarrow> True"
| "value_ok neg QV_Escalated \<longleftrightarrow> True"
| "value_ok neg _ \<longleftrightarrow> \<not> neg"

definition element_ok :: "'dt query_element \<Rightarrow> bool" where
  "element_ok e = value_ok (qe_negated e) (qe_value e)"

section \<open>Lemmas\<close>

lemma quoted_loop_escape:
  "quoted_loop (escape s @ CHR 0x22 # r) False acc = (r, acc @ s)"
  by (induction s arbitrary: acc) auto

lemma not_multispace_lits [simp]:
  "\<not> multispace (CHR 0x22)" "\<not> multispace (CHR ''-'')" "\<not> multispace (CHR ''!'')"
  "\<not> multispace (CHR '':'')" "multispace (CHR '' '')"
  by (simp_all add: multispace_def)

lemma scan_token_quote: "scan_token till (quote s @ r) = (r, s)"
  by (simp add: scan_token_def quote_def parse_quoted_string_def quoted_loop_escape Let_def)

lemma parse_token_quote [simp]: "parse_token (quote s @ r) = (r, s)"
  by (simp add: parse_token_def scan_token_quote)

lemma parse_value_quote [simp]: "parse_value (quote s @ r) = (r, s)"
  by (simp add: parse_value_def scan_token_quote)

lemma scan_token_operator: "c \<in> {CHR ''-'', CHR ''!''} \<Longrightarrow> scan_token till (c # r) = (r, [c])"
  by (auto simp: scan_token_def Let_def)

lemma parse_token_operator [simp]:
  "parse_token (CHR ''-'' # r) = (r, ''-'')" "parse_token (CHR ''!'' # r) = (r, ''!'')"
  by (simp_all add: parse_token_def scan_token_operator)

lemma parse_token_space [simp]: "parse_token (CHR '' '' # r) = parse_token r"
  by (simp add: parse_token_def scan_token_def)

lemma quote_not_Nil [simp]: "quote s \<noteq> []"
  by (simp add: quote_def)

lemma trim_Nil [simp]: "trim [] = []"
  by (simp add: trim_def trim_start_def trim_end_def)

lemma query_word_Nil [simp]: "query_word neg [] = []"
  by (simp add: query_word_def)

text \<open>The loop over each shape of input.\<close>

lemma query_loop_Nil [simp]: "query_loop chrono tz [] neg els = Inr els"
  by (simp add: query_loop.simps)

lemma query_loop_operator:
  "c = CHR ''-'' \<or> c = CHR ''!'' \<Longrightarrow>
     query_loop chrono tz (c # s) neg els = query_loop chrono tz s True els"
  by (auto simp: query_loop.simps [of chrono tz "c # s"])

lemma query_loop_space:
  "query_loop chrono tz (CHR '' '' # s) neg els =
     (if s = [] then Inr els else query_loop chrono tz s neg els)"
proof (cases "s = []")
  case True
  have "parse_token [] = ([], [])" by (simp add: parse_token_def scan_token_def)
  then show ?thesis unfolding True by (simp add: query_loop.simps [of chrono tz "'' ''"])
next
  case False
  then show ?thesis
    by (simp add: query_loop.simps [of chrono tz "CHR '' '' # s"] query_loop.simps [of chrono tz s])
qed

lemma query_loop_word:
  assumes "s \<notin> {''-'', ''!''}" and "\<not> prefix '':'' r"
  shows "query_loop chrono tz (quote s @ r) neg els =
    query_loop chrono tz r False (els @ query_word neg s)"
  using assms by (simp add: query_loop.simps [of chrono tz "quote s @ r"])

lemma query_loop_term:
  assumes "k \<notin> {''-'', ''!''}"
  shows "query_loop chrono tz (render_term k v @ r) neg els =
    (case query_term chrono tz neg k v of Inl e \<Rightarrow> Inl e
     | Inr el \<Rightarrow> query_loop chrono tz r False (els @ [el]))"
  using assms by (simp add: render_term_def query_loop.simps [of chrono tz "quote k @ CHR '':'' # quote v @ r"])

lemma state_flags_differ [simp]:
  "to_ascii_lowercase ''escalated'' \<noteq> to_ascii_lowercase ''archived''"
  by (auto dest!: arg_cong [where f = length] simp: to_ascii_lowercase_def)

lemma query_loop_render_value:
  assumes "value_ok neg v" and "\<not> prefix '':'' r"
    and ts: "\<And>ts. datetime_parse chrono (show_ts ts) tz = Inr ts"
  shows "query_loop chrono tz (render_value show_ts v @ r) neg els =
    query_loop chrono tz r False (els @ [\<lparr>qe_negated = neg, qe_value = v\<rparr>])"
  using assms
  by (cases v)
     (auto simp: query_loop_word query_loop_term query_term_def query_word_def timed_def ts
        time_keys_def eq_ignore_ascii_case_def)

lemma query_loop_render_element:
  assumes "element_ok e" and "\<not> prefix '':'' r"
    and ts: "\<And>ts. datetime_parse chrono (show_ts ts) tz = Inr ts"
  shows "query_loop chrono tz (render_element show_ts e @ r) False els =
    query_loop chrono tz r False (els @ [e])"
proof -
  have e: "\<lparr>qe_negated = qe_negated e, qe_value = qe_value e\<rparr> = e" by simp
  show ?thesis
    using assms query_loop_render_value [of "qe_negated e" "qe_value e" r chrono show_ts tz els]
    unfolding e
    by (cases "qe_negated e") (auto simp: render_element_def element_ok_def query_loop_operator)
qed

lemma render_element_not_Nil [simp]: "render_element show_ts e \<noteq> []"
  by (cases "qe_value e") (auto simp: render_element_def render_term_def)

lemma query_loop_render:
  assumes ts: "\<And>ts. datetime_parse chrono (show_ts ts) tz = Inr ts"
  shows "list_all element_ok es \<Longrightarrow>
    query_loop chrono tz (render_query show_ts es) False els = Inr (els @ es)"
proof (induction es arbitrary: els)
  case Nil
  then show ?case by simp
next
  case (Cons e es)
  show ?case
  proof (cases es)
    case Nil
    then show ?thesis
      using Cons.prems query_loop_render_element [of e "[]" chrono show_ts tz els] ts by simp
  next
    case (Cons e' es')
    then have "render_query show_ts es \<noteq> []" by (cases es') auto
    then show ?thesis
      using Cons Cons.IH Cons.prems ts
        query_loop_render_element [of e "CHR '' '' # render_query show_ts es" chrono show_ts tz els]
      by (simp add: query_loop_space)
  qed
qed

text \<open>What the loop has pushed, it keeps, and what it pushes satisfies any predicate that
  the two pushing functions guarantee.\<close>

lemma query_loop_all:
  assumes "\<And>neg k v el. k \<notin> {''-'', ''!''} \<Longrightarrow> query_term chrono tz neg k v = Inr el \<Longrightarrow> P el"
    and "\<And>neg t. t \<notin> {''-'', ''!''} \<Longrightarrow> list_all P (query_word neg t)"
    and "query_loop chrono tz ptr neg els = Inr out" and "list_all P els"
  shows "list_all P out"
  using assms
proof (induction chrono tz ptr neg els rule: query_loop.induct)
  case (1 chrono tz ptr neg els)
  obtain ptr' tok where pt: "parse_token ptr = (ptr', tok)" by fastforce
  obtain ptr'' val where pv: "parse_value (drop 1 ptr') = (ptr'', val)" by fastforce
  consider "ptr = []" | "ptr \<noteq> []" "tok = ''-'' \<or> tok = ''!''"
    | "ptr \<noteq> []" "tok \<notin> {''-'', ''!''}" "prefix '':'' ptr'"
    | "ptr \<noteq> []" "tok \<notin> {''-'', ''!''}" "\<not> prefix '':'' ptr'" by blast
  then show ?case
  proof cases
    case 1
    then show ?thesis using "1.prems" by simp
  next
    case 2
    then show ?thesis
      using "1.IH"(1) [OF _ pt [symmetric]] "1.prems" pt
      by (simp add: query_loop.simps [of chrono tz ptr])
  next
    case 3
    then obtain el where el: "query_term chrono tz neg tok val = Inr el"
      and out: "query_loop chrono tz ptr'' False (els @ [el]) = Inr out"
      using "1.prems"(3) pt pv
      by (auto simp: query_loop.simps [of chrono tz ptr] split: sum.splits)
    then show ?thesis
      using "1.IH"(2) [OF _ pt [symmetric] _ _ pv [symmetric] el] "1.prems" 3 by simp
  next
    case 4
    then show ?thesis
      using "1.IH"(3) [OF _ pt [symmetric]] "1.prems" pt
      by (simp add: query_loop.simps [of chrono tz ptr])
  qed
qed

lemma query_term_ok:
  "k \<notin> {''-'', ''!''} \<Longrightarrow> query_term chrono tz neg k v = Inr el \<Longrightarrow> value_ok (qe_negated el) (qe_value el)"
  by (auto simp: query_term_def timed_def time_keys_def split: if_splits sum.splits)

section \<open>Properties\<close>

text \<open>C29. Printing a list of well-formed elements with every string quoted and parsing the
  text returns exactly these elements, in order, with their negation: quoting protects
  spaces, colons, quotes, backslashes and operators inside words, keys and values. The only
  thing relied on is that a printed timestamp parses to itself.\<close>

theorem query_parse_render:
  assumes "\<And>ts. datetime_parse chrono (show_ts ts) tz = Inr ts"
    and "list_all element_ok es"
  shows "queryparser_parse chrono (render_query show_ts es) tz = Inr es"
  using query_loop_render [OF assms(1) assms(2), of "[]"] by (simp add: queryparser_parse_def)

theorem query_parse_render_witness:
  "queryparser_parse Some (render_query id
      [\<lparr>qe_negated = True, qe_value = QV_String ''et info''\<rparr>,
       \<lparr>qe_negated = False, qe_value = QV_KeyValue ''src_ip'' ''10.10.10.10''\<rparr>,
       \<lparr>qe_negated = False, qe_value = QV_From ''2024''\<rparr>]) None
   = Inr
      [\<lparr>qe_negated = True, qe_value = QV_String ''et info''\<rparr>,
       \<lparr>qe_negated = False, qe_value = QV_KeyValue ''src_ip'' ''10.10.10.10''\<rparr>,
       \<lparr>qe_negated = False, qe_value = QV_From ''2024''\<rparr>]"
proof (rule query_parse_render)
  show "datetime_parse Some (id ts) None = Inr ts" for ts
    by (simp add: datetime_parse_def)
  show "list_all element_ok
      [\<lparr>qe_negated = True, qe_value = QV_String ''et info''\<rparr>,
       \<lparr>qe_negated = False, qe_value = QV_KeyValue ''src_ip'' ''10.10.10.10''\<rparr>,
       \<lparr>qe_negated = False, qe_value = QV_From ''2024'' :: string query_value\<rparr>]"
    by code_simp
qed

definition term_ok :: "'dt query_element \<Rightarrow> bool" where
  "term_ok e = (case qe_value e of QV_String s \<Rightarrow> s \<noteq> [] | v \<Rightarrow> value_ok (qe_negated e) v)"

text \<open>Every accepted query denotes well-formed terms only: a time bound is never negated,
  no element keeps a time key or an operator as its key, and a state flag is never left as a
  plain key/value term.\<close>

theorem query_parse_well_formed:
  assumes "queryparser_parse chrono input tz = Inr es"
  shows "list_all term_ok es"
proof (rule query_loop_all)
  show "query_loop chrono tz input False [] = Inr es"
    using assms by (simp add: queryparser_parse_def)
  show "term_ok el" if "k \<notin> {''-'', ''!''}" "query_term chrono tz neg k v = Inr el" for neg k v el
    using query_term_ok [OF that] by (auto simp: term_ok_def split: query_value.splits)
  show "list_all term_ok (query_word neg t)" for neg t
    by (simp add: query_word_def term_ok_def)
qed simp

theorem query_parse_well_formed_witness:
  "list_all term_ok [\<lparr>qe_negated = True, qe_value = QV_Archived :: string query_value\<rparr>]"
  by (rule query_parse_well_formed [of Some "''-is:Archived''" None]) code_simp

end
