(* ===== verification/Json.thy ===== *)
theory Json
  imports Prelude "HOL-Library.AList"
begin

text \<open>
  The JSON values the sources work on: \<open>serde_json::Value\<close> with the accessors that the
  modelled code calls on events. Indexing a value that is not an object, or an absent key,
  reads \<open>Null\<close>; assigning through an index turns \<open>Null\<close> into an object, creates absent
  keys, and panics (\<open>None\<close>) on every other value. An object is an association list; only
  lookups and updates by key are used, never its order. Integer literals outside the ranges
  of u64 and i64 are floats in serde_json, which is why \<open>as_u64\<close> checks the range.
\<close>

datatype json =
    JNull
  | JBool bool
  | JInt int
  | JFloat string
  | JStr string
  | JArr "json list"
  | JObj "(string \<times> json) list"

fun json_get :: "json \<Rightarrow> string \<Rightarrow> json option" where
  "json_get (JObj kvs) k = map_of kvs k"
| "json_get _ k = None"

definition json_index :: "json \<Rightarrow> string \<Rightarrow> json" where
  "json_index v k = (case json_get v k of None \<Rightarrow> JNull | Some x \<Rightarrow> x)"

fun as_str :: "json \<Rightarrow> string option" where
  "as_str (JStr s) = Some s"
| "as_str _ = None"

fun as_u64 :: "json \<Rightarrow> u64 option" where
  "as_u64 (JInt i) = try_from_int i"
| "as_u64 _ = None"

fun as_array :: "json \<Rightarrow> json list option" where
  "as_array (JArr xs) = Some xs"
| "as_array _ = None"

fun as_object :: "json \<Rightarrow> (string \<times> json) list option" where
  "as_object (JObj kvs) = Some kvs"
| "as_object _ = None"

text \<open>\<open>event[k1][k2].. = x\<close>; \<open>None\<close> is the panic.\<close>

fun json_set :: "string list \<Rightarrow> json \<Rightarrow> json \<Rightarrow> json option" where
  "json_set [] x v = Some x"
| "json_set (k # ks) x JNull = map_option (\<lambda>u. JObj [(k, u)]) (json_set ks x JNull)"
| "json_set (k # ks) x (JObj kvs) =
     map_option (\<lambda>u. JObj (AList.update k u kvs)) (json_set ks x (json_index (JObj kvs) k))"
| "json_set (k # ks) x _ = None"

lemma json_index_non_object [simp]:
  "as_object v = None \<Longrightarrow> json_index v k = JNull"
  by (cases v) (auto simp: json_index_def)

lemma json_index_JObj [simp]:
  "json_index (JObj kvs) k = (case map_of kvs k of None \<Rightarrow> JNull | Some x \<Rightarrow> x)"
  by (simp add: json_index_def)

lemma as_object_Some [simp]: "as_object v = Some kvs \<longleftrightarrow> v = JObj kvs"
  by (cases v) auto

lemma as_array_Some [simp]: "as_array v = Some xs \<longleftrightarrow> v = JArr xs"
  by (cases v) auto

lemma as_str_Some [simp]: "as_str v = Some s \<longleftrightarrow> v = JStr s"
  by (cases v) auto

text \<open>What an assignment of one key gives back on lookup.\<close>

definition indexable :: "json \<Rightarrow> bool" where
  "indexable v \<longleftrightarrow> v = JNull \<or> (\<exists>kvs. v = JObj kvs)"

lemma json_set_one:
  "indexable v \<Longrightarrow> \<exists>v'. json_set [k] x v = Some v' \<and> as_object v' \<noteq> None"
  by (auto simp: indexable_def)

lemma json_set_one_get:
  "json_set [k] x v = Some v' \<Longrightarrow> json_get v' k' = (if k' = k then Some x else json_get v k')"
  by (cases v) (auto simp: update_conv)

lemma json_set_one_index:
  "json_set [k] x v = Some v' \<Longrightarrow> json_index v' k' = (if k' = k then x else json_index v k')"
  by (simp add: json_index_def json_set_one_get)

lemma json_set_object: "json_set (k # ks) x v = Some v' \<Longrightarrow> as_object v' \<noteq> None"
  by (cases v) auto

text \<open>The value at a path of keys.\<close>

fun json_path :: "json \<Rightarrow> string list \<Rightarrow> json" where
  "json_path v [] = v"
| "json_path v (k # ks) = json_path (json_index v k) ks"

lemma json_set_path:
  "json_set ks x v = Some v' \<Longrightarrow> json_path v' ks = x"
proof (induction ks x v arbitrary: v' rule: json_set.induct)
  case (3 k ks x kvs)
  then show ?case by (auto simp: update_conv)
qed auto

text \<open>A nested assignment is an assignment to the inner value, then of the inner value.\<close>

lemma json_set_nested:
  "json_set (k # k2 # ks) x v = Some v' \<longleftrightarrow>
     (\<exists>u. json_set (k2 # ks) x (json_index v k) = Some u \<and> json_set [k] u v = Some v')"
  by (cases v) (auto simp: json_index_def)

lemma json_set_two:
  assumes "json_set [k, k2] x v = Some v'"
  shows "json_index v' j = (if j = k then json_index v' k else json_index v j)"
    and "json_index (json_index v' k) j2 = (if j2 = k2 then x else json_index (json_index v k) j2)"
proof -
  obtain u where u: "json_set [k2] x (json_index v k) = Some u" "json_set [k] u v = Some v'"
    using assms unfolding json_set_nested by blast
  show "json_index v' j = (if j = k then json_index v' k else json_index v j)"
    using json_set_one_index [OF u(2)] by simp
  show "json_index (json_index v' k) j2 = (if j2 = k2 then x else json_index (json_index v k) j2)"
    using json_set_one_index [OF u(2), of k] json_set_one_index [OF u(1)] by simp
qed

lemma json_set_indexable: "(\<exists>v'. json_set [k] x v = Some v') \<longleftrightarrow> indexable v"
  by (cases v) (auto simp: indexable_def)

lemma json_set_two_indexable:
  "(\<exists>v'. json_set [k, k2] x v = Some v') \<longleftrightarrow> indexable v \<and> indexable (json_index v k)"
  using json_set_nested [of k k2 "[]" x v] json_set_indexable [of k _ v] json_set_indexable [of k2 x "json_index v k"]
  by metis

end
