(* ===== verification/Net_Addr.thy ===== *)
theory Net_Addr
  imports Prelude
begin

text \<open>
  IP addresses as the sources use them (\<open>std::net::IpAddr\<close>): an IPv4 address is four
  octets, an IPv6 address eight segments. \<open>show_ip\<close> is the standard \<open>Display\<close>: dotted
  decimal, and for IPv6 the lower case hexadecimal segments with the first longest run of
  at least two zero segments written as \<open>::\<close>, IPv4-mapped addresses in mixed notation.
\<close>

datatype ip_addr =
    IpV4 u8 u8 u8 u8
  | IpV6 u16 u16 u16 u16 u16 u16 u16 u16

fun is_ipv4 :: "ip_addr \<Rightarrow> bool" where
  "is_ipv4 (IpV4 _ _ _ _) = True"
| "is_ipv4 (IpV6 _ _ _ _ _ _ _ _) = False"

definition is_ipv6 :: "ip_addr \<Rightarrow> bool" where
  "is_ipv6 a \<longleftrightarrow> \<not> is_ipv4 a"

fun ip_octets :: "ip_addr \<Rightarrow> u8 list" where
  "ip_octets (IpV4 a b c d) = [a, b, c, d]"
| "ip_octets (IpV6 a b c d e f g h) =
     concat (map (\<lambda>s. [ucast (drop_bit 8 s), ucast s]) [a, b, c, d, e, f, g, h])"

definition show_v4 :: "u8 \<Rightarrow> u8 \<Rightarrow> u8 \<Rightarrow> u8 \<Rightarrow> string" where
  "show_v4 a b c d = show_nat (unat a) @ ''.'' @ show_nat (unat b) @ ''.''
     @ show_nat (unat c) @ ''.'' @ show_nat (unat d)"

definition hex_digit :: "nat \<Rightarrow> char" where
  "hex_digit n = (if n < 10 then char_of (48 + n) else char_of (87 + n))"

fun show_hex :: "nat \<Rightarrow> string" where
  "show_hex n = (if n < 16 then [hex_digit n] else show_hex (n div 16) @ [hex_digit (n mod 16)])"

declare show_hex.simps [simp del]

fun show_segments :: "u16 list \<Rightarrow> string" where
  "show_segments [] = []"
| "show_segments [s] = show_hex (unat s)"
| "show_segments (s # t # ss) = show_hex (unat s) @ CHR '':'' # show_segments (t # ss)"

text \<open>The scan for the longest zero run: position, current run, longest run (start, length).\<close>

fun zero_run :: "u16 list \<Rightarrow> nat \<Rightarrow> nat \<times> nat \<Rightarrow> nat \<times> nat \<Rightarrow> nat \<times> nat" where
  "zero_run [] i cur best = best"
| "zero_run (s # ss) i (st, n) best =
     (if s = 0 then
        (let cur = (if n = 0 then (i, 1) else (st, n + 1))
         in zero_run ss (i + 1) cur (if snd cur > snd best then cur else best))
      else zero_run ss (i + 1) (0, 0) best)"

definition show_v6 :: "u16 list \<Rightarrow> string" where
  "show_v6 ss =
     (let (st, n) = zero_run ss 0 (0, 0) (0, 0)
      in if n > 1 then show_segments (take st ss) @ ''::'' @ show_segments (drop (st + n) ss)
         else show_segments ss)"

fun show_ip :: "ip_addr \<Rightarrow> string" where
  "show_ip (IpV4 a b c d) = show_v4 a b c d"
| "show_ip (IpV6 a b c d e f g h) =
     (if [a, b, c, d, e] = [0, 0, 0, 0, 0] \<and> f = - 1
      then ''::ffff:'' @ show_v4 (ucast (drop_bit 8 g)) (ucast g) (ucast (drop_bit 8 h)) (ucast h)
      else show_v6 [a, b, c, d, e, f, g, h])"

end
