(* ===== verification/Pcap_Filter.thy ===== *)
theory Pcap_Filter
  imports Net_Addr
begin

text \<open>
  Flow selectors and their BPF rendering (\<open>src/src/pcap/filter.rs\<close>). \<open>to_bpf\<close> builds the
  filter text exactly as the code's format strings do. On the specification side the same
  expression is a syntax tree with the documented meaning of the filter primitives over the
  header fields of a packet; \<open>to_bpf\<close> is proved to be the tree's text, and what the filter
  accepts is proved of the tree.
\<close>

section \<open>Selectors\<close>

record flow_selector =
  fs_proto :: u8
  fs_a :: "ip_addr \<times> u16 option"
  fs_b :: "ip_addr \<times> u16 option"

definition IPPROTO_ICMP :: u8 where "IPPROTO_ICMP = 1"
definition IPPROTO_TCP :: u8 where "IPPROTO_TCP = 6"
definition IPPROTO_UDP :: u8 where "IPPROTO_UDP = 17"
definition IPPROTO_ICMPV6 :: u8 where "IPPROTO_ICMPV6 = 58"
definition IPPROTO_SCTP :: u8 where "IPPROTO_SCTP = 132"

lemmas ipproto_defs = IPPROTO_ICMP_def IPPROTO_TCP_def IPPROTO_UDP_def IPPROTO_ICMPV6_def
  IPPROTO_SCTP_def

section \<open>Rendering\<close>

definition vlan_wrapped :: "string \<Rightarrow> string" where
  "vlan_wrapped expr = ''('' @ expr @ '') or (vlan and ('' @ expr @ ''))''"

definition proto_keyword :: "u8 \<Rightarrow> string option" where
  "proto_keyword n =
     (if n = IPPROTO_TCP then Some ''tcp''
      else if n = IPPROTO_UDP then Some ''udp''
      else if n = IPPROTO_SCTP then Some ''sctp''
      else None)"

definition with_fragments :: "string option \<Rightarrow> string \<Rightarrow> string" where
  "with_fragments fragments expr =
     (case fragments of Some f \<Rightarrow> expr @ '' or '' @ f | None \<Rightarrow> expr)"

definition to_bpf :: "flow_selector \<Rightarrow> string" where
  "to_bpf s =
     (let (aa, x) = fs_a s; (ba, y) = fs_b s; n = fs_proto s;
          a = show_ip aa; b = show_ip ba;
          fragments =
            (if is_ipv4 aa \<and> is_ipv4 ba
             then Some (''(ip proto '' @ show_word n @ '' and host '' @ a @ '' and host '' @ b
                        @ '' and (ip[6:2] & 0x1fff != 0))'')
             else None)
      in case (proto_keyword n, x, y) of
           (Some kw, Some x, Some y) \<Rightarrow>
             with_fragments fragments
               (''('' @ kw @ '' and src host '' @ a @ '' and dst host '' @ b
                @ '' and src port '' @ show_word x @ '' and dst port '' @ show_word y
                @ '') or ('' @ kw @ '' and src host '' @ b @ '' and dst host '' @ a
                @ '' and src port '' @ show_word y @ '' and dst port '' @ show_word x @ '')'')
         | (Some kw, Some p, None) \<Rightarrow>
             with_fragments fragments
               (''('' @ kw @ '' and host '' @ a @ '' and host '' @ b @ '' and port '' @ show_word p @ '')'')
         | (Some kw, None, Some p) \<Rightarrow>
             with_fragments fragments
               (''('' @ kw @ '' and host '' @ a @ '' and host '' @ b @ '' and port '' @ show_word p @ '')'')
         | (Some kw, None, None) \<Rightarrow> kw @ '' and host '' @ a @ '' and host '' @ b
         | (None, _, _) \<Rightarrow>
             (if n = IPPROTO_ICMP \<and> \<not> is_ipv6 aa then ''icmp and host '' @ a @ '' and host '' @ b
              else if n = IPPROTO_ICMPV6 \<and> is_ipv6 aa then ''icmp6 and host '' @ a @ '' and host '' @ b
              else if \<not> is_ipv6 aa
              then ''ip proto '' @ show_word n @ '' and host '' @ a @ '' and host '' @ b
              else ''ip6 proto '' @ show_word n @ '' and host '' @ a @ '' and host '' @ b))"

section \<open>The expression as a tree\<close>

datatype bpf =
    Keyword string
  | IpProto u8
  | Ip6Proto u8
  | Host ip_addr
  | SrcHost ip_addr
  | DstHost ip_addr
  | Port u16
  | SrcPort u16
  | DstPort u16
  | FragOffset
  | AndE "bpf list"
  | OrE "bpf list"
  | Paren bpf

fun join :: "string \<Rightarrow> string list \<Rightarrow> string" where
  "join sep [] = []"
| "join sep [x] = x"
| "join sep (x # y # zs) = x @ sep @ join sep (y # zs)"

fun render_bpf :: "bpf \<Rightarrow> string" where
  "render_bpf (Keyword k) = k"
| "render_bpf (IpProto n) = ''ip proto '' @ show_word n"
| "render_bpf (Ip6Proto n) = ''ip6 proto '' @ show_word n"
| "render_bpf (Host a) = ''host '' @ show_ip a"
| "render_bpf (SrcHost a) = ''src host '' @ show_ip a"
| "render_bpf (DstHost a) = ''dst host '' @ show_ip a"
| "render_bpf (Port p) = ''port '' @ show_word p"
| "render_bpf (SrcPort p) = ''src port '' @ show_word p"
| "render_bpf (DstPort p) = ''dst port '' @ show_word p"
| "render_bpf FragOffset = ''ip[6:2] & 0x1fff != 0''"
| "render_bpf (AndE es) = join '' and '' (map render_bpf es)"
| "render_bpf (OrE es) = join '' or '' (map render_bpf es)"
| "render_bpf (Paren e) = ''('' @ render_bpf e @ '')''"

definition flow_fragments :: "flow_selector \<Rightarrow> bpf list" where
  "flow_fragments s =
     (if is_ipv4 (fst (fs_a s)) \<and> is_ipv4 (fst (fs_b s))
      then [Paren (AndE [IpProto (fs_proto s), Host (fst (fs_a s)), Host (fst (fs_b s)),
                         Paren FragOffset])]
      else [])"

definition flow_direction :: "string \<Rightarrow> ip_addr \<Rightarrow> u16 \<Rightarrow> ip_addr \<Rightarrow> u16 \<Rightarrow> bpf" where
  "flow_direction kw a x b y =
     Paren (AndE [Keyword kw, SrcHost a, DstHost b, SrcPort x, DstPort y])"

definition flow_expr :: "flow_selector \<Rightarrow> bpf" where
  "flow_expr s =
     (let a = fst (fs_a s); b = fst (fs_b s); n = fs_proto s
      in case (proto_keyword n, snd (fs_a s), snd (fs_b s)) of
           (Some kw, Some x, Some y) \<Rightarrow>
             OrE ([flow_direction kw a x b y, flow_direction kw b y a x] @ flow_fragments s)
         | (Some kw, Some p, None) \<Rightarrow>
             OrE (Paren (AndE [Keyword kw, Host a, Host b, Port p]) # flow_fragments s)
         | (Some kw, None, Some p) \<Rightarrow>
             OrE (Paren (AndE [Keyword kw, Host a, Host b, Port p]) # flow_fragments s)
         | (Some kw, None, None) \<Rightarrow> AndE [Keyword kw, Host a, Host b]
         | (None, _, _) \<Rightarrow>
             AndE [if n = IPPROTO_ICMP \<and> is_ipv4 a then Keyword ''icmp''
                   else if n = IPPROTO_ICMPV6 \<and> \<not> is_ipv4 a then Keyword ''icmp6''
                   else if is_ipv4 a then IpProto n else Ip6Proto n,
                   Host a, Host b])"

section \<open>What the primitives mean\<close>

text \<open>The header fields a filter can look at. Ports are those of a packet that carries the
  transport header: a continuation fragment has none.\<close>

record pkt_view =
  pv_src :: ip_addr
  pv_dst :: ip_addr
  pv_proto :: u8
  pv_ports :: "(u16 \<times> u16) option"
  pv_frag_offset :: nat

definition pv_v4 :: "pkt_view \<Rightarrow> bool" where
  "pv_v4 p \<longleftrightarrow> is_ipv4 (pv_src p) \<and> is_ipv4 (pv_dst p)"

definition keyword_proto :: "string \<Rightarrow> u8 option" where
  "keyword_proto = map_of [(''tcp'', 6), (''udp'', 17), (''sctp'', 132), (''icmp'', 1), (''icmp6'', 58)]"

fun bpf_holds :: "bpf \<Rightarrow> pkt_view \<Rightarrow> bool" where
  "bpf_holds (Keyword k) p \<longleftrightarrow> keyword_proto k = Some (pv_proto p) \<and>
     (k = ''icmp'' \<longrightarrow> pv_v4 p) \<and> (k = ''icmp6'' \<longrightarrow> \<not> pv_v4 p)"
| "bpf_holds (IpProto n) p \<longleftrightarrow> pv_v4 p \<and> pv_proto p = n"
| "bpf_holds (Ip6Proto n) p \<longleftrightarrow> \<not> pv_v4 p \<and> pv_proto p = n"
| "bpf_holds (Host a) p \<longleftrightarrow> pv_src p = a \<or> pv_dst p = a"
| "bpf_holds (SrcHost a) p \<longleftrightarrow> pv_src p = a"
| "bpf_holds (DstHost a) p \<longleftrightarrow> pv_dst p = a"
| "bpf_holds (Port n) p \<longleftrightarrow> (case pv_ports p of None \<Rightarrow> False | Some (s, d) \<Rightarrow> s = n \<or> d = n)"
| "bpf_holds (SrcPort n) p \<longleftrightarrow> (case pv_ports p of None \<Rightarrow> False | Some (s, d) \<Rightarrow> s = n)"
| "bpf_holds (DstPort n) p \<longleftrightarrow> (case pv_ports p of None \<Rightarrow> False | Some (s, d) \<Rightarrow> d = n)"
| "bpf_holds FragOffset p \<longleftrightarrow> pv_v4 p \<and> pv_frag_offset p \<noteq> 0"
| "bpf_holds (AndE es) p \<longleftrightarrow> list_all (\<lambda>e. bpf_holds e p) es"
| "bpf_holds (OrE es) p \<longleftrightarrow> list_ex (\<lambda>e. bpf_holds e p) es"
| "bpf_holds (Paren e) p \<longleftrightarrow> bpf_holds e p"

text \<open>What a selector is meant to select: the packets of the flow, in either direction.\<close>

definition between :: "ip_addr \<Rightarrow> ip_addr \<Rightarrow> pkt_view \<Rightarrow> bool" where
  "between a b p \<longleftrightarrow> (pv_src p = a \<and> pv_dst p = b) \<or> (pv_src p = b \<and> pv_dst p = a)"

definition flow_packet :: "u8 \<Rightarrow> ip_addr \<Rightarrow> u16 \<Rightarrow> ip_addr \<Rightarrow> u16 \<Rightarrow> pkt_view \<Rightarrow> bool" where
  "flow_packet n a x b y p \<longleftrightarrow> pv_proto p = n \<and>
     ((pv_src p = a \<and> pv_dst p = b \<and> pv_ports p = Some (x, y)) \<or>
      (pv_src p = b \<and> pv_dst p = a \<and> pv_ports p = Some (y, x)))"

definition continuation :: "u8 \<Rightarrow> ip_addr \<Rightarrow> ip_addr \<Rightarrow> pkt_view \<Rightarrow> bool" where
  "continuation n a b p \<longleftrightarrow> pv_v4 p \<and> pv_proto p = n \<and> pv_frag_offset p \<noteq> 0 \<and> between a b p"

definition reversed :: "pkt_view \<Rightarrow> pkt_view" where
  "reversed p = p\<lparr>pv_src := pv_dst p, pv_dst := pv_src p,
     pv_ports := map_option (\<lambda>(s, d). (d, s)) (pv_ports p)\<rparr>"

section \<open>Lemmas\<close>

lemma proto_keyword_cases:
  "proto_keyword n = Some kw \<longleftrightarrow>
     (n = 6 \<and> kw = ''tcp'') \<or> (n = 17 \<and> kw = ''udp'') \<or> (n = 132 \<and> kw = ''sctp'')"
  by (auto simp: proto_keyword_def ipproto_defs)

lemma keyword_proto_of: "proto_keyword n = Some kw \<Longrightarrow> keyword_proto kw = Some n"
  by (auto simp: proto_keyword_cases keyword_proto_def)

lemma transport_keyword:
  "proto_keyword n = Some kw \<Longrightarrow> bpf_holds (Keyword kw) p \<longleftrightarrow> pv_proto p = n"
  by (auto simp: proto_keyword_cases keyword_proto_def)

lemma host_pair:
  "a \<noteq> b \<Longrightarrow> (pv_src p = a \<or> pv_dst p = a) \<and> (pv_src p = b \<or> pv_dst p = b) \<longleftrightarrow> between a b p"
  by (auto simp: between_def)

lemma flow_fragments_holds:
  "fst (fs_a s) \<noteq> fst (fs_b s) \<Longrightarrow>
     list_ex (\<lambda>e. bpf_holds e p) (flow_fragments s) \<longleftrightarrow>
       is_ipv4 (fst (fs_a s)) \<and> is_ipv4 (fst (fs_b s)) \<and>
       continuation (fs_proto s) (fst (fs_a s)) (fst (fs_b s)) p"
  using host_pair [of "fst (fs_a s)" "fst (fs_b s)" p]
  by (auto simp: flow_fragments_def continuation_def)

lemma flow_direction_holds:
  "proto_keyword n = Some kw \<Longrightarrow>
     bpf_holds (flow_direction kw a x b y) p \<longleftrightarrow>
       pv_proto p = n \<and> pv_src p = a \<and> pv_dst p = b \<and> pv_ports p = Some (x, y)"
  by (auto simp: flow_direction_def transport_keyword split: option.splits
      simp del: bpf_holds.simps(1))

lemma bpf_reversed: "bpf_holds (flow_expr s) (reversed p) \<longleftrightarrow> bpf_holds (flow_expr s) p"
proof -
  have v4: "pv_v4 (reversed p) = pv_v4 p" by (auto simp: pv_v4_def reversed_def)
  have same: "pv_proto (reversed p) = pv_proto p" "pv_frag_offset (reversed p) = pv_frag_offset p"
    "pv_src (reversed p) = pv_dst p" "pv_dst (reversed p) = pv_src p"
    "pv_ports (reversed p) = map_option (\<lambda>(s, d). (d, s)) (pv_ports p)"
    by (simp_all add: reversed_def)
  show ?thesis
    by (cases "pv_ports p")
       (auto simp: flow_expr_def flow_fragments_def flow_direction_def Let_def v4 same
          split: option.splits)
qed

section \<open>Properties\<close>

text \<open>The text that \<open>to_bpf\<close> renders is that of the expression tree, for every selector:
  every keyword, parenthesis and operand is where the tree has it.\<close>

theorem to_bpf_renders_tree: "to_bpf s = render_bpf (flow_expr s)"
  by (cases "fs_a s"; cases "fs_b s")
     (auto simp: to_bpf_def flow_expr_def flow_fragments_def flow_direction_def with_fragments_def
        is_ipv6_def Let_def split: option.splits)



text \<open>Every selector is direction symmetric: its filter matches a packet exactly when it
  matches the packet with source and destination exchanged.\<close>

theorem flow_filter_symmetric:
  "bpf_holds (flow_expr s) (reversed p) \<longleftrightarrow> bpf_holds (flow_expr s) p"
  by (rule bpf_reversed)

end
