(* ===== verification/Pcap_Timeframe.thy ===== *)
theory Pcap_Timeframe
  imports Datetime Json Pcap_Filter
begin

text \<open>
  From a stored event to an extraction window and a flow selector
  (\<open>src/src/pcap/timeframe.rs\<close>). A timestamp is the instant it denotes, in microseconds
  since the epoch (the resolution of the events); the offset it was written with plays no
  part here. chrono is a parameter: its parser, and the least and greatest instants it can
  represent, outside which its checked addition answers \<open>None\<close>. The parser of textual IP
  addresses (\<open>str::parse\<close> to \<open>IpAddr\<close>) is an argument too.
\<close>

section \<open>Timestamps\<close>

record chrono =
  ch_parse :: "string \<Rightarrow> int option"
  ch_min :: int
  ch_max :: int

datatype window_error =
    Bad_Timestamp string
  | No_Timestamp
  | Out_Of_Range
  | Ends_Before_Start

record window =
  w_start :: int
  w_end :: int

definition parse_ts :: "chrono \<Rightarrow> string \<Rightarrow> window_error + int" where
  "parse_ts ch input =
     (case datetime_parse (ch_parse ch) input None of
        Inl e \<Rightarrow> Inl (Bad_Timestamp e) | Inr ts \<Rightarrow> Inr ts)"

definition event_timestamp :: "chrono \<Rightarrow> json \<Rightarrow> window_error + int" where
  "event_timestamp ch event =
     try_then (ok_or (as_str (json_index event ''timestamp'')) No_Timestamp) (parse_ts ch)"

definition checked_ts :: "chrono \<Rightarrow> int \<Rightarrow> int \<Rightarrow> window_error + int" where
  "checked_ts ch datetime delta =
     (if ch_min ch \<le> datetime + delta \<and> datetime + delta \<le> ch_max ch
      then Inr (datetime + delta) else Inl Out_Of_Range)"

definition mk_window :: "int \<Rightarrow> int \<Rightarrow> window_error + window" where
  "mk_window st en =
     (if en < st then Inl Ends_Before_Start else Inr \<lparr>w_start = st, w_end = en\<rparr>)"

definition one_sec :: int where "one_sec = 1000000"
definition one_min :: int where "one_min = 60 * 1000000"

section \<open>Windows\<close>

definition flow_object :: "json \<Rightarrow> json" where
  "flow_object event =
     (if as_str (json_index event ''event_type'') = Some ''netflow''
      then json_index event ''netflow'' else json_index event ''flow'')"

definition flow_typed :: "json \<Rightarrow> bool" where
  "flow_typed event \<longleftrightarrow> as_str (json_index event ''event_type'') \<in> {Some ''flow'', Some ''netflow''}"

text \<open>\<open>transpose\<close>: a present start must parse.\<close>

definition flow_start :: "chrono \<Rightarrow> json \<Rightarrow> window_error + int option" where
  "flow_start ch event =
     (case as_str (json_index (flow_object event) ''start'') of
        None \<Rightarrow> Inr None
      | Some s \<Rightarrow> try_then (parse_ts ch s) (\<lambda>t. Inr (Some t)))"

definition derive_window :: "chrono \<Rightarrow> json \<Rightarrow> window_error + window" where
  "derive_window ch event =
     try_then (flow_start ch event) (\<lambda>fs.
       case fs of
         Some fstart \<Rightarrow>
           (if flow_typed event then
              try_then
                (case as_str (json_index (flow_object event) ''end'') of
                   Some fend \<Rightarrow> try_then (parse_ts ch fend) (\<lambda>e. checked_ts ch e one_sec)
                 | None \<Rightarrow> checked_ts ch fstart one_min)
                (\<lambda>e. try_then (checked_ts ch fstart (- one_sec)) (\<lambda>s. mk_window s e))
            else
              try_then (event_timestamp ch event) (\<lambda>ts.
                try_then (checked_ts ch fstart (- one_sec)) (\<lambda>s.
                try_then (checked_ts ch ts one_min) (\<lambda>e. mk_window s e))))
       | None \<Rightarrow>
           try_then (event_timestamp ch event) (\<lambda>ts.
             try_then (checked_ts ch ts (- one_min)) (\<lambda>s.
             try_then (checked_ts ch ts one_min) (\<lambda>e. mk_window s e))))"

definition window_from_start :: "chrono \<Rightarrow> int \<Rightarrow> int \<Rightarrow> window_error + window" where
  "window_from_start ch st duration =
     try_then (checked_ts ch st duration) (\<lambda>e. mk_window st e)"

definition window_around_event ::
    "chrono \<Rightarrow> json \<Rightarrow> int \<Rightarrow> int \<Rightarrow> window_error + window" where
  "window_around_event ch event before after =
     try_then (event_timestamp ch event) (\<lambda>center.
       try_then (checked_ts ch center (- before)) (\<lambda>s.
       try_then (checked_ts ch center after) (\<lambda>e. mk_window s e)))"

section \<open>Selectors\<close>

datatype selector_error =
    Missing_Field string
  | Bad_Address string
  | Mixed_Families
  | Unsupported_Protocol string
  | Invalid_Port string

definition normalize_proto :: "string \<Rightarrow> bool \<Rightarrow> selector_error + u8" where
  "normalize_proto proto v6 =
     (let proto = trim proto
      in case parse_unsigned 255 proto of
           Some n \<Rightarrow> Inr (of_nat n)
         | None \<Rightarrow>
             (let p = to_ascii_lowercase proto
              in if p = ''tcp'' then Inr 6
                 else if p = ''udp'' then Inr 17
                 else if p = ''sctp'' then Inr 132
                 else if p = ''gre'' then Inr 47
                 else if p = ''esp'' then Inr 50
                 else if p = ''ah'' then Inr 51
                 else if p = ''ipip'' then Inr 4
                 else if p = ''ipv6'' then Inr 41
                 else if p = ''icmp'' then Inr (if v6 then 58 else 1)
                 else if p = ''ipv6-icmp'' \<or> p = ''icmpv6'' then Inr 58
                 else Inl (Unsupported_Protocol proto)))"

definition PORT_PROTOCOLS :: "u8 list" where
  "PORT_PROTOCOLS = [6, 17, 132]"

definition event_port :: "json \<Rightarrow> string \<Rightarrow> selector_error + u16 option" where
  "event_port event field =
     (case json_get event field of
        None \<Rightarrow> Inr None
      | Some JNull \<Rightarrow> Inr None
      | Some v \<Rightarrow>
          (case as_u64 v of
             None \<Rightarrow> Inl (Invalid_Port field)
           | Some p \<Rightarrow>
               (if unat p < 65536 then Inr (Some (ucast p)) else Inl (Invalid_Port field))))"

definition selector_from_event ::
    "(string \<Rightarrow> ip_addr option) \<Rightarrow> json \<Rightarrow> selector_error + flow_selector" where
  "selector_from_event ip_parse event =
     try_then (ok_or (as_str (json_index event ''src_ip'')) (Missing_Field ''src_ip'')) (\<lambda>s.
     try_then (ok_or (ip_parse s) (Bad_Address s)) (\<lambda>src_ip.
     try_then (ok_or (as_str (json_index event ''dest_ip'')) (Missing_Field ''dest_ip'')) (\<lambda>d.
     try_then (ok_or (ip_parse d) (Bad_Address d)) (\<lambda>dest_ip.
     if is_ipv4 src_ip \<noteq> is_ipv4 dest_ip then Inl Mixed_Families
     else
       try_then (ok_or (as_str (json_index event ''proto'')) (Missing_Field ''proto'')) (\<lambda>p.
       try_then (normalize_proto p (is_ipv6 src_ip)) (\<lambda>proto.
       try_then
         (if proto \<in> set PORT_PROTOCOLS
          then try_then (event_port event ''src_port'') (\<lambda>sp.
                 try_then (event_port event ''dest_port'') (\<lambda>dp. Inr (sp, dp)))
          else Inr (None, None))
         (\<lambda>(sp, dp). Inr \<lparr>fs_proto = proto, fs_a = (src_ip, sp), fs_b = (dest_ip, dp)\<rparr>)))))))"

section \<open>Lemmas\<close>

lemma checked_ts_Inr [simp]:
  "checked_ts ch t d = Inr u \<longleftrightarrow> u = t + d \<and> ch_min ch \<le> u \<and> u \<le> ch_max ch"
  by (auto simp: checked_ts_def)

lemma mk_window_Inr [simp]:
  "mk_window s e = Inr w \<longleftrightarrow> s \<le> e \<and> w = \<lparr>w_start = s, w_end = e\<rparr>"
  by (auto simp: mk_window_def)

text \<open>Windows are never empty and stay in chrono's range.\<close>

definition window_ok :: "chrono \<Rightarrow> window \<Rightarrow> bool" where
  "window_ok ch w \<longleftrightarrow> w_start w \<le> w_end w \<and> ch_min ch \<le> w_start w \<and> w_end w \<le> ch_max ch"

lemma flow_start_Some:
  "flow_start ch event = Inr (Some t) \<Longrightarrow>
     \<exists>s. as_str (json_index (flow_object event) ''start'') = Some s \<and> parse_ts ch s = Inr t"
  by (auto simp: flow_start_def split: option.splits)

lemma parse_unsigned_255: "parse_unsigned 255 p = Some n \<Longrightarrow> n < 256"
  by (drule parse_unsigned_le) simp

text \<open>Lower case names are what they are.\<close>

lemma event_port_Inr_Some:
  "event_port event field = Inr (Some p) \<longleftrightarrow>
     (\<exists>i. json_get event field = Some (JInt i) \<and> 0 \<le> i \<and> i < 65536 \<and> p = word_of_int i)"
proof
  assume "event_port event field = Inr (Some p)"
  then obtain i q where "json_get event field = Some (JInt i)" "p = ucast q"
    and "try_from_int i = Some (q :: u64)" "unat q < 65536"
    by (auto simp: event_port_def split: option.splits json.splits if_splits)
  then have "i = uint q" "uint q < 65536"
    by (simp_all only: try_from_int_Some unat_eq_nat_uint nat_less_iff uint_ge_0 of_nat_numeral)
  then show "\<exists>i. json_get event field = Some (JInt i) \<and> 0 \<le> i \<and> i < 65536 \<and> p = word_of_int i"
    using \<open>json_get event field = Some (JInt i)\<close> \<open>p = ucast q\<close> by (metis ucast_eq uint_ge_0)
next
  assume "\<exists>i. json_get event field = Some (JInt i) \<and> 0 \<le> i \<and> i < 65536 \<and> p = word_of_int i"
  then obtain i where i: "json_get event field = Some (JInt i)" "0 \<le> i" "i < 65536" "p = word_of_int i"
    by blast
  then have "unat (word_of_int i :: u64) = nat i" "ucast (word_of_int i :: u64) = (word_of_int i :: u16)"
    by (simp_all add: unat_eq_nat_uint uint_word_of_int ucast_eq)
  then show "event_port event field = Inr (Some p)"
    using i by (simp add: event_port_def try_from_int_def)
qed

lemma ok_or_Inl [simp]: "ok_or r e = Inl e' \<longleftrightarrow> r = None \<and> e' = e"
  by (cases r) auto

lemma normalize_proto_keyword:
  "normalize_proto p v6 = Inr n \<Longrightarrow> to_ascii_lowercase (trim p) = ''tcp'' \<Longrightarrow>
     parse_unsigned 255 (trim p) = None \<Longrightarrow> n = 6"
  by (auto simp: normalize_proto_def)

section \<open>Properties\<close>

text \<open>The bounds a window is meant to have, given the start of the flow if there is one: a
  second before the flow, or a minute before an event without one; a second after the end of
  a flow record (a minute after its start when it has no end), or a minute after any other
  event.\<close>

definition end_bound :: "chrono \<Rightarrow> json \<Rightarrow> int option \<Rightarrow> int \<Rightarrow> bool" where
  "end_bound ch event fs e \<longleftrightarrow>
     (case (flow_typed event, fs) of
        (True, Some t) \<Rightarrow>
          (case as_str (json_index (flow_object event) ''end'') of
             Some x \<Rightarrow> parse_ts ch x = Inr (e - one_sec)
           | None \<Rightarrow> e = t + one_min)
      | _ \<Rightarrow> event_timestamp ch event = Inr (e - one_min))"

definition start_bound :: "chrono \<Rightarrow> json \<Rightarrow> int option \<Rightarrow> int \<Rightarrow> bool" where
  "start_bound ch event fs s \<longleftrightarrow>
     (case fs of Some t \<Rightarrow> s = t - one_sec
      | None \<Rightarrow> event_timestamp ch event = Inr (s + one_min))"

lemma eq_diff_Inr: "r = Inr (e - d) \<longleftrightarrow> (\<exists>u. r = Inr u \<and> e = u + (d :: int))"
  by (cases r) auto

lemma eq_plus_Inr: "r = Inr (e + d) \<longleftrightarrow> (\<exists>u. r = Inr u \<and> e = u - (d :: int))"
  by (cases r) auto

lemma spans_pos: "0 < one_sec" "0 < one_min"
  by (simp_all add: one_sec_def one_min_def)

lemma in_range_bounds:
  "s \<le> e \<Longrightarrow> ch_min ch \<le> s \<Longrightarrow> e \<le> ch_max ch \<Longrightarrow> s \<le> ch_max ch \<and> ch_min ch \<le> (e :: int)"
  by linarith

lemma derive_window_flow:
  assumes "flow_start ch event = Inr (Some t)" and "flow_typed event"
  shows "derive_window ch event = Inr w \<longleftrightarrow> window_ok ch w
    \<and> start_bound ch event (Some t) (w_start w) \<and> end_bound ch event (Some t) (w_end w)"
  using assms
  by (cases w) (auto simp: derive_window_def window_ok_def start_bound_def end_bound_def
      eq_diff_Inr split: option.splits)

lemma derive_window_other:
  assumes "flow_start ch event = Inr (Some t)" and "\<not> flow_typed event"
  shows "derive_window ch event = Inr w \<longleftrightarrow> window_ok ch w
    \<and> start_bound ch event (Some t) (w_start w) \<and> end_bound ch event (Some t) (w_end w)"
  using assms
  by (cases w) (auto simp: derive_window_def window_ok_def start_bound_def end_bound_def
      eq_diff_Inr)

lemma derive_window_none:
  assumes "flow_start ch event = Inr None"
  shows "derive_window ch event = Inr w \<longleftrightarrow> window_ok ch w
    \<and> start_bound ch event None (w_start w) \<and> end_bound ch event None (w_end w)"
  using assms
  by (cases w) (auto simp: derive_window_def window_ok_def start_bound_def end_bound_def
      eq_diff_Inr eq_plus_Inr split: bool.splits)

text \<open>Deriving a window succeeds exactly when the event's flow start is absent or parses
  and the two bounds that the event determines form a non-empty interval inside chrono's
  range, and the result is that interval: hostile timestamps near the range limits, an end
  before the start and unparseable timestamps give an error, never a window.\<close>

theorem derive_window_exact:
  "derive_window ch event = Inr w \<longleftrightarrow>
     (\<exists>fs. flow_start ch event = Inr fs \<and> window_ok ch w
        \<and> start_bound ch event fs (w_start w) \<and> end_bound ch event fs (w_end w))"
proof (cases "flow_start ch event")
  case (Inl e)
  then show ?thesis by (simp add: derive_window_def)
next
  case (Inr fs)
  then show ?thesis
    using derive_window_flow [of ch event _ w] derive_window_other [of ch event _ w]
      derive_window_none [of ch event w]
    by (cases fs; cases "flow_typed event") simp_all
qed

text \<open>Every selector built from an event has both addresses of one family, the addresses
  being those that the event's strings parse to, and carries ports only for TCP, UDP and
  SCTP, each exactly the port the event reports (a missing or null field is no port).\<close>

theorem selector_from_event_ok:
  assumes "selector_from_event ip_parse event = Inr s"
  shows "is_ipv4 (fst (fs_a s)) = is_ipv4 (fst (fs_b s))
    \<and> (\<exists>x y. json_index event ''src_ip'' = JStr x \<and> ip_parse x = Some (fst (fs_a s))
         \<and> json_index event ''dest_ip'' = JStr y \<and> ip_parse y = Some (fst (fs_b s)))
    \<and> (if fs_proto s \<in> {IPPROTO_TCP, IPPROTO_UDP, IPPROTO_SCTP}
       then event_port event ''src_port'' = Inr (snd (fs_a s))
         \<and> event_port event ''dest_port'' = Inr (snd (fs_b s))
       else snd (fs_a s) = None \<and> snd (fs_b s) = None)"
  using assms
  by (auto simp: selector_from_event_def PORT_PROTOCOLS_def ipproto_defs split: if_splits)

theorem selector_from_event_ok_witness:
  "let ipp = map_of [(''10.1.1.5'', IpV4 10 1 1 5), (''192.0.2.10'', IpV4 192 0 2 10)];
       event = JObj [(''proto'', JStr ''TCP''), (''src_ip'', JStr ''10.1.1.5''), (''src_port'', JInt 44212),
                     (''dest_ip'', JStr ''192.0.2.10''), (''dest_port'', JInt 443)];
       s = \<lparr>fs_proto = 6, fs_a = (IpV4 10 1 1 5, Some 44212), fs_b = (IpV4 192 0 2 10, Some 443)\<rparr>
   in selector_from_event ipp event = Inr s
      \<and> event_port event ''src_port'' = Inr (snd (fs_a s)) \<and> event_port event ''dest_port'' = Inr (snd (fs_b s))"
proof -
  define ipp where "ipp = map_of [(''10.1.1.5'', IpV4 10 1 1 5), (''192.0.2.10'', IpV4 192 0 2 10)]"
  define event where "event = JObj [(''proto'', JStr ''TCP''), (''src_ip'', JStr ''10.1.1.5''),
    (''src_port'', JInt 44212), (''dest_ip'', JStr ''192.0.2.10''), (''dest_port'', JInt 443)]"
  define s where "s = \<lparr>fs_proto = 6, fs_a = (IpV4 10 1 1 5, Some 44212),
    fs_b = (IpV4 192 0 2 10, Some (443 :: u16))\<rparr>"
  have "normalize_proto ''TCP'' False = Inr 6" by code_simp
  moreover have "event_port event ''src_port'' = Inr (Some 44212)"
    "event_port event ''dest_port'' = Inr (Some 443)"
    by (simp_all add: event_port_Inr_Some event_def)
  ultimately have "selector_from_event ipp event = Inr s"
    by (simp add: selector_from_event_def ipp_def s_def event_def PORT_PROTOCOLS_def is_ipv6_def)
  moreover from selector_from_event_ok [OF this]
  have "event_port event ''src_port'' = Inr (snd (fs_a s))" "event_port event ''dest_port'' = Inr (snd (fs_b s))"
    by (simp_all add: s_def ipproto_defs)
  ultimately show ?thesis by (simp add: Let_def ipp_def event_def s_def)
qed

end
