(* ===== verification/Pcap_Format.thy ===== *)
theory Pcap_Format
  imports Net_Addr "HOL-Library.Monad_Syntax"
begin

text \<open>
  Packet capture bytes (\<open>src/src/util/pcap.rs\<close> and \<open>src/src/pcap/writer.rs\<close>): the
  packet builders with their Internet checksums, the classic little-endian pcap file header
  and record, and the streaming writer with its lazily written header. Integers keep their
  width; the arithmetic on lengths is that of a release build, which wraps.
\<close>

section \<open>Byte buffers\<close>

definition put_u16 :: "u16 \<Rightarrow> u8 list" where
  "put_u16 w = [ucast (drop_bit 8 w), ucast w]"

definition put_u32 :: "u32 \<Rightarrow> u8 list" where
  "put_u32 w = [ucast (drop_bit 24 w), ucast (drop_bit 16 w), ucast (drop_bit 8 w), ucast w]"

definition put_u16_le :: "u16 \<Rightarrow> u8 list" where
  "put_u16_le w = rev (put_u16 w)"

definition put_u32_le :: "u32 \<Rightarrow> u8 list" where
  "put_u32_le w = rev (put_u32 w)"

definition get_u16 :: "u8 \<Rightarrow> u8 \<Rightarrow> u16" where
  "get_u16 hi lo = push_bit 8 (ucast hi) + ucast lo"

lemma put_u16_length [simp]: "length (put_u16 w) = 2"
  by (simp add: put_u16_def)

lemma put_u32_length [simp]: "length (put_u32 w) = 4"
  by (simp add: put_u32_def)

lemma put_le_length [simp]: "length (put_u16_le v) = 2" "length (put_u32_le w) = 4"
  by (simp_all add: put_u16_le_def put_u32_le_def)

section \<open>Packet builders\<close>

definition MAGIC :: u32 where "MAGIC = 0xa1b2c3d4"
definition VERSION_MAJOR :: u16 where "VERSION_MAJOR = 2"
definition VERSION_MINOR :: u16 where "VERSION_MINOR = 4"
definition FILE_HEADER_LEN :: nat where "FILE_HEADER_LEN = 24"
definition PCAP_RECORD_HEADER_SIZE :: nat where "PCAP_RECORD_HEADER_SIZE = 16"

datatype link_type = Ethernet | Raw

fun link_type_u32 :: "link_type \<Rightarrow> u32" where
  "link_type_u32 Ethernet = 1"
| "link_type_u32 Raw = 101"

datatype protocol = Tcp | Udp

text \<open>\<open>to_lowercase\<close> maps no non-ASCII letter to a letter of \<open>tcp\<close> or \<open>udp\<close>, so the ASCII
  case mapping decides the match.\<close>

definition protocol_from_name :: "string \<Rightarrow> protocol option" where
  "protocol_from_name proto =
     (let p = to_ascii_lowercase proto
      in if p = ''tcp'' then Some Tcp else if p = ''udp'' then Some Udp else None)"

fun protocol_u8 :: "protocol \<Rightarrow> u8" where
  "protocol_u8 Tcp = 6"
| "protocol_u8 Udp = 17"

definition udp_build :: "u16 \<Rightarrow> u16 \<Rightarrow> u8 list \<Rightarrow> u8 list" where
  "udp_build sport dport payload =
     put_u16 sport @ put_u16 dport @ put_u16 (8 + of_nat (length payload)) @ put_u16 0 @ payload"

definition tcp_build :: "u16 \<Rightarrow> u16 \<Rightarrow> u8 list \<Rightarrow> u8 list" where
  "tcp_build sport dport payload =
     put_u16 sport @ put_u16 dport @ put_u32 0 @ put_u32 0 @ put_u16 (push_bit 12 5)
     @ put_u16 1024 @ put_u16 0 @ put_u16 0 @ payload"

record ip4_builder =
  ib_source :: "u8 list"
  ib_dest :: "u8 list"
  ib_protocol :: protocol
  ib_ttl :: u8
  ib_payload :: "u8 list"

definition ip4_new :: ip4_builder where
  "ip4_new = \<lparr>ib_source = [0, 0, 0, 0], ib_dest = [0, 0, 0, 0], ib_protocol = Udp,
     ib_ttl = 255, ib_payload = []\<rparr>"

text \<open>One round of the checksum accumulator: add, and fold the carry back in.\<close>

definition csum_add :: "u32 \<Rightarrow> u32 \<Rightarrow> u32" where
  "csum_add result x = (let r = result + x in if r > 0xffff then r - 0xffff else r)"

text \<open>The read loop: 16-bit big-endian words, a trailing odd byte counting as the high one.\<close>

fun csum_loop :: "u32 \<Rightarrow> u8 list \<Rightarrow> u32" where
  "csum_loop result [] = result"
| "csum_loop result [b] = csum_add result (push_bit 8 (ucast b))"
| "csum_loop result (a # b # rest) = csum_loop (csum_add result (ucast (get_u16 a b))) rest"

definition ip_checksum :: "u8 list \<Rightarrow> u16" where
  "ip_checksum input = ucast (not (csum_loop 0xffff (take 20 input)))"

definition pseudo_header :: "u8 list \<Rightarrow> protocol \<Rightarrow> u8 list" where
  "pseudo_header input proto =
     take 8 (drop 12 input) @ [0, protocol_u8 proto] @ put_u16 (of_nat (length input) - 20)"

definition tcpudp_checksum :: "u8 list \<Rightarrow> protocol \<Rightarrow> u16" where
  "tcpudp_checksum input proto =
     ucast (not (csum_loop (csum_loop 0xffff (pseudo_header input proto)) (drop 20 input)))"

text \<open>Writing a checksum at an offset; the index panics (\<open>None\<close>) past the end.\<close>

definition put_csum :: "nat \<Rightarrow> u16 \<Rightarrow> u8 list \<Rightarrow> u8 list option" where
  "put_csum i csum out =
     (if i + 1 < length out
      then Some (out[i := ucast (drop_bit 8 csum), i + 1 := ucast csum]) else None)"

definition ip4_header :: "ip4_builder \<Rightarrow> u8 list" where
  "ip4_header b =
     put_u16 0x4500 @ put_u16 (20 + of_nat (length (ib_payload b))) @ put_u32 0
     @ [ib_ttl b] @ [protocol_u8 (ib_protocol b)] @ put_u16 0 @ ib_source b @ ib_dest b"

definition ip4_build :: "ip4_builder \<Rightarrow> u8 list option" where
  "ip4_build b =
     (let out = ip4_header b @ ib_payload b
      in case put_csum 10 (ip_checksum out) out of
           None \<Rightarrow> None
         | Some out \<Rightarrow>
             (case ib_protocol b of
                Udp \<Rightarrow> put_csum 26 (tcpudp_checksum out Udp) out
              | Tcp \<Rightarrow> put_csum 36 (tcpudp_checksum out Tcp) out))"

section \<open>File header and records\<close>

definition create_header_with_snaplen :: "u32 \<Rightarrow> u32 \<Rightarrow> u8 list" where
  "create_header_with_snaplen linktype snaplen =
     put_u32_le MAGIC @ put_u16_le VERSION_MAJOR @ put_u16_le VERSION_MINOR
     @ put_u32_le 0 @ put_u32_le 0 @ put_u32_le snaplen @ put_u32_le linktype"

definition create_header :: "u32 \<Rightarrow> u8 list" where
  "create_header linktype = create_header_with_snaplen linktype 0xFFFFFFFF"

definition create_record_raw :: "u32 \<Rightarrow> u32 \<Rightarrow> u32 \<Rightarrow> u8 list \<Rightarrow> u8 list" where
  "create_record_raw ts_sec ts_usec orig_len data =
     put_u32_le ts_sec @ put_u32_le ts_usec @ put_u32_le (of_nat (length data))
     @ put_u32_le orig_len @ data"

text \<open>A timestamp here is what the code reads of it: whole seconds and the microsecond part.\<close>

definition create_record :: "int \<times> int \<Rightarrow> u8 list \<Rightarrow> u8 list" where
  "create_record ts packet =
     create_record_raw (word_of_int (fst ts)) (word_of_int (snd ts))
       (of_nat (length packet)) packet"

definition create_pcap :: "u32 \<Rightarrow> int \<times> int \<Rightarrow> u8 list \<Rightarrow> u8 list" where
  "create_pcap linktype ts packet = create_header linktype @ create_record ts packet"

section \<open>Lemmas: checksums\<close>

text \<open>The ones' complement sum, as a number: the words summed without folding.\<close>

fun words_val :: "u8 list \<Rightarrow> nat" where
  "words_val [] = 0"
| "words_val [b] = 256 * unat b"
| "words_val (a # b # rest) = 256 * unat a + unat b + words_val rest"

definition csum_range :: "u32 \<Rightarrow> bool" where
  "csum_range r \<longleftrightarrow> 0 < unat r \<and> unat r \<le> 65535"

lemma unat_u32_add: "unat (a :: u32) + unat b < 2 ^ 32 \<Longrightarrow> unat (a + b) = unat a + unat b"
  by (simp add: unat_word_ariths)

lemma csum_add_step:
  assumes r: "csum_range r" and x: "unat x \<le> 65535"
  shows "csum_range (csum_add r x)"
    and "unat (csum_add r x) mod 65535 = (unat r + unat x) mod 65535"
proof -
  have s: "unat (r + x) = unat r + unat x"
    using r x by (intro unat_u32_add) (simp add: csum_range_def)
  have gt: "r + x > 0xffff \<longleftrightarrow> 65535 < unat r + unat x"
    using s by (simp add: word_less_nat_alt)
  have "unat (csum_add r x) =
    (if 65535 < unat r + unat x then unat r + unat x - 65535 else unat r + unat x)"
    using gt s by (auto simp: csum_add_def Let_def unat_sub_if_size word_le_nat_alt)
  then show "csum_range (csum_add r x)"
      "unat (csum_add r x) mod 65535 = (unat r + unat x) mod 65535"
    using r x by (auto simp: csum_range_def le_mod_geq mod_if [of "unat r + unat x"])
qed

lemma unat_ucasts [simp]:
  "unat (ucast (b :: u8) :: u16) = unat b" "unat (ucast (b :: u8) :: u32) = unat b"
  "unat (ucast (w :: u16) :: u32) = unat w"
  by (simp_all add: unat_ucast_up)

lemma shifted_byte [simp]:
  "unat (push_bit 8 (ucast (b :: u8)) :: u16) = 256 * unat b"
  "unat (push_bit 8 (ucast (b :: u8)) :: u32) = 256 * unat b"
proof -
  have "256 * unat b < 65536" using unat_less_u8 [of b] by linarith
  then have "unat b * 256 < 65536" "unat b * 256 < 4294967296" by linarith+
  then have "(unat b * 256) mod 65536 = 256 * unat b" "(unat b * 256) mod 4294967296 = 256 * unat b"
    by (simp_all only: mod_less mult.commute)
  then show "unat (push_bit 8 (ucast b) :: u16) = 256 * unat b"
    "unat (push_bit 8 (ucast b) :: u32) = 256 * unat b"
    by (simp_all add: push_bit_eq_mult unat_word_ariths)
qed

lemma unat_get_u16: "unat (get_u16 a b) = 256 * unat a + unat b"
proof -
  have "256 * unat a + unat b < 65536" using unat_less_u8 [of a] unat_less_u8 [of b] by linarith
  then show ?thesis
    unfolding get_u16_def unat_word_ariths shifted_byte unat_ucasts by simp
qed

lemma csum_loop_mod:
  "csum_range r \<Longrightarrow> csum_range (csum_loop r xs) \<and>
     unat (csum_loop r xs) mod 65535 = (unat r + words_val xs) mod 65535"
proof (induction r xs rule: csum_loop.induct)
  case (1 r)
  then show ?case by simp
next
  case (2 r b)
  have le: "unat (push_bit 8 (ucast b) :: u32) \<le> 65535"
    unfolding shifted_byte using unat_less_u8 [of b] by linarith
  show ?case
    using csum_add_step [OF 2 le] unfolding shifted_byte by simp
next
  case (3 r a b rest)
  have le: "unat (ucast (get_u16 a b) :: u32) \<le> 65535"
    using unat_less_u16 [of "get_u16 a b"] by (simp only: unat_ucasts)
  note step = csum_add_step [OF "3.prems" le]
  have "unat (csum_add r (ucast (get_u16 a b))) mod 65535
      = (unat r + (256 * unat a + unat b)) mod 65535"
    using step(2) unfolding unat_ucasts unat_get_u16 .
  then have "(unat (csum_add r (ucast (get_u16 a b))) + words_val rest) mod 65535
      = (unat r + (256 * unat a + unat b) + words_val rest) mod 65535"
    by (rule mod_add_cong) (rule refl)
  then show ?case using "3.IH" [OF step(1)] by (simp add: add.assoc)
qed

text \<open>A sum in range that is a multiple of \<open>0xffff\<close> is \<open>0xffff\<close>: the checksum verifies.\<close>

definition sums_to_ffff :: "u8 list \<Rightarrow> bool" where
  "sums_to_ffff xs \<longleftrightarrow> csum_loop 0xffff xs = 0xffff"

lemma csum_range_ffff [simp]: "csum_range 0xffff"
  by (simp add: csum_range_def)

lemma csum_ffff_iff:
  assumes "csum_range r"
  shows "r = 0xffff \<longleftrightarrow> unat r mod 65535 = 0"
proof -
  have "unat r mod 65535 = 0 \<longleftrightarrow> unat r = 65535"
    using assms unfolding csum_range_def
    by (metis le_neq_implies_less less_numeral_extra(3) mod_less mod_self)
  then show ?thesis by (simp add: word_unat_eq_iff)
qed

lemma unat_not_csum:
  assumes "csum_range r"
  shows "unat (ucast (not r) :: u16) = 65535 - unat r"
proof -
  have "not r = - 1 - r" by (simp add: not_eq_complement)
  then have "unat (not r) = unat (- 1 :: u32) - unat r"
    by (metis unat_sub word_order.extremum)
  then have "unat (not r) = 2 ^ 32 - 1 - unat r"
    unfolding unat_minus_one_max by simp
  then have "unat (ucast (not r) :: u16) = (2 ^ 32 - 1 - unat r) mod 65536"
    by (simp add: unsigned_ucast_eq take_bit_eq_mod)
  also have "2 ^ 32 - 1 - unat r = (65535 - unat r) + 65535 * 65536"
    using assms by (simp add: csum_range_def)
  also have "\<dots> mod 65536 = 65535 - unat r"
    unfolding mod_mult_self1 by simp
  finally show ?thesis .
qed

text \<open>Storing a big-endian word over two zero bytes at an even offset adds the word.\<close>

lemma words_val_update:
  "even i \<Longrightarrow> i + 1 < length xs \<Longrightarrow> xs ! i = 0 \<Longrightarrow> xs ! (i + 1) = 0 \<Longrightarrow>
     words_val (xs[i := a, i + 1 := b]) = words_val xs + 256 * unat a + unat b"
proof (induction xs arbitrary: i rule: words_val.induct)
  case (3 x y rest)
  show ?case
  proof (cases "i = 0")
    case True
    then show ?thesis using "3.prems" by simp
  next
    case False
    then obtain j where j: "i = Suc (Suc j)" and "even j"
      using "3.prems"(1) by (metis even_Suc not0_implies_Suc odd_Suc_minus_one dvd_0_right)
    then show ?thesis using "3.IH" [of j] "3.prems" by simp
  qed
qed auto

lemma words_val_append:
  "even (length xs) \<Longrightarrow> words_val (xs @ ys) = words_val xs + words_val ys"
  by (induction xs rule: words_val.induct) auto

lemma unat_bytes_of_u16:
  "256 * unat (ucast (drop_bit 8 (w :: u16)) :: u8) + unat (ucast w :: u8) = unat w"
proof -
  have "unat w div 256 < 256" using unat_less_u16 [of w] by (simp add: less_mult_imp_div_less)
  then have "unat (ucast (drop_bit 8 w) :: u8) = unat w div 256"
    by (simp add: unsigned_ucast_eq unsigned_drop_bit_eq drop_bit_eq_div take_bit_eq_mod unat_div)
  moreover have "unat (ucast w :: u8) = unat w mod 256"
    by (simp add: unsigned_ucast_eq take_bit_eq_mod)
  ultimately show ?thesis by simp
qed

text \<open>The checksum over words that sum to \<open>n\<close>, stored, makes the sum verify.\<close>

lemma stored_csum_verifies:
  assumes r: "csum_range r" and val: "unat r mod 65535 = words_val xs mod 65535"
    and upd: "words_val ys = words_val xs + unat (ucast (not r) :: u16)"
  shows "sums_to_ffff ys"
proof -
  have le: "unat r \<le> 65535" using r by (simp add: csum_range_def)
  have "words_val ys mod 65535 = (unat r + (65535 - unat r)) mod 65535"
    unfolding upd unat_not_csum [OF r] using val by (metis mod_add_left_eq)
  then have "words_val ys mod 65535 = 0" using le by simp
  then have "(unat (0xffff :: u32) + words_val ys) mod 65535 = 0" by simp
  then show ?thesis
    using csum_loop_mod [OF csum_range_ffff, of ys] csum_ffff_iff
    unfolding sums_to_ffff_def by metis
qed

lemma csum_loop_ffff:
  "csum_range (csum_loop 0xffff xs)"
  "unat (csum_loop 0xffff xs) mod 65535 = words_val xs mod 65535"
  using csum_loop_mod [OF csum_range_ffff, of xs] by simp_all

lemma csum_loop_append:
  "even (length xs) \<Longrightarrow> csum_loop r (xs @ ys) = csum_loop (csum_loop r xs) ys"
  by (induction r xs rule: csum_loop.induct) auto

section \<open>Lemmas: built packets\<close>

definition segment :: "protocol \<Rightarrow> u16 \<Rightarrow> u16 \<Rightarrow> u8 list \<Rightarrow> u8 list" where
  "segment p sport dport data =
     (case p of Udp \<Rightarrow> udp_build sport dport data | Tcp \<Rightarrow> tcp_build sport dport data)"

text \<open>Where the checksum of a segment is, from the start of the segment.\<close>

fun csum_offset :: "protocol \<Rightarrow> nat" where
  "csum_offset Udp = 6"
| "csum_offset Tcp = 16"

lemma ip4_build_alt:
  "ip4_build b =
     (let out = ip4_header b @ ib_payload b
      in case put_csum 10 (ip_checksum out) out of
           None \<Rightarrow> None
         | Some out \<Rightarrow> put_csum (20 + csum_offset (ib_protocol b))
             (tcpudp_checksum out (ib_protocol b)) out)"
  by (cases "ib_protocol b") (simp_all add: ip4_build_def Let_def split: option.split)

lemma put_u16_0 [simp]: "put_u16 0 = [0, 0]"
  by (simp add: put_u16_def)

lemma ip4_header_shape:
  assumes "length (ib_source b) = 4" and "length (ib_dest b) = 4"
  shows "length (ip4_header b) = 20" and "ip4_header b ! 10 = 0" and "ip4_header b ! 11 = 0"
  using assms by (simp_all add: ip4_header_def put_u16_def put_u32_def nth_append)

lemma segment_shape:
  "csum_offset p + 1 < length (segment p sport dport data)"
  "segment p sport dport data ! csum_offset p = 0"
  "segment p sport dport data ! (csum_offset p + 1) = 0"
  by (cases p; simp add: segment_def udp_build_def tcp_build_def put_u16_def put_u32_def)+

lemma csum_offset_even: "even (csum_offset p)"
  by (cases p) auto

lemma put_csum_Some:
  "i + 1 < length out \<Longrightarrow>
     put_csum i c out = Some (out[i := ucast (drop_bit 8 c), i + 1 := ucast c])"
  by (simp add: put_csum_def)

text \<open>A checksum over all of a byte list, stored at an even offset where it was zero.\<close>

lemma stored_csum_in_place:
  assumes "even i" "i + 1 < length xs" "xs ! i = 0" "xs ! (i + 1) = 0"
    and c: "(c :: u16) = ucast (not (csum_loop 0xffff (pre @ xs)))" and "even (length pre)"
  shows "sums_to_ffff (pre @ xs[i := ucast (drop_bit 8 c), i + 1 := ucast c])"
proof (rule stored_csum_verifies)
  let ?r = "csum_loop 0xffff (pre @ xs)"
  show "csum_range ?r" "unat ?r mod 65535 = words_val (pre @ xs) mod 65535"
    by (rule csum_loop_ffff)+
  show "words_val (pre @ xs[i := ucast (drop_bit 8 c), i + 1 := ucast c])
      = words_val (pre @ xs) + unat (ucast (not ?r) :: u16)"
    unfolding words_val_append [OF assms(6)] words_val_update [OF assms(1-4)] c [symmetric]
    using unat_bytes_of_u16 [of c] by linarith
qed

lemma pseudo_header_length: "20 \<le> length out \<Longrightarrow> length (pseudo_header out p) = 12"
  by (simp add: pseudo_header_def)

lemma pseudo_header_update:
  "20 \<le> i \<Longrightarrow> pseudo_header (out[i := x]) p = pseudo_header out p"
  by (simp add: pseudo_header_def drop_update_swap)

lemma tcpudp_checksum_alt:
  "20 \<le> length out \<Longrightarrow>
     tcpudp_checksum out p = ucast (not (csum_loop 0xffff (pseudo_header out p @ drop 20 out)))"
  by (simp add: tcpudp_checksum_def csum_loop_append pseudo_header_length)

lemma ip4_build_result:
  assumes src: "length (ib_source b) = 4" and dst: "length (ib_dest b) = 4"
    and pay: "ib_payload b = segment (ib_protocol b) sport dport data"
  shows "\<exists>out. ip4_build b = Some out \<and> length out = 20 + length (ib_payload b)
    \<and> sums_to_ffff (take 20 out)
    \<and> sums_to_ffff (pseudo_header out (ib_protocol b) @ drop 20 out)"
proof -
  let ?p = "ib_protocol b" and ?i = "csum_offset (ib_protocol b)"
  define out where "out = ip4_header b @ ib_payload b"
  note hdr = ip4_header_shape [OF src dst]
  note seg = segment_shape [of ?p sport dport data, folded pay]
  define c1 where "c1 = ip_checksum out"
  define out1 where "out1 = out[10 := ucast (drop_bit 8 c1), 10 + 1 := ucast c1]"
  define c2 where "c2 = tcpudp_checksum out1 ?p"
  define out2 where "out2 = out1[20 + ?i := ucast (drop_bit 8 c2), 20 + ?i + 1 := ucast c2]"
  have len: "length out = 20 + length (ib_payload b)" using hdr by (simp add: out_def)
  have len1: "length out1 = length out" by (simp add: out1_def)
  have t20: "take 20 out = ip4_header b" "drop 20 out = ib_payload b"
    using hdr by (simp_all add: out_def)
  have p1: "put_csum 10 c1 out = Some out1"
    unfolding out1_def using len by (intro put_csum_Some) simp
  have p2: "put_csum (20 + ?i) c2 out1 = Some out2"
    unfolding out2_def using len len1 seg(1) by (intro put_csum_Some) simp
  have d1: "drop 20 out1 = ib_payload b"
    using t20 by (simp add: out1_def)
  have "sums_to_ffff ([] @ (ip4_header b)[10 := ucast (drop_bit 8 c1), 10 + 1 := ucast c1])"
    by (rule stored_csum_in_place)
      (use hdr t20 in \<open>simp_all add: c1_def ip_checksum_def\<close>)
  moreover have "take 20 out2 = (ip4_header b)[10 := ucast (drop_bit 8 c1), 10 + 1 := ucast c1]"
    using t20 hdr by (simp add: out2_def out1_def take_update_swap list_update_beyond)
  ultimately have s1: "sums_to_ffff (take 20 out2)" by simp
  have ps: "pseudo_header out2 ?p = pseudo_header out1 ?p"
    by (simp add: out2_def pseudo_header_update)
  have "sums_to_ffff (pseudo_header out1 ?p
      @ (ib_payload b)[?i := ucast (drop_bit 8 c2), ?i + 1 := ucast c2])"
  proof (rule stored_csum_in_place [OF csum_offset_even seg])
    show "c2 = ucast (not (csum_loop 0xffff (pseudo_header out1 ?p @ ib_payload b)))"
      using len len1 d1 by (simp add: c2_def tcpudp_checksum_alt)
    show "even (length (pseudo_header out1 ?p))"
      using len len1 by (simp add: pseudo_header_length)
  qed
  moreover have "drop 20 out2 = (ib_payload b)[?i := ucast (drop_bit 8 c2), ?i + 1 := ucast c2]"
    using d1 by (simp add: out2_def drop_update_swap)
  ultimately have s2: "sums_to_ffff (pseudo_header out2 ?p @ drop 20 out2)"
    unfolding ps by simp
  have "ip4_build b = Some out2"
    using p1 p2 by (simp add: ip4_build_alt Let_def out_def [symmetric] c1_def [symmetric]
        c2_def [symmetric])
  moreover have "length out2 = 20 + length (ib_payload b)" using len len1 by (simp add: out2_def)
  ultimately show ?thesis using s1 s2 by blast
qed

section \<open>Reading the stream back, the specification side\<close>

text \<open>A reader of the classic little-endian format: the inverse of the writing functions.\<close>

fun read_u32_le :: "u8 list \<Rightarrow> (u32 \<times> u8 list) option" where
  "read_u32_le (a # b # c # d # rest) =
     Some (of_nat (unat a + 256 * (unat b + 256 * (unat c + 256 * unat d))), rest)"
| "read_u32_le _ = None"

record pcap_record =
  pr_sec :: u32
  pr_usec :: u32
  pr_orig_len :: u32
  pr_data :: "u8 list"

definition encode_record :: "pcap_record \<Rightarrow> u8 list" where
  "encode_record r = create_record_raw (pr_sec r) (pr_usec r) (pr_orig_len r) (pr_data r)"

definition read_record :: "u8 list \<Rightarrow> (pcap_record \<times> u8 list) option" where
  "read_record bs =
     do {
       (sec, bs) \<leftarrow> read_u32_le bs;
       (usec, bs) \<leftarrow> read_u32_le bs;
       (incl, bs) \<leftarrow> read_u32_le bs;
       (orig, bs) \<leftarrow> read_u32_le bs;
       if unat incl \<le> length bs
       then Some (\<lparr>pr_sec = sec, pr_usec = usec, pr_orig_len = orig,
                   pr_data = take (unat incl) bs\<rparr>, drop (unat incl) bs)
       else None
     }"

function read_records :: "u8 list \<Rightarrow> pcap_record list option" where
  "read_records bs =
     (if bs = [] then Some []
      else case read_record bs of
             None \<Rightarrow> None
           | Some (r, rest) \<Rightarrow>
               (if length rest < length bs then map_option ((#) r) (read_records rest) else None))"
  by pat_completeness auto
termination
  by (relation "measure length") auto

declare read_records.simps [simp del]

text \<open>The file header: the link type and snap length, after the fixed magic and version.\<close>

definition read_pcap :: "u8 list \<Rightarrow> (u32 \<times> u32 \<times> pcap_record list) option" where
  "read_pcap bs =
     do {
       (magic, bs) \<leftarrow> read_u32_le bs;
       (version, bs) \<leftarrow> read_u32_le bs;
       (zone, bs) \<leftarrow> read_u32_le bs;
       (sigfigs, bs) \<leftarrow> read_u32_le bs;
       (snaplen, bs) \<leftarrow> read_u32_le bs;
       (linktype, bs) \<leftarrow> read_u32_le bs;
       rs \<leftarrow> read_records bs;
       if magic = 0xa1b2c3d4 \<and> version = 0x00040002 then Some (linktype, snaplen, rs) else None
     }"

lemma base256_digits:
  "n < 4294967296 \<Longrightarrow>
     n mod 256 + 256 * (n div 256 mod 256 + 256 * (n div 65536 mod 256 + 256 * (n div 16777216 mod 256)))
       = (n :: nat)"
proof -
  assume "n < 4294967296"
  then have d: "n div 16777216 mod 256 = n div 16777216"
    by (intro mod_less) (simp add: less_mult_imp_div_less)
  have "n div 65536 = n div 65536 mod 256 + 256 * (n div 16777216)"
    using mod_mult_div_eq [of "n div 65536" 256] by (simp flip: div_mult2_eq)
  moreover have "n div 256 = n div 256 mod 256 + 256 * (n div 65536)"
    using mod_mult_div_eq [of "n div 256" 256] by (simp flip: div_mult2_eq)
  moreover have "n = n mod 256 + 256 * (n div 256)" by simp
  ultimately show ?thesis unfolding d by simp
qed

lemma unat_byte_at: "unat (ucast (drop_bit k (w :: u32)) :: u8) = unat w div 2 ^ k mod 256"
proof -
  have "unat w < 2 ^ LENGTH(32)" by (rule unsigned_less)
  then show ?thesis
    unfolding unsigned_ucast_eq unsigned_drop_bit_eq
    by (simp add: drop_bit_eq_div take_bit_eq_mod)
qed

lemma read_u32_le_put [simp]: "read_u32_le (put_u32_le w @ rest) = Some (w, rest)"
proof -
  have "unat w < 2 ^ LENGTH(32)" by (rule unsigned_less)
  then have "unat w < 4294967296" by simp
  then show ?thesis
    using base256_digits [of "unat w"] unat_byte_at [of 0 w] unat_byte_at [of 8 w]
      unat_byte_at [of 16 w] unat_byte_at [of 24 w]
    by (simp add: put_u32_le_def put_u32_def word_unat_eq_iff)
qed

lemma read_record_encode:
  "length (pr_data r) < 2 ^ 32 \<Longrightarrow> read_record (encode_record r @ rest) = Some (r, rest)"
  by (simp add: read_record_def encode_record_def create_record_raw_def unat_of_nat take_bit_nat_eq_self)

lemma encode_record_length: "length (encode_record r) = 16 + length (pr_data r)"
  by (simp add: encode_record_def create_record_raw_def)

lemma read_records_encode:
  "list_all (\<lambda>r. length (pr_data r) < 2 ^ 32) rs \<Longrightarrow>
     read_records (concat (map encode_record rs)) = Some rs"
proof (induction rs)
  case Nil
  then show ?case by (simp add: read_records.simps)
next
  case (Cons r rs)
  have "encode_record r @ concat (map encode_record rs) \<noteq> []"
    using encode_record_length [of r] by (metis append_is_Nil_conv length_0_conv add_is_0 zero_neq_numeral)
  then show ?case
    using Cons by (simp add: read_records.simps [of "encode_record r @ _"] read_record_encode
        encode_record_length)
qed

lemma header_words:
  "create_header_with_snaplen lt sn =
     put_u32_le MAGIC @ put_u32_le 0x00040002 @ put_u32_le 0 @ put_u32_le 0 @ put_u32_le sn @ put_u32_le lt"
proof -
  have "put_u16_le VERSION_MAJOR @ put_u16_le VERSION_MINOR = put_u32_le 0x00040002"
    by (simp add: put_u16_le_def put_u16_def put_u32_le_def put_u32_def VERSION_MAJOR_def
        VERSION_MINOR_def)
  then show ?thesis by (simp add: create_header_with_snaplen_def flip: append_assoc)
qed

lemma read_pcap_encode:
  "list_all (\<lambda>r. length (pr_data r) < 2 ^ 32) rs \<Longrightarrow>
     read_pcap (create_header lt @ concat (map encode_record rs)) = Some (lt, 0xFFFFFFFF, rs)"
  by (simp add: read_pcap_def create_header_def header_words read_records_encode MAGIC_def)

section \<open>The streaming writer\<close>

text \<open>The sink is what it has accepted. A write that fails (the \<open>Inl\<close> of \<open>sink_error\<close>,
  which may depend on what was accepted before) ends the fetch, so its state is not kept.\<close>

type_synonym sink_error = "u8 list \<Rightarrow> u8 list \<Rightarrow> string option"

record pcap_writer =
  pw_out :: "u8 list"
  pw_bytes :: u64
  pw_header_written :: bool

definition writer_new :: pcap_writer where
  "writer_new = \<lparr>pw_out = [], pw_bytes = 0, pw_header_written = False\<rparr>"

definition bytes_written :: "pcap_writer \<Rightarrow> u64" where
  "bytes_written w = pw_bytes w"

definition next_write_size :: "pcap_writer \<Rightarrow> nat \<Rightarrow> u64" where
  "next_write_size w data_len =
     of_nat (PCAP_RECORD_HEADER_SIZE + data_len)
     + (if pw_header_written w then 0 else of_nat FILE_HEADER_LEN)"

definition write_all :: "sink_error \<Rightarrow> u8 list \<Rightarrow> pcap_writer \<Rightarrow> string + pcap_writer" where
  "write_all fails chunk w =
     (case fails (pw_out w) chunk of
        Some e \<Rightarrow> Inl e
      | None \<Rightarrow> Inr (w\<lparr>pw_out := pw_out w @ chunk, pw_bytes := pw_bytes w + of_nat (length chunk)\<rparr>))"

text \<open>A packet as libpcap hands it over: the header's timestamp fields (signed), captured and
  original length, and the data.\<close>

record packet =
  pk_sec :: int
  pk_usec :: int
  pk_caplen :: u32
  pk_len :: u32
  pk_data :: "u8 list"

definition write_packet ::
    "sink_error \<Rightarrow> u32 \<Rightarrow> packet \<Rightarrow> pcap_writer \<Rightarrow> string + pcap_writer" where
  "write_packet fails linktype pkt w =
     try_then
       (if pw_header_written w then Inr w
        else try_then (write_all fails (create_header linktype) w)
               (\<lambda>w. Inr (w\<lparr>pw_header_written := True\<rparr>)))
       (write_all fails
          (create_record_raw (word_of_int (pk_sec pkt)) (word_of_int (pk_usec pkt))
             (pk_len pkt) (pk_data pkt)))"

section \<open>Lemmas: the writer\<close>

definition record_of :: "packet \<Rightarrow> pcap_record" where
  "record_of pkt = \<lparr>pr_sec = word_of_int (pk_sec pkt), pr_usec = word_of_int (pk_usec pkt),
     pr_orig_len = pk_len pkt, pr_data = pk_data pkt\<rparr>"

definition header_due :: "u32 \<Rightarrow> pcap_writer \<Rightarrow> u8 list" where
  "header_due linktype w = (if pw_header_written w then [] else create_header linktype)"

lemma create_header_length [simp]: "length (create_header lt) = 24"
  by (simp add: create_header_def create_header_with_snaplen_def)

lemma create_record_raw_length: "length (create_record_raw a b c d) = 16 + length d"
  by (simp add: create_record_raw_def)

text \<open>What a successful write leaves: the bytes appended, the count advanced by exactly what
  \<open>next_write_size\<close> had announced, the header marked as written.\<close>

lemma write_packet_ok:
  assumes "write_packet fails lt pkt w = Inr w'"
  shows "pw_out w' = pw_out w @ header_due lt w @ encode_record (record_of pkt)"
    and "pw_bytes w' = pw_bytes w + next_write_size w (length (pk_data pkt))"
    and "pw_header_written w'"
  using assms
  by (auto simp: write_packet_def write_all_def header_due_def encode_record_def record_of_def
      next_write_size_def create_record_raw_length PCAP_RECORD_HEADER_SIZE_def FILE_HEADER_LEN_def
      split: option.splits if_splits)

text \<open>The invariant of the writer: the count is the number of bytes in the sink, and the
  sink is empty until the header is written.\<close>

definition writer_ok :: "pcap_writer \<Rightarrow> bool" where
  "writer_ok w \<longleftrightarrow> pw_bytes w = of_nat (length (pw_out w)) \<and> (pw_header_written w \<longleftrightarrow> pw_out w \<noteq> [])"

lemma writer_ok_new: "writer_ok writer_new"
  by (simp add: writer_ok_def writer_new_def)

lemma next_write_size_length:
  "next_write_size w (length (pk_data pkt)) = of_nat (length (header_due lt w @ encode_record (record_of pkt)))"
  by (simp add: next_write_size_def header_due_def encode_record_length record_of_def
      PCAP_RECORD_HEADER_SIZE_def FILE_HEADER_LEN_def)

lemma writer_ok_write:
  "writer_ok w \<Longrightarrow> write_packet fails lt pkt w = Inr w' \<Longrightarrow> writer_ok w'"
  using write_packet_ok [of fails lt pkt w w'] encode_record_length [of "record_of pkt"]
    next_write_size_length [of w pkt lt]
  by (auto simp: writer_ok_def)

fun write_packets :: "sink_error \<Rightarrow> u32 \<Rightarrow> packet list \<Rightarrow> pcap_writer \<Rightarrow> string + pcap_writer" where
  "write_packets fails lt [] w = Inr w"
| "write_packets fails lt (p # ps) w = try_then (write_packet fails lt p w) (write_packets fails lt ps)"

lemma write_packets_out:
  "write_packets fails lt ps w = Inr w' \<Longrightarrow>
     pw_out w' = pw_out w @ (if ps = [] then [] else header_due lt w)
       @ concat (map (\<lambda>p. encode_record (record_of p)) ps)"
proof (induction ps arbitrary: w)
  case Nil
  then show ?case by simp
next
  case (Cons p ps)
  then obtain w1 where w1: "write_packet fails lt p w = Inr w1"
    and rest: "write_packets fails lt ps w1 = Inr w'" by auto
  show ?case
    using Cons.IH [OF rest] write_packet_ok [OF w1] by (simp add: header_due_def)
qed

lemma write_packets_ok:
  "(\<And>out chunk. fails out chunk = None) \<Longrightarrow> \<exists>w'. write_packets fails lt ps w = Inr w'"
  by (induction ps arbitrary: w) (auto simp: write_packet_def write_all_def)

section \<open>Properties\<close>



text \<open>C31. Round trip of the capture stream: writing packets to a fresh writer whose sink does
  not fail succeeds, and reading the bytes back gives the link type, the largest snap length
  and exactly the packets, their seconds and microseconds truncated to 32 bits; with no
  packet nothing at all is written.\<close>

theorem write_stream_reads_back:
  assumes "\<And>out chunk. fails out chunk = None"
    and "list_all (\<lambda>p. length (pk_data p) < 2 ^ 32) ps"
  shows "\<exists>w. write_packets fails lt ps writer_new = Inr w
    \<and> (if ps = [] then pw_out w = []
       else read_pcap (pw_out w) = Some (lt, 0xFFFFFFFF, map record_of ps))"
proof -
  obtain w where w: "write_packets fails lt ps writer_new = Inr w"
    using write_packets_ok [of fails lt ps writer_new] assms(1) by blast
  have "list_all (\<lambda>r. length (pr_data r) < 2 ^ 32) (map record_of ps)"
    using assms(2) by (induction ps) (auto simp: record_of_def)
  then show ?thesis
    using w write_packets_out [OF w] read_pcap_encode [of "map record_of ps" lt]
    by (simp add: writer_new_def header_due_def comp_def)
qed

theorem write_stream_reads_back_witness:
  "\<exists>w. write_packets (\<lambda>_ _. None) 1
      [\<lparr>pk_sec = 1700000000, pk_usec = 123, pk_caplen = 2, pk_len = 60, pk_data = [7, 8]\<rparr>] writer_new = Inr w
    \<and> read_pcap (pw_out w) = Some (1, 0xFFFFFFFF,
        [\<lparr>pr_sec = 1700000000, pr_usec = 123, pr_orig_len = 60, pr_data = [7, 8]\<rparr>])"
  using write_stream_reads_back [of "\<lambda>_ _. None"
      "[\<lparr>pk_sec = 1700000000, pk_usec = 123, pk_caplen = 2, pk_len = 60, pk_data = [7, 8]\<rparr>]" 1]
  by (simp add: record_of_def)

end
