(* ===== verification/Pcap_Spool.thy ===== *)
theory Pcap_Spool
  imports Prelude "HOL-Library.List_Lexorder" "HOL-Library.Product_Lexorder" "HOL-Library.AList"
begin

text \<open>
  Discovery of rotated capture files (\<open>src/src/pcap/spool.rs\<close> and the configuration of
  \<open>src/src/pcap/request.rs\<close>): the file name patterns, the recursive collection of files
  into rotation sequences, and the pruning of each sequence to a time window.

  The file system is a directory tree as \<open>read_dir\<close> delivers it: a listing is a sequence of
  entries in directory order that ends normally or with an I/O error; an entry whose type
  cannot be read is an error too. A path is its list of components. The two regular
  expressions are written as scanners; their digits are the ASCII digits.
\<close>

section \<open>The directory tree\<close>

type_synonym path = "string list"

datatype fs_node =
    Fs_File
  | Fs_Other
  | Fs_Bad string
  | Fs_Dir fs_dir
and fs_dir =
    Dir_End
  | Dir_Err string
  | Dir_Entry string fs_node fs_dir

section \<open>File names\<close>

definition MIN_ROTATION_TIMESTAMP :: u64 where "MIN_ROTATION_TIMESTAMP = 946684800"
definition MAX_ROTATION_TIMESTAMP :: u64 where "MAX_ROTATION_TIMESTAMP = 4102444800"

definition strip_suffix_ignore_case :: "string \<Rightarrow> string \<Rightarrow> string option" where
  "strip_suffix_ignore_case name sfx =
     (if length sfx \<le> length name
         \<and> eq_ignore_ascii_case (drop (length name - length sfx) name) sfx
      then Some (take (length name - length sfx) name) else None)"

definition strip_capture_ext :: "string \<Rightarrow> string" where
  "strip_capture_ext filename =
     (case strip_suffix_ignore_case filename ''.pcap'' of
        Some s \<Rightarrow> s
      | None \<Rightarrow>
          (case strip_suffix_ignore_case filename ''.cap'' of Some s \<Rightarrow> s | None \<Rightarrow> filename))"

text \<open>\<open>(\d+)(\.(\d+))?$\<close> at the head of the string.\<close>

definition re_rotation :: "string \<Rightarrow> (string \<times> string option) option" where
  "re_rotation s =
     (let d = takeWhile is_digit s; r = dropWhile is_digit s
      in if d = [] then None
         else case r of
                [] \<Rightarrow> Some (d, None)
              | c # r' \<Rightarrow>
                  (if c = CHR ''.'' \<and> r' \<noteq> [] \<and> list_all is_digit r' then Some (d, Some r') else None))"

text \<open>\<open>^(.*?)\.\<close> in front of it: the shortest prefix wins; the dot of the prefix does not
  match a line feed.\<close>

fun re_suricata :: "string \<Rightarrow> string \<Rightarrow> (string \<times> string \<times> string option) option" where
  "re_suricata pre [] = None"
| "re_suricata pre (c # s) =
     (case (if c = CHR ''.'' then re_rotation s else None) of
        Some (a, b) \<Rightarrow> Some (pre, a, b)
      | None \<Rightarrow> (if c = CHR 0x0A then None else re_suricata (pre @ [c]) s))"

definition MAX64 :: nat where "MAX64 = 2 ^ 64 - 1"

definition parse_u64 :: "string \<Rightarrow> u64 option" where
  "parse_u64 s = map_option of_nat (parse_unsigned MAX64 s)"

definition rotation_range :: "u64 \<Rightarrow> bool" where
  "rotation_range ts \<longleftrightarrow> MIN_ROTATION_TIMESTAMP \<le> ts \<and> ts \<le> MAX_ROTATION_TIMESTAMP"

definition parse_suricata :: "string \<Rightarrow> string \<Rightarrow> string option \<Rightarrow> (string \<times> u64 \<times> u64) option" where
  "parse_suricata basename a_str b_str =
     (case (parse_u64 a_str, case b_str of Some s \<Rightarrow> parse_u64 s | None \<Rightarrow> Some 0) of
        (Some a, Some b) \<Rightarrow>
          (let (fid, ts) = (if a > b then (b, a) else (a, b))
           in if rotation_range ts then Some (basename, fid, ts) else None)
      | _ \<Rightarrow> None)"

definition parse_simple :: "string \<Rightarrow> (string \<times> u64 \<times> u64) option" where
  "parse_simple filename =
     (let pre = takeWhile (\<lambda>c. \<not> is_digit c) filename;
          rest = dropWhile (\<lambda>c. \<not> is_digit c) filename;
          d = takeWhile is_digit rest
      in if d = [] then None
         else case parse_u64 d of
                None \<Rightarrow> None
              | Some ts \<Rightarrow>
                  (if rotation_range ts then Some (pre @ dropWhile is_digit rest, 0, ts) else None))"

definition parse_filename :: "string \<Rightarrow> (string \<times> u64 \<times> u64) option" where
  "parse_filename filename =
     (if valid_utf8 filename then
        (case re_suricata [] (strip_capture_ext filename) of
           Some (basename, a, b) \<Rightarrow> parse_suricata basename a b
         | None \<Rightarrow> parse_simple filename)
      else None)"

section \<open>Collecting\<close>

type_synonym group_key = "path \<times> string \<times> u64"
type_synonym sorted_files = "(group_key \<times> (u64 \<times> path) list) list"

text \<open>\<open>entry(key).or_default().push(x)\<close>.\<close>

definition push_file :: "group_key \<Rightarrow> u64 \<times> path \<Rightarrow> sorted_files \<Rightarrow> sorted_files" where
  "push_file key x m =
     AList.update key ((case map_of m key of None \<Rightarrow> [] | Some xs \<Rightarrow> xs) @ [x]) m"

definition skipped_by_prefix :: "string option \<Rightarrow> string \<Rightarrow> bool" where
  "skipped_by_prefix pfx name \<longleftrightarrow>
     (case pfx of None \<Rightarrow> False | Some p \<Rightarrow> \<not> (valid_utf8 name \<and> prefix p name))"

fun collect_files ::
    "path \<Rightarrow> string option \<Rightarrow> fs_dir \<Rightarrow> sorted_files \<Rightarrow> string + (bool \<times> sorted_files)" where
  "collect_files directory pfx Dir_End groups = Inr (True, groups)"
| "collect_files directory pfx (Dir_Err e) groups = Inl e"
| "collect_files directory pfx (Dir_Entry name node rest) groups =
     (case node of
        Fs_Bad e \<Rightarrow> Inl e
      | Fs_Dir sub \<Rightarrow>
          (case collect_files (directory @ [name]) pfx sub groups of
             Inl e \<Rightarrow> Inl e
           | Inr (ok, groups') \<Rightarrow>
               (if ok then collect_files directory pfx rest groups' else Inr (False, groups')))
      | Fs_File \<Rightarrow>
          (if skipped_by_prefix pfx name then collect_files directory pfx rest groups
           else case parse_filename name of
                  Some (basename, fid, ts) \<Rightarrow>
                    collect_files directory pfx rest
                      (push_file (directory, basename, fid) (ts, directory @ [name]) groups)
                | None \<Rightarrow> Inr (False, groups))
      | Fs_Other \<Rightarrow> collect_files directory pfx rest groups)"

fun walk :: "path \<Rightarrow> string option \<Rightarrow> fs_dir \<Rightarrow> path list \<Rightarrow> string + path list" where
  "walk directory pfx Dir_End files = Inr files"
| "walk directory pfx (Dir_Err e) files = Inl e"
| "walk directory pfx (Dir_Entry name node rest) files =
     (case node of
        Fs_Bad e \<Rightarrow> Inl e
      | Fs_Dir sub \<Rightarrow>
          (case walk (directory @ [name]) pfx sub files of
             Inl e \<Rightarrow> Inl e
           | Inr files' \<Rightarrow> walk directory pfx rest files')
      | Fs_File \<Rightarrow>
          (if skipped_by_prefix pfx name then walk directory pfx rest files
           else walk directory pfx rest (files @ [directory @ [name]]))
      | Fs_Other \<Rightarrow> walk directory pfx rest files)"

definition walk_files :: "path \<Rightarrow> string option \<Rightarrow> fs_dir \<Rightarrow> string + path list" where
  "walk_files directory pfx listing = walk directory pfx listing []"

section \<open>Pruning\<close>

text \<open>The spool configuration; the margin is in microseconds.\<close>

record spool_config =
  sp_directory :: path
  sp_prefix :: "string option"
  sp_margin :: nat

definition spool_config_new :: "path \<Rightarrow> string option \<Rightarrow> spool_config" where
  "spool_config_new directory pfx =
     \<lparr>sp_directory = directory, sp_prefix = pfx, sp_margin = 60 * 1000000\<rparr>"

definition file_micros :: "u64 \<times> 'p \<Rightarrow> u64" where
  "file_micros e = saturating_mul (fst e) 1000000"

text \<open>\<open>retain\<close> with the peekable copy: each file is judged with the file that follows it in
  the sorted list, whether or not that one is kept.\<close>

fun prune :: "u64 \<Rightarrow> u64 \<Rightarrow> (u64 \<times> 'p) list \<Rightarrow> (u64 \<times> 'p) list" where
  "prune start_time end_time [] = []"
| "prune start_time end_time (e # es) =
     (if file_micros e > end_time then prune start_time end_time es
      else if es \<noteq> [] \<and> file_micros (hd es) < start_time then prune start_time end_time es
      else e # prune start_time end_time es)"

definition load_files ::
    "spool_config \<Rightarrow> fs_dir \<Rightarrow> u64 \<Rightarrow> u64 \<Rightarrow> string + sorted_files option" where
  "load_files spool listing start_us end_us =
     (let margin = (if sp_margin spool \<le> MAX64 then of_nat (sp_margin spool) else - 1);
          start_time = saturating_sub start_us margin;
          end_time = saturating_add end_us margin
      in case collect_files (sp_directory spool) (sp_prefix spool) listing [] of
           Inl e \<Rightarrow> Inl e
         | Inr (ok, m) \<Rightarrow>
             (if ok
              then Inr (Some (map (\<lambda>(k, files). (k, prune start_time end_time (sort files))) m))
              else Inr None))"

section \<open>Lemmas: file names\<close>

lemma takeWhile_digits_dot:
  "list_all is_digit d \<Longrightarrow> takeWhile is_digit (d @ CHR ''.'' # s) = d \<and>
     dropWhile is_digit (d @ CHR ''.'' # s) = CHR ''.'' # s"
  by (induction d) (auto simp: is_digit_def less_eq_char_def)

lemma re_rotation_two:
  "d \<noteq> [] \<Longrightarrow> list_all is_digit d \<Longrightarrow> e \<noteq> [] \<Longrightarrow> list_all is_digit e \<Longrightarrow>
     re_rotation (d @ CHR ''.'' # e) = Some (d, Some e)"
  by (simp add: re_rotation_def takeWhile_digits_dot)

text \<open>A rotation tail has at most one dot, so no dot before the last two starts one.\<close>

lemma digits_no_dot: "list_all is_digit d \<Longrightarrow> count_list d (CHR ''.'') = 0"
  by (induction d) (auto simp: is_digit_def less_eq_char_def)

lemma re_rotation_tail:
  "re_rotation s = Some m \<Longrightarrow> dropWhile is_digit s = [] \<or>
     (\<exists>r. dropWhile is_digit s = CHR ''.'' # r \<and> list_all is_digit r)"
  by (cases "dropWhile is_digit s") (simp_all add: re_rotation_def Let_def split: if_splits)

lemma re_rotation_dots:
  assumes "re_rotation s = Some m"
  shows "count_list s (CHR ''.'') \<le> 1"
proof -
  have "list_all is_digit (takeWhile is_digit s)"
    by (auto simp: list_all_iff dest: set_takeWhileD)
  then have "count_list s (CHR ''.'') = count_list (dropWhile is_digit s) (CHR ''.'')"
    by (metis add_0 count_list_append digits_no_dot takeWhile_dropWhile_id)
  then show ?thesis
    using re_rotation_tail [OF assms] digits_no_dot by (elim disjE exE conjE) simp_all
qed

lemma re_suricata_two:
  assumes "CHR 0x0A \<notin> set base" and d: "d \<noteq> []" "list_all is_digit d"
    and e: "e \<noteq> []" "list_all is_digit e"
  shows "re_suricata pre (base @ CHR ''.'' # d @ CHR ''.'' # e) = Some (pre @ base, d, Some e)"
  using assms(1)
proof (induction base arbitrary: pre)
  case Nil
  show ?case using re_rotation_two [OF d e] by simp
next
  case (Cons c base)
  have "re_rotation (base @ CHR ''.'' # d @ CHR ''.'' # e) = None"
  proof (rule ccontr)
    assume "re_rotation (base @ CHR ''.'' # d @ CHR ''.'' # e) \<noteq> None"
    then have "count_list (base @ CHR ''.'' # d @ CHR ''.'' # e) (CHR ''.'') \<le> 1"
      using re_rotation_dots by blast
    then show False by simp
  qed
  then show ?case using Cons by auto
qed

lemma parse_u64_show [simp]: "parse_u64 (show_word (w :: u64)) = Some w"
proof -
  have "unat w < 2 ^ LENGTH(64)" by (rule unsigned_less)
  then have "unat w \<le> MAX64" by (simp add: MAX64_def)
  then show ?thesis by (simp add: parse_u64_def show_word_def parse_unsigned_show)
qed

lemma show_word_digits: "show_word w \<noteq> []" "list_all is_digit (show_word w)"
  using show_nat_digits [of "unat w"] by (simp_all add: show_word_def)

lemma digit_to_lower: "is_digit c \<Longrightarrow> to_lower c = c"
  by (auto simp: to_lower_def is_digit_def less_eq_char_def)

lemma no_strip_after_digit:
  assumes "is_digit c" and "sfx \<noteq> []" and "\<not> is_digit (to_lower (last sfx))"
  shows "strip_suffix_ignore_case (s @ [c]) sfx = None"
proof (rule ccontr)
  assume "strip_suffix_ignore_case (s @ [c]) sfx \<noteq> None"
  then have le: "length sfx \<le> Suc (length s)"
    and eq: "to_ascii_lowercase (drop (Suc (length s) - length sfx) (s @ [c])) = to_ascii_lowercase sfx"
    by (auto simp: strip_suffix_ignore_case_def eq_ignore_ascii_case_def split: if_splits)
  let ?t = "drop (Suc (length s) - length sfx) (s @ [c])"
  have "length ?t = length sfx" using le by simp
  then have "?t \<noteq> []" using assms(2) by (metis length_0_conv)
  moreover from this have "last ?t = c"
    by (metis drop_eq_Nil last_drop last_snoc linorder_not_less)
  ultimately have "to_lower c = to_lower (last sfx)"
    using eq assms(2) by (metis last_map to_ascii_lowercase_def)
  then show False using assms(1,3) digit_to_lower [OF assms(1)] by simp
qed

lemma strip_capture_ext_digit:
  assumes "is_digit c"
  shows "strip_capture_ext (s @ [c]) = s @ [c]"
proof -
  have p: "\<not> is_digit (to_lower (CHR ''p''))"
    by (simp add: to_lower_def is_digit_def less_eq_char_def)
  then have "strip_suffix_ignore_case (s @ [c]) ''.pcap'' = None"
    "strip_suffix_ignore_case (s @ [c]) ''.cap'' = None"
    by (simp_all add: no_strip_after_digit [OF assms])
  then show ?thesis by (simp add: strip_capture_ext_def)
qed

definition capture_ext :: "string \<Rightarrow> bool" where
  "capture_ext ext \<longleftrightarrow> eq_ignore_ascii_case ext ''.pcap'' \<or> eq_ignore_ascii_case ext ''.cap''"

lemma lower_cap [simp]:
  "to_ascii_lowercase ''.cap'' = ''.cap''" "to_ascii_lowercase ''.pcap'' = ''.pcap''"
  by (simp_all add: to_ascii_lowercase_def to_lower_def less_eq_char_def)

lemma to_ascii_lowercase_length [simp]: "length (to_ascii_lowercase s) = length s"
  by (simp add: to_ascii_lowercase_def)

lemma lower_length: "to_ascii_lowercase s = t \<Longrightarrow> length s = length t"
  by auto

lemma strip_exact:
  "eq_ignore_ascii_case ext sfx \<Longrightarrow> strip_suffix_ignore_case (s @ ext) sfx = Some s"
  using lower_length [of ext "to_ascii_lowercase sfx"]
  by (simp add: strip_suffix_ignore_case_def eq_ignore_ascii_case_def)

lemma cap_is_not_pcap:
  assumes "eq_ignore_ascii_case ext ''.cap''"
  shows "strip_suffix_ignore_case (s @ ext) ''.pcap'' = None"
proof (cases s rule: rev_cases)
  case Nil
  then show ?thesis
    using lower_length [of ext "''.cap''"] assms
    by (simp add: strip_suffix_ignore_case_def eq_ignore_ascii_case_def)
next
  case (snoc s' x)
  have low: "to_ascii_lowercase ext = ''.cap''" and len: "length ext = 4"
    using assms lower_length [of ext "''.cap''"] by (simp_all add: eq_ignore_ascii_case_def)
  have "drop (length (s @ ext) - length ''.pcap'') (s @ ext) = x # ext" using snoc len by simp
  moreover have "to_ascii_lowercase (x # ext) \<noteq> ''.pcap''"
    using low by (simp add: to_ascii_lowercase_def)
  ultimately have "\<not> eq_ignore_ascii_case (drop (length (s @ ext) - length ''.pcap'') (s @ ext)) ''.pcap''"
    unfolding eq_ignore_ascii_case_def lower_cap by (simp only: not_False_eq_True)
  then show ?thesis unfolding strip_suffix_ignore_case_def by (simp only: simp_thms if_False)
qed

lemma strip_capture_ext_ext:
  assumes "capture_ext ext"
  shows "strip_capture_ext (s @ ext) = s"
proof (cases "eq_ignore_ascii_case ext ''.cap''")
  case True
  then show ?thesis
    using cap_is_not_pcap [OF True, of s] strip_exact [OF True, of s] by (simp add: strip_capture_ext_def)
next
  case False
  then show ?thesis
    using assms strip_exact [of ext "''.pcap''" s] by (simp add: capture_ext_def strip_capture_ext_def)
qed

lemma parse_rotated:
  assumes "CHR 0x0A \<notin> set base" and "ts \<ge> fid" and "rotation_range ts"
    and name: "strip_capture_ext name = base @ ''.'' @ show_word fid @ ''.'' @ show_word ts"
    and "valid_utf8 name"
  shows "parse_filename name = Some (base, fid, ts)"
  using assms re_suricata_two [OF assms(1) show_word_digits show_word_digits, of "[]" fid ts]
  by (auto simp: parse_filename_def parse_suricata_def)

section \<open>Lemmas: collecting\<close>

definition all_files :: "sorted_files \<Rightarrow> (u64 \<times> path) list" where
  "all_files m = concat (map snd m)"

lemma all_files_push:
  "mset (all_files (push_file k x m)) = add_mset x (mset (all_files m))"
proof (induction m)
  case Nil
  then show ?case by (simp add: push_file_def all_files_def)
next
  case (Cons kf m)
  then show ?case by (cases kf) (auto simp: push_file_def all_files_def)
qed

text \<open>A file in a group belongs there: it lies in the group's directory and its name parses to
  the group's base name and thread id, and to the file's own rotation time.\<close>

definition file_belongs :: "group_key \<Rightarrow> u64 \<times> path \<Rightarrow> bool" where
  "file_belongs k x \<longleftrightarrow>
     (\<exists>name. snd x = fst k @ [name] \<and> parse_filename name = Some (fst (snd k), snd (snd k), fst x))"

definition groups_ok :: "sorted_files \<Rightarrow> bool" where
  "groups_ok m \<longleftrightarrow> distinct (map fst m) \<and> (\<forall>(k, xs) \<in> set m. xs \<noteq> [] \<and> list_all (file_belongs k) xs)"

lemma groups_ok_push:
  assumes "groups_ok m" and "file_belongs k x"
  shows "groups_ok (push_file k x m)"
proof -
  have "(k', xs) \<in> set (push_file k x m) \<Longrightarrow>
      (k', xs) \<in> set m \<or> (k' = k \<and> xs = (case map_of m k of None \<Rightarrow> [] | Some ys \<Rightarrow> ys) @ [x])" for k' xs
    unfolding push_file_def by (induction m) (auto split: if_splits)
  moreover have "list_all (file_belongs k) ys" if "map_of m k = Some ys" for ys
    using assms(1) map_of_SomeD [OF that] by (auto simp: groups_ok_def)
  moreover have "distinct (map fst (push_file k x m))"
    using assms(1) by (simp add: groups_ok_def push_file_def distinct_update)
  ultimately show ?thesis
    using assms by (fastforce simp: groups_ok_def split: option.splits)
qed

lemma collect_files_ok:
  "groups_ok m \<Longrightarrow> collect_files d pfx listing m = Inr (ok, m') \<Longrightarrow> groups_ok m'"
proof (induction d pfx listing m arbitrary: m' ok rule: collect_files.induct)
  case (3 d pfx name node rest m)
  from "3.prems" show ?case
    using "3.IH"
    by (fastforce split: fs_node.splits sum.splits option.splits if_splits
        intro!: groups_ok_push simp: file_belongs_def)
qed auto

text \<open>Both traversals see the same files.\<close>

lemma collect_walk:
  "collect_files d pfx listing m = Inr (True, m') \<Longrightarrow> mset (map snd (all_files m)) = mset ps \<Longrightarrow>
     \<exists>ps'. walk d pfx listing ps = Inr ps' \<and> mset (map snd (all_files m')) = mset ps'"
proof (induction d pfx listing m arbitrary: m' ps rule: collect_files.induct)
  case (1 d pfx m)
  then show ?case by simp
next
  case (2 d pfx e m)
  then show ?case by simp
next
  case (3 d pfx name node rest m)
  show ?case
  proof (cases node)
    case Fs_File
    show ?thesis
    proof (cases "skipped_by_prefix pfx name")
      case True
      then show ?thesis using Fs_File "3.prems" "3.IH"(1) [OF Fs_File True] by simp
    next
      case False
      then obtain b i t where n: "parse_filename name = Some (b, i, t)"
        using Fs_File "3.prems" by (auto split: option.splits)
      have "mset (map snd (all_files (push_file (d, b, i) (t, d @ [name]) m))) = mset (ps @ [d @ [name]])"
        using "3.prems"(2) all_files_push [of "(d, b, i)" "(t, d @ [name])" m] by simp
      then show ?thesis
        using Fs_File False n "3.prems"(1) "3.IH"(2) [OF Fs_File False n refl refl] by simp
    qed
  next
    case Fs_Other
    then show ?thesis using "3.prems" "3.IH"(3) [OF Fs_Other] by simp
  next
    case (Fs_Bad e)
    then show ?thesis using "3.prems" by simp
  next
    case (Fs_Dir sub)
    then obtain m1 where sub: "collect_files (d @ [name]) pfx sub m = Inr (True, m1)"
      and rest: "collect_files d pfx rest m1 = Inr (True, m')"
      using "3.prems"(1) by (auto split: sum.splits if_splits)
    obtain ps1 where "walk (d @ [name]) pfx sub ps = Inr ps1" "mset (map snd (all_files m1)) = mset ps1"
      using "3.IH"(4) [OF Fs_Dir sub "3.prems"(2)] by blast
    then show ?thesis
      using Fs_Dir "3.IH"(5) [OF Fs_Dir sub refl _ rest] by simp
  qed
qed

lemmas rotation_eval = rotation_range_def MIN_ROTATION_TIMESTAMP_def MAX_ROTATION_TIMESTAMP_def

section \<open>Lemmas: pruning\<close>

text \<open>The files kept, by position: a file may hold packets from its own rotation time until
  that of its successor.\<close>

definition in_range :: "u64 \<Rightarrow> u64 \<Rightarrow> (u64 \<times> 'p) list \<Rightarrow> nat \<Rightarrow> bool" where
  "in_range lo hi xs i \<longleftrightarrow> file_micros (xs ! i) \<le> hi \<and>
     (Suc i < length xs \<longrightarrow> lo \<le> file_micros (xs ! Suc i))"

lemma in_range_Suc: "in_range lo hi (x # xs) (Suc i) \<longleftrightarrow> in_range lo hi xs i"
  by (simp add: in_range_def)

lemma in_range_0:
  "in_range lo hi (x # xs) 0 \<longleftrightarrow> \<not> file_micros x > hi \<and> \<not> (xs \<noteq> [] \<and> file_micros (hd xs) < lo)"
  by (cases xs) (auto simp: in_range_def)

lemma prune_nths: "prune lo hi xs = nths xs {i. in_range lo hi xs i}"
proof (induction lo hi xs rule: prune.induct)
  case (1 lo hi)
  then show ?case by simp
next
  case (2 lo hi x xs)
  then show ?case by (auto simp: nths_Cons in_range_Suc in_range_0)
qed

lemma in_prune: "i < length xs \<Longrightarrow> in_range lo hi xs i \<Longrightarrow> xs ! i \<in> set (prune lo hi xs)"
  by (auto simp: prune_nths set_nths)

lemma file_micros_nat: "unat (file_micros x) = min (unat (fst x) * 1000000) (2 ^ 64 - 1)"
  by (simp add: file_micros_def unat_saturating_mul)

lemma in_range_covers:
  assumes margin: "unat margin = min m (2 ^ 64 - 1)"
    and t: "unat s \<le> t" "t \<le> unat e"
    and start: "unat (fst (xs ! i)) * 1000000 \<le> t + m"
    and nxt: "Suc i < length xs \<Longrightarrow> t \<le> unat (fst (xs ! Suc i)) * 1000000 + m"
  shows "in_range (saturating_sub s margin) (saturating_add e margin) xs i"
proof -
  have e: "unat e < 2 ^ 64" using unsigned_less [of e] by simp
  have s: "unat s < 2 ^ 64" using unsigned_less [of s] by simp
  have "file_micros (xs ! i) \<le> saturating_add e margin"
    using start t(2) margin by (simp add: word_le_nat_alt file_micros_nat unat_saturating_add)
  moreover have "saturating_sub s margin \<le> file_micros (xs ! Suc i)" if "Suc i < length xs"
    using nxt [OF that] t(1) margin s
    by (auto simp: word_le_nat_alt file_micros_nat unat_saturating_sub)
  ultimately show ?thesis by (simp add: in_range_def)
qed

section \<open>Properties\<close>

text \<open>C33. Pruning never loses a packet of the window: in every rotation sequence, sorted by
  rotation time, a file is kept if, allowing for the margin, some instant of the requested
  window lies between its rotation time and that of the next file of the sequence (or after
  its rotation time, for the last). The saturating arithmetic does not spoil this for any
  window, margin or rotation time.\<close>

theorem load_files_keeps_window:
  assumes "load_files spool listing start_us end_us = Inr (Some groups)"
    and "collect_files (sp_directory spool) (sp_prefix spool) listing [] = Inr (True, m)"
    and "(k, files) \<in> set m" and "i < length files"
    and "unat start_us \<le> t" "t \<le> unat end_us"
    and "unat (fst (sort files ! i)) * 1000000 \<le> t + sp_margin spool"
    and "Suc i < length files \<Longrightarrow> t \<le> unat (fst (sort files ! Suc i)) * 1000000 + sp_margin spool"
  shows "\<exists>kept. (k, kept) \<in> set groups \<and> sort files ! i \<in> set kept"
proof -
  define margin where "margin = (if sp_margin spool \<le> MAX64 then of_nat (sp_margin spool) else (- 1 :: u64))"
  have margin: "unat margin = min (sp_margin spool) (2 ^ 64 - 1)"
    by (auto simp: margin_def MAX64_def unat_minus_one_max unat_of_nat take_bit_nat_eq_self)
  let ?kept = "prune (saturating_sub start_us margin) (saturating_add end_us margin) (sort files)"
  have "sort files ! i \<in> set ?kept"
    using assms(4-8) in_range_covers [OF margin, of start_us t end_us "sort files" i]
    by (intro in_prune) simp_all
  moreover have "(k, ?kept) \<in> set groups"
    using assms(1-3) by (auto simp: load_files_def margin_def Let_def)
  ultimately show ?thesis by blast
qed

theorem load_files_keeps_window_witness:
  "\<exists>kept. (([''spool''], ''log.pcap'', 1), kept) \<in> set
      [(([''spool''], ''log.pcap'', 1), [(1700002000, [''spool'', ''log.pcap.1.1700002000''])])]
    \<and> (1700002000, [''spool'', ''log.pcap.1.1700002000'']) \<in> set kept"
proof -
  let ?l = "Dir_Entry ''log.pcap.1.1700002000'' Fs_File Dir_End"
  let ?spool = "\<lparr>sp_directory = [''spool''], sp_prefix = None, sp_margin = 0\<rparr>"
  let ?f = "(1700002000, [''spool'', ''log.pcap.1.1700002000''])"
  let ?k = "([''spool''], ''log.pcap'', 1)"
  have n: "''log.pcap'' @ ''.'' @ show_word (1 :: u64) @ ''.'' @ show_word (1700002000 :: u64)
      = ''log.pcap.1.1700002000''" by (simp add: string_eval)
  have p: "parse_filename ''log.pcap.1.1700002000'' = Some (''log.pcap'', 1, 1700002000)"
  proof (rule parse_rotated)
    show "strip_capture_ext ''log.pcap.1.1700002000'' = ''log.pcap'' @ ''.'' @ show_word (1 :: u64) @ ''.''
        @ show_word (1700002000 :: u64)"
      unfolding n by (rule strip_capture_ext_digit [of "CHR ''0''" "''log.pcap.1.170000200''", simplified])
        (simp add: string_eval)
  qed (simp_all add: rotation_eval valid_utf8_def)
  have c: "collect_files (sp_directory ?spool) (sp_prefix ?spool) ?l [] = Inr (True, [(?k, [?f])])"
    by (simp add: p skipped_by_prefix_def push_file_def)
  have "load_files ?spool ?l 1700002100000000 1700002200000000 = Inr (Some [(?k, [?f])])"
    using c by (simp add: load_files_def MAX64_def file_micros_def saturating_mul_def
        saturating_add_def saturating_sub_def)
  from load_files_keeps_window [OF this c, of ?k "[?f]" 0 1700002150000000]
  show ?thesis by simp
qed

text \<open>A rotated capture name round-trips: for every base name, thread id and rotation time
  in range, the names \<open>base.id.time\<close> and \<open>base.id.time.ext\<close>, with \<open>ext\<close> a capture extension
  in any case, parse back to exactly the three parts; dots and digits inside the base name
  do not confuse it.\<close>

theorem parse_filename_rotated:
  assumes "CHR 0x0A \<notin> set base" and "fid \<le> ts" and "rotation_range ts"
    and "ext = [] \<or> capture_ext ext"
    and "valid_utf8 (base @ ''.'' @ show_word fid @ ''.'' @ show_word ts @ ext)"
  shows "parse_filename (base @ ''.'' @ show_word fid @ ''.'' @ show_word ts @ ext)
    = Some (base, fid, ts)"
proof (rule parse_rotated [OF assms(1,2,3) _ assms(5)])
  let ?n = "base @ ''.'' @ show_word fid @ ''.'' @ show_word ts"
  obtain d c where d: "show_word ts = d @ [c]" and "is_digit c"
    using show_word_digits [of ts] by (cases "show_word ts" rule: rev_cases) auto
  then have "strip_capture_ext ?n = ?n"
    using strip_capture_ext_digit [of c "base @ ''.'' @ show_word fid @ ''.'' @ d"] by simp
  then show "strip_capture_ext (base @ ''.'' @ show_word fid @ ''.'' @ show_word ts @ ext) = ?n"
    using assms(4) strip_capture_ext_ext [of ext ?n] by auto
qed

theorem parse_filename_rotated_witness:
  "parse_filename (''10.0.0.1.pcap'' @ ''.'' @ show_word (1 :: u64) @ ''.'' @ show_word (1649915733 :: u64) @ ''.PCAP'')
    = Some (''10.0.0.1.pcap'', 1, 1649915733)"
proof (rule parse_filename_rotated)
  show "valid_utf8 (''10.0.0.1.pcap'' @ ''.'' @ show_word (1 :: u64) @ ''.'' @ show_word (1649915733 :: u64) @ ''.PCAP'')"
    by (simp add: string_eval)
  show "''.PCAP'' = [] \<or> capture_ext ''.PCAP''" by (simp add: capture_ext_def string_eval)
qed (simp_all add: rotation_eval)

text \<open>Grouping loses and invents nothing: when the collection succeeds, the recursive walk
  of the same tree succeeds too, the files of all groups together are exactly the files it
  lists, the groups are distinct and non-empty, and every file lies in its group's directory
  with a name that parses to its group and rotation time.\<close>

theorem collect_files_groups:
  assumes "collect_files d pfx listing [] = Inr (True, m)"
  shows "(\<exists>ps. walk_files d pfx listing = Inr ps \<and> mset (map snd (all_files m)) = mset ps)
    \<and> groups_ok m"
  using collect_walk [OF assms, of "[]"] collect_files_ok [OF _ assms]
  by (simp add: walk_files_def all_files_def groups_ok_def)

theorem collect_files_groups_witness:
  "let l = Dir_Entry ''log.1.1700000000.pcap'' Fs_File (Dir_Entry ''s'' Fs_Other Dir_End)
   in \<exists>ps. walk_files [''spool''] None l = Inr ps \<and> ps = [[''spool'', ''log.1.1700000000.pcap'']]"
proof -
  let ?l = "Dir_Entry ''log.1.1700000000.pcap'' Fs_File (Dir_Entry ''s'' Fs_Other Dir_End)"
  have n: "''log'' @ ''.'' @ show_word (1 :: u64) @ ''.'' @ show_word (1700000000 :: u64)
      = ''log.1.1700000000''" by (simp add: string_eval)
  have p: "parse_filename ''log.1.1700000000.pcap'' = Some (''log'', 1, 1700000000)"
  proof (rule parse_rotated)
    show "strip_capture_ext ''log.1.1700000000.pcap'' = ''log'' @ ''.'' @ show_word (1 :: u64) @ ''.''
        @ show_word (1700000000 :: u64)"
      unfolding n
      using strip_capture_ext_ext [of "''.pcap''" "''log.1.1700000000''"]
      by (simp add: capture_ext_def eq_ignore_ascii_case_def)
  qed (simp_all add: rotation_eval valid_utf8_def)
  have "collect_files [''spool''] None ?l [] =
      Inr (True, [(([''spool''], ''log'', 1), [(1700000000, [''spool'', ''log.1.1700000000.pcap''])])])"
    by (simp add: p skipped_by_prefix_def push_file_def)
  from collect_files_groups [OF this] show ?thesis
    by (auto simp: all_files_def Let_def)
qed

end
