(* ===== verification/Pcap_Request.thy ===== *)
theory Pcap_Request
  imports Pcap_Filter Pcap_Spool
begin

text \<open>
  What a packet capture is asked for and what it reports (\<open>src/src/pcap/request.rs\<close>): sources,
  limits, filters, requests, statistics and errors.
\<close>

datatype pcap_source = Spool spool_config | Files "path list"

record fetch_limits =
  fl_max_bytes :: u64
  fl_deadline :: "nat option"
  fl_flush_interval :: nat

text \<open>\<open>Limits::default\<close>; durations are in nanoseconds.\<close>

definition limits_default :: fetch_limits where
  "limits_default = \<lparr>fl_max_bytes = - 1, fl_deadline = None, fl_flush_interval = 250 * 10 ^ 6\<rparr>"

datatype pcap_filter = Expression string | Flow flow_selector

record fetch_stats =
  fs_packets :: u64
  fs_bytes :: u64
  fs_files_scanned :: u32
  fs_files_vanished :: u32
  fs_truncated :: bool
  fs_linktype :: "u32 option"

definition fetch_stats_default :: fetch_stats where
  "fetch_stats_default = \<lparr>fs_packets = 0, fs_bytes = 0, fs_files_scanned = 0,
     fs_files_vanished = 0, fs_truncated = False, fs_linktype = None\<rparr>"

text \<open>Why a fetch ends without its statistics (\<open>src/src/pcap/fetch.rs\<close>).\<close>

datatype fetch_error =
    NoCandidateFiles
  | NoMatch fetch_stats
  | Format string
  | Io string

record pcap_request =
  rq_filter :: "pcap_filter option"
  rq_start :: "u64 option"
  rq_end :: "u64 option"
  rq_limits :: fetch_limits

end
