(* ===== verification/Pcap_Fetch.thy ===== *)
theory Pcap_Fetch
  imports Pcap_Format Pcap_Request
begin

text \<open>
  The blocking fetch (\<open>src/src/pcap/fetch.rs\<close>):
  a k-way merge over rotation groups. libpcap, the clock, the cancellation token and the
  output's errors are the fields of an environment record: opening a capture, compiling an
  expression for a link type, running a program on a packet, the n-th reading of the clock
  (time since the start of the fetch) and the n-th look at the token. Everything else is the
  code: the cursors, the time gate, the heap, the byte limit and the final verdict.
\<close>

section \<open>Failures\<close>

text \<open>A fetch that does not return a value fails with an error or panics.\<close>

datatype fetch_fault = Failed fetch_error | Panicked

datatype stop = Cancelled | Deadline

section \<open>The environment\<close>

text \<open>An open failure is a chain of causes, each with an OS error number where it has one.\<close>

type_synonym open_error = "(int option \<times> string) list"

datatype pcap_error = NoMorePackets | PcapError string | OtherError

record capture =
  cp_linktype :: u32
  cp_packets :: "packet list"
  cp_end :: pcap_error

record 'prog fetch_env =
  lp_open :: "path \<Rightarrow> open_error + capture"
  lp_compile :: "u32 \<Rightarrow> string \<Rightarrow> string + 'prog"
  lp_matches :: "'prog \<Rightarrow> packet \<Rightarrow> bool"
  lp_dead :: "string option"
  io_write :: sink_error
  io_flush :: "u8 list \<Rightarrow> string option"
  clock :: "nat \<Rightarrow> nat"
  is_cancelled :: "nat \<Rightarrow> bool"

definition ETHERNET :: u32 where "ETHERNET = 1"
definition EMFILE :: int where "EMFILE = 24"
definition ENFILE :: int where "ENFILE = 23"

section \<open>Matching state\<close>

record bpf_expr_tracker =
  bt_compiled_any :: bool
  bt_first_error :: "string option"

definition tracker_compiled :: "bpf_expr_tracker \<Rightarrow> bpf_expr_tracker" where
  "tracker_compiled t = t\<lparr>bt_compiled_any := True\<rparr>"

definition tracker_failed :: "string \<Rightarrow> bpf_expr_tracker \<Rightarrow> bpf_expr_tracker" where
  "tracker_failed err t =
     (if bt_first_error t = None then t\<lparr>bt_first_error := Some err\<rparr> else t)"

record matcher =
  mt_expression :: "string option"
  mt_flow_expressions :: "(string \<times> string) option"
  mt_gate :: bool
  mt_start :: u64
  mt_end :: u64

definition ts_micros :: "packet \<Rightarrow> u64" where
  "ts_micros p =
     (let secs = (case try_from_int (pk_sec p) of Some n \<Rightarrow> n | None \<Rightarrow> 0);
          micros = (case try_from_int (pk_usec p) of Some n \<Rightarrow> n | None \<Rightarrow> 0)
      in saturating_add (saturating_mul secs 1000000) micros)"

record pending_packet =
  pp_ts_micros :: u64
  pp_packet :: packet
  pp_linktype :: u32

record 'prog open_capture =
  oc_packets :: "packet list"
  oc_end :: pcap_error
  oc_linktype :: u32
  oc_program :: "'prog option"
  oc_path :: path

record 'prog group_cursor =
  gc_files :: "path list"
  gc_open :: "'prog open_capture option"
  gc_pending :: "pending_packet option"

definition cursor_new :: "path list \<Rightarrow> 'prog group_cursor" where
  "cursor_new files = \<lparr>gc_files = files, gc_open = None, gc_pending = None\<rparr>"

text \<open>What the cursors share: the stop latch and write credit of \<open>Control\<close>, the last flush of
  \<open>Flusher\<close>, the readings taken so far, the statistics, the tracker and the writer.\<close>

record fetch_state =
  ft_stopped :: "stop option"
  ft_write_credit :: nat
  ft_last_flush :: nat
  ft_reading :: nat
  ft_stats :: fetch_stats
  ft_tracker :: bpf_expr_tracker
  ft_writer :: pcap_writer

section \<open>Control and flushing\<close>

definition read_clock :: "'prog fetch_env \<Rightarrow> fetch_state \<Rightarrow> nat \<times> fetch_state" where
  "read_clock env s = (clock env (ft_reading s), s\<lparr>ft_reading := Suc (ft_reading s)\<rparr>)"

definition live :: "'prog fetch_env \<Rightarrow> fetch_limits \<Rightarrow> fetch_state \<Rightarrow> bool \<times> fetch_state" where
  "live env limits s =
     (if ft_stopped s \<noteq> None then (False, s)
      else if is_cancelled env (ft_reading s) then (False, s\<lparr>ft_stopped := Some Cancelled\<rparr>)
      else case fl_deadline limits of
             None \<Rightarrow> (True, s)
           | Some deadline \<Rightarrow>
               (let (now, s) = read_clock env s
                in if now - ft_write_credit s \<ge> deadline
                   then (False, s\<lparr>ft_stopped := Some Deadline\<rparr>)
                   else (True, s)))"

definition maybe_flush ::
    "'prog fetch_env \<Rightarrow> fetch_limits \<Rightarrow> fetch_state \<Rightarrow> fetch_error + fetch_state" where
  "maybe_flush env limits s =
     (let (now, s) = read_clock env s
      in if now - ft_last_flush s < fl_flush_interval limits then Inr s
         else let (flush_started, s) = read_clock env s
              in case io_flush env (pw_out (ft_writer s)) of
                   Some e \<Rightarrow> Inl (Io e)
                 | None \<Rightarrow>
                     (let (flushed, s) = read_clock env s;
                          s = s\<lparr>ft_write_credit := ft_write_credit s + (flushed - flush_started)\<rparr>;
                          (now, s) = read_clock env s
                      in Inr (s\<lparr>ft_last_flush := now\<rparr>)))"

section \<open>Opening a file\<close>

definition fd_exhausted :: "open_error \<Rightarrow> bool" where
  "fd_exhausted causes \<longleftrightarrow>
     list_ex (\<lambda>(os, msg). os = Some EMFILE \<or> os = Some ENFILE
        \<or> sublist ''too many open files'' (to_ascii_lowercase msg)) causes"

definition show_causes :: "open_error \<Rightarrow> string" where
  "show_causes causes = (case causes of [] \<Rightarrow> [] | (_, msg) # _ \<Rightarrow> msg)"

text \<open>The display of a path: its components joined by the separator.\<close>

definition show_path :: "path \<Rightarrow> string" where
  "show_path p = concat (map (\<lambda>c. CHR ''/'' # c) p)"

text \<open>The filter of one file: the program to run on its packets, or none to skip the file.\<close>

definition file_program ::
    "'prog fetch_env \<Rightarrow> matcher \<Rightarrow> u32 \<Rightarrow> bpf_expr_tracker
       \<Rightarrow> 'prog option option \<times> bpf_expr_tracker" where
  "file_program env m lt tracker =
     (case mt_expression m of
        Some expression \<Rightarrow>
          (case lp_compile env lt expression of
             Inr program \<Rightarrow> (Some (Some program), tracker_compiled tracker)
           | Inl err \<Rightarrow> (None, tracker_failed err tracker))
      | None \<Rightarrow>
          (case mt_flow_expressions m of
             Some (wrapped, base) \<Rightarrow>
               (case lp_compile env lt wrapped of
                  Inr program \<Rightarrow> (Some (Some program), tracker)
                | Inl _ \<Rightarrow>
                    (case lp_compile env lt base of
                       Inr program \<Rightarrow> (Some (Some program), tracker)
                     | Inl _ \<Rightarrow> (None, tracker)))
           | None \<Rightarrow> (Some None, tracker)))"

definition open_group_file ::
    "'prog fetch_env \<Rightarrow> matcher \<Rightarrow> path \<Rightarrow> fetch_state
       \<Rightarrow> fetch_error + ('prog open_capture option \<times> fetch_state)" where
  "open_group_file env m path s =
     (case lp_open env path of
        Inl err \<Rightarrow>
          (if fd_exhausted err then Inl (Io (show_path path @ '': '' @ show_causes err))
           else Inr (None, s\<lparr>ft_stats :=
                  (ft_stats s)\<lparr>fs_files_vanished := fs_files_vanished (ft_stats s) + 1\<rparr>\<rparr>))
      | Inr capture \<Rightarrow>
          (let stats = (ft_stats s)\<lparr>fs_files_scanned := fs_files_scanned (ft_stats s) + 1\<rparr>;
               lt = cp_linktype capture;
               stats = (if fs_linktype stats = None then stats\<lparr>fs_linktype := Some lt\<rparr> else stats);
               (program, tracker) = file_program env m lt (ft_tracker s);
               s = s\<lparr>ft_stats := stats, ft_tracker := tracker\<rparr>
           in case program of
                None \<Rightarrow> Inr (None, s)
              | Some filter_program \<Rightarrow>
                  Inr (Some \<lparr>oc_packets = cp_packets capture, oc_end = cp_end capture,
                         oc_linktype = lt, oc_program = filter_program, oc_path = path\<rparr>, s)))"

section \<open>Cursors\<close>

text \<open>The time gate; a timestamp that does not fit is not in any window.\<close>

definition gated_in :: "matcher \<Rightarrow> packet \<Rightarrow> bool" where
  "gated_in m pkt =
     (if \<not> mt_gate m then True
      else case try_from_int (pk_sec pkt) of
             None \<Rightarrow> False
           | Some secs \<Rightarrow>
               (case try_from_int (pk_usec pkt) of
                  None \<Rightarrow> False
                | Some micros \<Rightarrow>
                    (case Option.bind (checked_mul secs 1000000) (\<lambda>ts. checked_add ts micros) of
                       None \<Rightarrow> False
                     | Some timestamp \<Rightarrow> mt_start m \<le> timestamp \<and> timestamp \<le> mt_end m)))"

definition program_accepts :: "'prog fetch_env \<Rightarrow> 'prog option \<Rightarrow> packet \<Rightarrow> bool" where
  "program_accepts env program pkt =
     (case program of None \<Rightarrow> True | Some prog \<Rightarrow> lp_matches env prog pkt)"

definition wanted :: "'prog fetch_env \<Rightarrow> matcher \<Rightarrow> 'prog option \<Rightarrow> packet \<Rightarrow> bool" where
  "wanted env m program pkt \<longleftrightarrow> gated_in m pkt \<and> program_accepts env program pkt"

definition pending_of :: "u32 \<Rightarrow> packet \<Rightarrow> pending_packet" where
  "pending_of lt pkt = \<lparr>pp_ts_micros = ts_micros pkt, pp_packet = pkt, pp_linktype = lt\<rparr>"

text \<open>The loop of \<open>refill\<close>: every turn closes a file, opens one, or reads a packet.\<close>

function refill ::
    "'prog fetch_env \<Rightarrow> fetch_limits \<Rightarrow> matcher \<Rightarrow> 'prog group_cursor \<Rightarrow> fetch_state
       \<Rightarrow> fetch_error + ('prog group_cursor \<times> fetch_state)" where
  "refill env limits m c s =
     (let (ok, s) = live env limits s
      in if \<not> ok then Inr (c, s)
         else case maybe_flush env limits s of
                Inl e \<Rightarrow> Inl e
              | Inr s \<Rightarrow>
                  (case gc_open c of
                     None \<Rightarrow>
                       (case gc_files c of
                          [] \<Rightarrow> Inr (c, s)
                        | path # files \<Rightarrow>
                            (case open_group_file env m path s of
                               Inl e \<Rightarrow> Inl e
                             | Inr (oc, s) \<Rightarrow>
                                 refill env limits m (c\<lparr>gc_files := files, gc_open := oc\<rparr>) s))
                   | Some oc \<Rightarrow>
                       (case oc_packets oc of
                          [] \<Rightarrow> refill env limits m (c\<lparr>gc_open := None\<rparr>) s
                        | pkt # pkts \<Rightarrow>
                            (let c = c\<lparr>gc_open := Some (oc\<lparr>oc_packets := pkts\<rparr>)\<rparr>
                             in if wanted env m (oc_program oc) pkt
                                then Inr (c\<lparr>gc_pending := Some (pending_of (oc_linktype oc) pkt)\<rparr>, s)
                                else refill env limits m c s))))"
  by pat_completeness auto

termination
  by (relation "(\<lambda>(env, limits, m, c, s). length (gc_files c)) <*mlex*>
      measure (\<lambda>(env, limits, m, c, s).
        case gc_open c of None \<Rightarrow> 0 | Some oc \<Rightarrow> Suc (length (oc_packets oc)))")
    (auto simp: mlex_prod_def)

declare refill.simps [simp del]

definition skip_current_file :: "'prog group_cursor \<Rightarrow> 'prog group_cursor" where
  "skip_current_file c = c\<lparr>gc_open := None\<rparr>"

section \<open>The merge heap\<close>

text \<open>A heap entry orders by timestamp, then by group index, the order of the code's pairs.\<close>

datatype heap_key = Heap_Key (hk_ts: u64) (hk_index: nat)

instantiation heap_key :: linorder
begin

definition less_eq_heap_key :: "heap_key \<Rightarrow> heap_key \<Rightarrow> bool" where
  "a \<le> b \<longleftrightarrow> hk_ts a < hk_ts b \<or> hk_ts a = hk_ts b \<and> hk_index a \<le> hk_index b"

definition less_heap_key :: "heap_key \<Rightarrow> heap_key \<Rightarrow> bool" where
  "a < b \<longleftrightarrow> hk_ts a < hk_ts b \<or> hk_ts a = hk_ts b \<and> hk_index a < hk_index b"

instance
  by standard (auto simp: less_eq_heap_key_def less_heap_key_def intro: heap_key.expand)

end

text \<open>What the merge needs of its heap: \<open>pop\<close> takes out a smallest entry.\<close>

locale priority_queue =
  fixes push :: "'k::linorder \<Rightarrow> 'q \<Rightarrow> 'q"
    and pop :: "'q \<Rightarrow> ('k \<times> 'q) option"
    and elems :: "'q \<Rightarrow> 'k multiset"
    and ok :: "'q \<Rightarrow> bool"
  assumes ok_push: "ok q \<Longrightarrow> ok (push k q)"
    and elems_push: "ok q \<Longrightarrow> elems (push k q) = add_mset k (elems q)"
    and pop_None: "ok q \<Longrightarrow> pop q = None \<Longrightarrow> elems q = {#}"
    and pop_Some: "ok q \<Longrightarrow> pop q = Some (k, q') \<Longrightarrow>
      ok q' \<and> elems q = add_mset k (elems q') \<and> (\<forall>x \<in># elems q'. k \<le> x)"
begin

lemma pop_min: "ok q \<Longrightarrow> pop q = Some (k, q') \<Longrightarrow> x \<in># elems q \<Longrightarrow> k \<le> x"
  using pop_Some by fastforce

lemma pop_member: "ok q \<Longrightarrow> pop q = Some (k, q') \<Longrightarrow> k \<in># elems q"
  using pop_Some by fastforce

end

text \<open>The heap as the ascending list of its entries.\<close>

definition heap_push :: "heap_key \<Rightarrow> heap_key list \<Rightarrow> heap_key list" where
  "heap_push k h = insort k h"

definition heap_pop :: "heap_key list \<Rightarrow> (heap_key \<times> heap_key list) option" where
  "heap_pop h = (case h of [] \<Rightarrow> None | k # h' \<Rightarrow> Some (k, h'))"

interpretation hq: priority_queue heap_push heap_pop mset sorted
  by unfold_locales (auto simp: heap_push_def heap_pop_def sorted_insort split: list.splits)

section \<open>The merge\<close>

record 'prog merge_state =
  ms_cursors :: "'prog group_cursor list"
  ms_heap :: "heap_key list"
  ms_linktype :: "u32 option"
  ms_fetch :: fetch_state

datatype merge_turn = Next_Turn | Break_Turn | Return_Turn

text \<open>Pushing a cursor's pending packet, when it has one.\<close>

definition push_pending :: "nat \<Rightarrow> 'prog group_cursor \<Rightarrow> heap_key list \<Rightarrow> heap_key list" where
  "push_pending index c h =
     (case gc_pending c of None \<Rightarrow> h | Some p \<Rightarrow> heap_push (Heap_Key (pp_ts_micros p) index) h)"

fun fill_cursors ::
    "'prog fetch_env \<Rightarrow> fetch_limits \<Rightarrow> matcher \<Rightarrow> nat \<Rightarrow> 'prog group_cursor list \<Rightarrow> heap_key list
       \<Rightarrow> fetch_state \<Rightarrow> fetch_error + ('prog group_cursor list \<times> heap_key list \<times> fetch_state)" where
  "fill_cursors env limits m index [] h s = Inr ([], h, s)"
| "fill_cursors env limits m index (c # cs) h s =
     (case refill env limits m c s of
        Inl e \<Rightarrow> Inl e
      | Inr (c', s') \<Rightarrow>
          (case fill_cursors env limits m (Suc index) cs (push_pending index c' h) s' of
             Inl e \<Rightarrow> Inl e
           | Inr (cs', h', s'') \<Rightarrow> Inr (c' # cs', h', s'')))"

text \<open>Dropping, refusing or writing the popped packet; \<open>False\<close> when the byte limit ends the
  fetch.\<close>

definition emit ::
    "'prog fetch_env \<Rightarrow> fetch_limits \<Rightarrow> pending_packet \<Rightarrow> 'prog group_cursor \<Rightarrow> u32 option
       \<Rightarrow> fetch_state \<Rightarrow> fetch_error + (bool \<times> 'prog group_cursor \<times> u32 option \<times> fetch_state)" where
  "emit env limits p c out_lt s =
     (if out_lt \<noteq> None \<and> out_lt \<noteq> Some (pp_linktype p)
      then Inr (True, skip_current_file c, out_lt, s)
      else if saturating_add (fs_bytes (ft_stats s))
                (next_write_size (ft_writer s) (length (pk_data (pp_packet p)))) > fl_max_bytes limits
      then Inr (False, c, out_lt, s\<lparr>ft_stats := (ft_stats s)\<lparr>fs_truncated := True\<rparr>\<rparr>)
      else
        (let (write_started, s) = read_clock env s
         in case write_packet (io_write env) (pp_linktype p) (pp_packet p) (ft_writer s) of
              Inl e \<Rightarrow> Inl (Io e)
            | Inr w \<Rightarrow>
                (let (written, s) = read_clock env s;
                     stats = (ft_stats s)\<lparr>fs_bytes := bytes_written w,
                               fs_packets := fs_packets (ft_stats s) + 1\<rparr>
                 in Inr (True, c, Some (pp_linktype p),
                      s\<lparr>ft_write_credit := ft_write_credit s + (written - write_started),
                        ft_writer := w, ft_stats := stats\<rparr>))))"

text \<open>One turn of the \<open>while\<close> loop, after the pop.\<close>

definition merge_step ::
    "'prog fetch_env \<Rightarrow> fetch_limits \<Rightarrow> matcher \<Rightarrow> nat \<Rightarrow> 'prog merge_state
       \<Rightarrow> fetch_fault + (merge_turn \<times> 'prog merge_state)" where
  "merge_step env limits m index ms =
     (let (ok, s) = live env limits (ms_fetch ms)
      in if \<not> ok then Inr (Break_Turn, ms\<lparr>ms_fetch := s\<rparr>)
         else case maybe_flush env limits s of
                Inl e \<Rightarrow> Inl (Failed e)
              | Inr s \<Rightarrow>
                  (if length (ms_cursors ms) \<le> index then Inl Panicked
                   else case gc_pending (ms_cursors ms ! index) of
                     None \<Rightarrow> Inl Panicked
                   | Some p \<Rightarrow>
                       (case emit env limits p ((ms_cursors ms ! index)\<lparr>gc_pending := None\<rparr>)
                               (ms_linktype ms) s of
                          Inl e \<Rightarrow> Inl (Failed e)
                        | Inr (False, c, lt, s) \<Rightarrow>
                            Inr (Return_Turn, ms\<lparr>ms_cursors := (ms_cursors ms)[index := c],
                                   ms_linktype := lt, ms_fetch := s\<rparr>)
                        | Inr (True, c, lt, s) \<Rightarrow>
                            (case refill env limits m c s of
                               Inl e \<Rightarrow> Inl (Failed e)
                             | Inr (c, s) \<Rightarrow>
                                 Inr (Next_Turn,
                                   ms\<lparr>ms_cursors := (ms_cursors ms)[index := c],
                                     ms_heap := push_pending index c (ms_heap ms),
                                     ms_linktype := lt, ms_fetch := s\<rparr>)))))"

section \<open>What a cursor still holds\<close>

text \<open>The specification of the scan: the packets of a file that pass the gate and the file's
  filter, and those a cursor has yet to deliver.\<close>

definition file_stream :: "'prog fetch_env \<Rightarrow> matcher \<Rightarrow> path \<Rightarrow> pending_packet list" where
  "file_stream env m path =
     (case lp_open env path of
        Inl _ \<Rightarrow> []
      | Inr cap \<Rightarrow>
          (case fst (file_program env m (cp_linktype cap) \<lparr>bt_compiled_any = False, bt_first_error = None\<rparr>) of
             None \<Rightarrow> []
           | Some program \<Rightarrow>
               map (pending_of (cp_linktype cap)) (filter (wanted env m program) (cp_packets cap))))"

definition open_stream :: "'prog fetch_env \<Rightarrow> matcher \<Rightarrow> 'prog open_capture option \<Rightarrow> pending_packet list" where
  "open_stream env m co =
     (case co of None \<Rightarrow> []
      | Some oc \<Rightarrow> map (pending_of (oc_linktype oc)) (filter (wanted env m (oc_program oc)) (oc_packets oc)))"

definition cursor_stream :: "'prog fetch_env \<Rightarrow> matcher \<Rightarrow> 'prog group_cursor \<Rightarrow> pending_packet list" where
  "cursor_stream env m c =
     (case gc_pending c of None \<Rightarrow> [] | Some p \<Rightarrow> [p])
     @ open_stream env m (gc_open c) @ concat (map (file_stream env m) (gc_files c))"

text \<open>A cancelled state comes from the token.\<close>

definition stop_ok :: "'prog fetch_env \<Rightarrow> fetch_state \<Rightarrow> bool" where
  "stop_ok env s \<longleftrightarrow> (ft_stopped s = Some Cancelled \<longrightarrow> (\<exists>n. is_cancelled env n))"

lemma live_stop_ok: "live env limits s = (ok, s') \<Longrightarrow> stop_ok env s \<Longrightarrow> stop_ok env s'"
  by (auto simp: live_def read_clock_def Let_def stop_ok_def split: if_splits option.splits)

lemma live_frame:
  assumes "live env limits s = (ok, s')"
  shows "ft_writer s' = ft_writer s" "ft_stats s' = ft_stats s" "ft_tracker s' = ft_tracker s"
    and "ok \<longleftrightarrow> ft_stopped s' = None" and "ft_stopped s \<noteq> None \<Longrightarrow> s' = s"
  using assms
  by (auto simp: live_def read_clock_def Let_def split: if_splits option.splits)

lemma maybe_flush_frame:
  assumes "maybe_flush env limits s = Inr s'"
  shows "ft_writer s' = ft_writer s" "ft_stats s' = ft_stats s" "ft_tracker s' = ft_tracker s"
    and "ft_stopped s' = ft_stopped s"
  using assms
  by (auto simp: maybe_flush_def read_clock_def Let_def split: if_splits option.splits)

lemma file_program_fst: "fst (file_program env m lt t) = fst (file_program env m lt t')"
  by (auto simp: file_program_def split: option.splits sum.splits)

lemma open_group_file_stream:
  assumes "open_group_file env m path s = Inr (co, s')"
  shows "open_stream env m co = file_stream env m path"
proof -
  have "fst (file_program env m lt (ft_tracker s))
      = fst (file_program env m lt \<lparr>bt_compiled_any = False, bt_first_error = None\<rparr>)" for lt
    by (rule file_program_fst)
  with assms show ?thesis
    by (auto simp: open_group_file_def file_stream_def open_stream_def Let_def case_prod_unfold
        split: sum.splits if_splits option.splits)
qed

text \<open>The part of the state only the writing of packets changes.\<close>

definition output_of :: "fetch_state \<Rightarrow> pcap_writer \<times> u64 \<times> u64 \<times> bool" where
  "output_of s = (ft_writer s, fs_bytes (ft_stats s), fs_packets (ft_stats s), fs_truncated (ft_stats s))"

lemma open_group_file_frame:
  assumes "open_group_file env m path s = Inr (co, s')"
  shows "output_of s' = output_of s" "ft_stopped s' = ft_stopped s"
  using assms
  by (auto simp: open_group_file_def output_of_def Let_def
      split: sum.splits if_splits option.splits prod.splits)

lemma refill_spec:
  assumes "refill env limits m c s = Inr (c', s')"
  shows "output_of s' = output_of s \<and> (ft_stopped s \<noteq> None \<longrightarrow> ft_stopped s' \<noteq> None) \<and>
    (stop_ok env s \<longrightarrow> stop_ok env s') \<and>
    (gc_pending c = None \<longrightarrow> cursor_stream env m c' = cursor_stream env m c
       \<and> (gc_pending c' = None \<longrightarrow> ft_stopped s' = None \<longrightarrow> cursor_stream env m c' = []))"
  using assms
proof (induction env limits m c s arbitrary: c' s' rule: refill.induct)
  case (1 env limits m c s)
  obtain ok s1 where l: "live env limits s = (ok, s1)" by fastforce
  note lf = live_frame [OF l] and ls = live_stop_ok [OF l]
  show ?case
  proof (cases ok)
    case False
    with 1(4) l lf ls show ?thesis
      by (subst (asm) refill.simps) (auto simp: output_of_def)
  next
    case True
    obtain s2 where f: "maybe_flush env limits s1 = Inr s2"
      using 1(4) l True by (subst (asm) refill.simps) (auto split: sum.splits)
    note ff = maybe_flush_frame [OF f]
    have s2: "output_of s2 = output_of s" "ft_stopped s \<noteq> None \<longrightarrow> ft_stopped s2 \<noteq> None"
      "stop_ok env s \<longrightarrow> stop_ok env s2"
      using lf ls ff by (auto simp: output_of_def stop_ok_def)
    show ?thesis
    proof (cases "gc_open c")
      case None
      show ?thesis
      proof (cases "gc_files c")
        case Nil
        with 1(4) l True f None s2 show ?thesis
          by (subst (asm) refill.simps) (auto simp: cursor_stream_def open_stream_def)
      next
        case (Cons path files)
        obtain co s3 where o: "open_group_file env m path s2 = Inr (co, s3)"
          and r: "refill env limits m (c\<lparr>gc_files := files, gc_open := co\<rparr>) s3 = Inr (c', s')"
          using 1(4) l True f None Cons by (subst (asm) refill.simps) (auto split: sum.splits)
        from 1(1) [OF l [symmetric] refl _ f None Cons o refl r] True
        have ih: "output_of s' = output_of s3 \<and> (ft_stopped s3 \<noteq> None \<longrightarrow> ft_stopped s' \<noteq> None) \<and>
           (stop_ok env s3 \<longrightarrow> stop_ok env s') \<and>
           (gc_pending c = None \<longrightarrow> cursor_stream env m c' = cursor_stream env m (c\<lparr>gc_files := files, gc_open := co\<rparr>)
             \<and> (gc_pending c' = None \<longrightarrow> ft_stopped s' = None \<longrightarrow> cursor_stream env m c' = []))"
          by auto
        have "cursor_stream env m (c\<lparr>gc_files := files, gc_open := co\<rparr>) = cursor_stream env m c"
          using open_group_file_stream [OF o] None Cons by (simp add: cursor_stream_def open_stream_def)
        with ih s2 open_group_file_frame [OF o] show ?thesis by (auto simp: stop_ok_def)
      qed
    next
      case (Some oc)
      show ?thesis
      proof (cases "oc_packets oc")
        case Nil
        have r: "refill env limits m (c\<lparr>gc_open := None\<rparr>) s2 = Inr (c', s')"
          using 1(4) l True f Some Nil by (subst (asm) refill.simps) simp
        have "cursor_stream env m (c\<lparr>gc_open := None\<rparr>) = cursor_stream env m c"
          using Some Nil by (simp add: cursor_stream_def open_stream_def)
        with 1(2) [OF l [symmetric] refl _ f Some Nil r] True s2 show ?thesis by auto
      next
        case (Cons pkt pkts)
        show ?thesis
        proof (cases "wanted env m (oc_program oc) pkt")
          case True
          with 1(4) l \<open>ok\<close> f Some Cons s2 show ?thesis
            by (subst (asm) refill.simps) (auto simp: cursor_stream_def open_stream_def)
        next
          case False
          let ?c = "c\<lparr>gc_open := Some (oc\<lparr>oc_packets := pkts\<rparr>)\<rparr>"
          have r: "refill env limits m ?c s2 = Inr (c', s')"
            using 1(4) l \<open>ok\<close> f Some Cons False by (subst (asm) refill.simps) simp
          have "cursor_stream env m ?c = cursor_stream env m c"
            using Some Cons False by (simp add: cursor_stream_def open_stream_def)
          with 1(3) [OF l [symmetric] refl _ f Some Cons refl False r] \<open>ok\<close> s2
          show ?thesis by auto
        qed
      qed
    qed
  qed
qed

section \<open>One turn of the merge\<close>

text \<open>A turn either skips the packet and the rest of its file (another link type), or writes it
  and keeps exactly the rest of the stream.\<close>

definition skips ::
    "'prog fetch_env \<Rightarrow> matcher \<Rightarrow> pending_packet \<Rightarrow> 'prog group_cursor \<Rightarrow> 'prog group_cursor
       \<Rightarrow> u32 option \<Rightarrow> u32 option \<Rightarrow> fetch_state \<Rightarrow> fetch_state \<Rightarrow> bool" where
  "skips env m p c c' lt lt' s s' \<longleftrightarrow>
     lt \<noteq> None \<and> lt \<noteq> Some (pp_linktype p) \<and> lt' = lt \<and> output_of s' = output_of s
     \<and> (\<exists>ys. cursor_stream env m c = p # ys @ cursor_stream env m c')"

definition writes ::
    "'prog fetch_env \<Rightarrow> fetch_limits \<Rightarrow> matcher \<Rightarrow> pending_packet \<Rightarrow> 'prog group_cursor \<Rightarrow> 'prog group_cursor
       \<Rightarrow> u32 option \<Rightarrow> u32 option \<Rightarrow> fetch_state \<Rightarrow> fetch_state \<Rightarrow> bool" where
  "writes env limits m p c c' lt lt' s s' \<longleftrightarrow>
     (lt = None \<or> lt = Some (pp_linktype p)) \<and> lt' = Some (pp_linktype p)
     \<and> saturating_add (fs_bytes (ft_stats s))
         (next_write_size (ft_writer s) (length (pk_data (pp_packet p)))) \<le> fl_max_bytes limits
     \<and> write_packet (io_write env) (pp_linktype p) (pp_packet p) (ft_writer s) = Inr (ft_writer s')
     \<and> output_of s' = (ft_writer s', bytes_written (ft_writer s'), fs_packets (ft_stats s) + 1,
         fs_truncated (ft_stats s))
     \<and> cursor_stream env m c = p # cursor_stream env m c'"

lemma emit_True:
  assumes "emit env limits p (c\<lparr>gc_pending := None\<rparr>) lt s = Inr (True, c', lt', s')"
    and "gc_pending c = Some p"
  shows "(skips env m p c c' lt lt' s s' \<or> writes env limits m p c c' lt lt' s s') \<and> gc_pending c' = None"
proof (cases "lt \<noteq> None \<and> lt \<noteq> Some (pp_linktype p)")
  case True
  with assms have "skips env m p c c' lt lt' s s' \<and> gc_pending c' = None"
    by (auto simp: emit_def skips_def skip_current_file_def cursor_stream_def open_stream_def)
  then show ?thesis by blast
next
  case False
  with assms have "writes env limits m p c c' lt lt' s s' \<and> gc_pending c' = None"
    by (auto simp: emit_def writes_def read_clock_def output_of_def Let_def cursor_stream_def
        split: if_splits sum.splits)
  then show ?thesis by blast
qed

lemma emit_False:
  assumes "emit env limits p c lt s = Inr (False, c', lt', s')"
  shows "lt' = lt" "ft_writer s' = ft_writer s" "fs_bytes (ft_stats s') = fs_bytes (ft_stats s)"
    "fs_packets (ft_stats s') = fs_packets (ft_stats s)" "fs_truncated (ft_stats s')"
  using assms
  by (auto simp: emit_def read_clock_def Let_def split: if_splits sum.splits)

lemma emit_stop_ok:
  "emit env limits p c lt s = Inr (b, c', lt', s') \<Longrightarrow> stop_ok env s \<Longrightarrow> stop_ok env s'"
  by (auto simp: emit_def read_clock_def Let_def stop_ok_def split: if_splits sum.splits)

lemma writes_frame:
  assumes "output_of s1 = output_of s" and "output_of s3 = output_of s2"
    and "cursor_stream env m c2 = cursor_stream env m c1"
  shows "writes env limits m p c c1 lt lt' s1 s2 \<longleftrightarrow> writes env limits m p c c2 lt lt' s s3"
    and "skips env m p c c1 lt lt' s1 s2 \<longleftrightarrow> skips env m p c c2 lt lt' s s3"
  using assms by (auto simp: writes_def skips_def output_of_def)

lemma merge_step_next:
  assumes "merge_step env limits m i ms = Inr (Next_Turn, ms')"
  shows "\<exists>p c'. i < length (ms_cursors ms) \<and> gc_pending (ms_cursors ms ! i) = Some p
    \<and> ms_cursors ms' = (ms_cursors ms)[i := c'] \<and> ms_heap ms' = push_pending i c' (ms_heap ms)
    \<and> (gc_pending c' = None \<longrightarrow> ft_stopped (ms_fetch ms') = None \<longrightarrow> cursor_stream env m c' = [])
    \<and> ft_stopped (ms_fetch ms) = None \<and> stop_ok env (ms_fetch ms')
    \<and> (skips env m p (ms_cursors ms ! i) c' (ms_linktype ms) (ms_linktype ms') (ms_fetch ms) (ms_fetch ms')
       \<or> writes env limits m p (ms_cursors ms ! i) c' (ms_linktype ms) (ms_linktype ms') (ms_fetch ms) (ms_fetch ms'))"
proof -
  let ?c = "ms_cursors ms ! i"
  obtain s1 where l: "live env limits (ms_fetch ms) = (True, s1)"
    using assms by (cases "live env limits (ms_fetch ms)") (auto simp: merge_step_def split: if_splits)
  obtain s2 where f: "maybe_flush env limits s1 = Inr s2"
    using assms l by (auto simp: merge_step_def split: sum.splits)
  have i: "i < length (ms_cursors ms)"
    using assms l f by (auto simp: merge_step_def split: if_splits)
  obtain p where p: "gc_pending ?c = Some p"
    using assms l f i by (auto simp: merge_step_def split: option.splits)
  obtain c1 lt s3 where e: "emit env limits p (?c\<lparr>gc_pending := None\<rparr>) (ms_linktype ms) s2 = Inr (True, c1, lt, s3)"
    using assms l f i p by (auto simp: merge_step_def split: sum.splits bool.splits)
  obtain c2 s4 where r: "refill env limits m c1 s3 = Inr (c2, s4)"
    using assms l f i p e by (auto simp: merge_step_def split: sum.splits)
  have ms': "ms_cursors ms' = (ms_cursors ms)[i := c2]" "ms_heap ms' = push_pending i c2 (ms_heap ms)"
      "ms_linktype ms' = lt" "ms_fetch ms' = s4"
    using assms l f i p e r by (auto simp: merge_step_def)
  have s2: "output_of s2 = output_of (ms_fetch ms)" "ft_stopped (ms_fetch ms) = None"
    using live_frame [OF l] maybe_flush_frame [OF f]
    by (auto simp: output_of_def) (cases "ft_stopped (ms_fetch ms)"; simp)
  have e': "skips env m p ?c c1 (ms_linktype ms) lt s2 s3 \<or> writes env limits m p ?c c1 (ms_linktype ms) lt s2 s3"
      and none: "gc_pending c1 = None"
    using emit_True [OF e p] by auto
  note rs = refill_spec [OF r, unfolded none, simplified]
  have "stop_ok env s2"
    using live_frame [OF l] maybe_flush_frame [OF f] by (simp add: stop_ok_def)
  then have stop: "stop_ok env s4" using emit_stop_ok [OF e] rs by blast
  have "skips env m p ?c c2 (ms_linktype ms) lt (ms_fetch ms) s4
      \<or> writes env limits m p ?c c2 (ms_linktype ms) lt (ms_fetch ms) s4"
    using e' writes_frame [OF s2(1), where ?s3.0 = s4 and ?s2.0 = s3 and ?c2.0 = c2 and ?c1.0 = c1] rs
    by blast
  with i p ms' rs s2 stop show ?thesis by auto
qed

lemma merge_step_stops:
  assumes "merge_step env limits m i ms = Inr (t, ms')" and "t \<noteq> Next_Turn"
  shows "ms_linktype ms' = ms_linktype ms" "ft_writer (ms_fetch ms') = ft_writer (ms_fetch ms)"
    "fs_bytes (ft_stats (ms_fetch ms')) = fs_bytes (ft_stats (ms_fetch ms))"
    "fs_packets (ft_stats (ms_fetch ms')) = fs_packets (ft_stats (ms_fetch ms))"
    "t = Return_Turn \<longrightarrow> fs_truncated (ft_stats (ms_fetch ms'))"
    "t = Break_Turn \<longrightarrow> ft_stopped (ms_fetch ms') \<noteq> None
       \<and> fs_truncated (ft_stats (ms_fetch ms')) = fs_truncated (ft_stats (ms_fetch ms))"
    "stop_ok env (ms_fetch ms) \<longrightarrow> stop_ok env (ms_fetch ms')"
proof -
  obtain ok s1 where l: "live env limits (ms_fetch ms) = (ok, s1)" by fastforce
  note lf = live_frame [OF l]
  have "ms_linktype ms' = ms_linktype ms \<and> ft_writer (ms_fetch ms') = ft_writer (ms_fetch ms)
    \<and> fs_bytes (ft_stats (ms_fetch ms')) = fs_bytes (ft_stats (ms_fetch ms))
    \<and> fs_packets (ft_stats (ms_fetch ms')) = fs_packets (ft_stats (ms_fetch ms))
    \<and> (t = Return_Turn \<longrightarrow> fs_truncated (ft_stats (ms_fetch ms')))
    \<and> (t = Break_Turn \<longrightarrow> ft_stopped (ms_fetch ms') \<noteq> None
       \<and> fs_truncated (ft_stats (ms_fetch ms')) = fs_truncated (ft_stats (ms_fetch ms)))
    \<and> (stop_ok env (ms_fetch ms) \<longrightarrow> stop_ok env (ms_fetch ms'))"
  proof (cases ok)
    case False
    with assms l lf live_stop_ok [OF l] show ?thesis by (auto simp: merge_step_def)
  next
    case True
    then obtain s2 where f: "maybe_flush env limits s1 = Inr s2"
      using assms l by (auto simp: merge_step_def split: sum.splits)
    from assms l f True obtain p c lt s3 where
      e: "emit env limits p ((ms_cursors ms ! i)\<lparr>gc_pending := None\<rparr>) (ms_linktype ms) s2 = Inr (False, c, lt, s3)"
      and ms': "ms' = ms\<lparr>ms_cursors := (ms_cursors ms)[i := c], ms_linktype := lt, ms_fetch := s3\<rparr>"
        "t = Return_Turn"
      by (auto simp: merge_step_def split: sum.splits if_splits option.splits bool.splits)
    from emit_False [OF e] emit_stop_ok [OF e] ms' lf maybe_flush_frame [OF f] True show ?thesis
      by (auto simp: stop_ok_def)
  qed
  then show "ms_linktype ms' = ms_linktype ms" "ft_writer (ms_fetch ms') = ft_writer (ms_fetch ms)"
    "fs_bytes (ft_stats (ms_fetch ms')) = fs_bytes (ft_stats (ms_fetch ms))"
    "fs_packets (ft_stats (ms_fetch ms')) = fs_packets (ft_stats (ms_fetch ms))"
    "t = Return_Turn \<longrightarrow> fs_truncated (ft_stats (ms_fetch ms'))"
    "t = Break_Turn \<longrightarrow> ft_stopped (ms_fetch ms') \<noteq> None
       \<and> fs_truncated (ft_stats (ms_fetch ms')) = fs_truncated (ft_stats (ms_fetch ms))"
    "stop_ok env (ms_fetch ms) \<longrightarrow> stop_ok env (ms_fetch ms')"
    by blast+
qed

text \<open>The number of packets the cursors still hold bounds the turns of the loop.\<close>

definition pending_total :: "'prog fetch_env \<Rightarrow> matcher \<Rightarrow> 'prog merge_state \<Rightarrow> nat" where
  "pending_total env m ms = sum_list (map (length \<circ> cursor_stream env m) (ms_cursors ms))"

lemma sum_list_update_less:
  "i < length xs \<Longrightarrow> f y < f (xs ! i) \<Longrightarrow> sum_list (map f (xs[i := y])) < (sum_list (map f xs) :: nat)"
  by (induction xs arbitrary: i) (auto split: nat.splits simp: nth_Cons)

lemma merge_step_decreases:
  "merge_step env limits m i ms = Inr (Next_Turn, ms') \<Longrightarrow> pending_total env m ms' < pending_total env m ms"
  by (drule merge_step_next)
    (auto simp: pending_total_def skips_def writes_def intro!: sum_list_update_less)

function merge_loop ::
    "'prog fetch_env \<Rightarrow> fetch_limits \<Rightarrow> matcher \<Rightarrow> 'prog merge_state
       \<Rightarrow> fetch_fault + (bool \<times> 'prog merge_state)" where
  "merge_loop env limits m ms =
     (case heap_pop (ms_heap ms) of
        None \<Rightarrow> Inr (False, ms)
      | Some (key, h) \<Rightarrow>
          (case merge_step env limits m (hk_index key) (ms\<lparr>ms_heap := h\<rparr>) of
             Inl e \<Rightarrow> Inl e
           | Inr (Next_Turn, ms') \<Rightarrow> merge_loop env limits m ms'
           | Inr (Break_Turn, ms') \<Rightarrow> Inr (False, ms')
           | Inr (Return_Turn, ms') \<Rightarrow> Inr (True, ms')))"
  by pat_completeness auto

termination
proof (relation "measure (\<lambda>(env, limits, m, ms). pending_total env m ms)", goal_cases)
  case 1
  show ?case by simp
next
  case (2 env limits m ms x key h y t ms')
  then show ?case
    using merge_step_decreases [of env limits m "hk_index key" "ms\<lparr>ms_heap := h\<rparr>" ms']
    by (simp add: pending_total_def)
qed

declare merge_loop.simps [simp del]

section \<open>The fetch\<close>

text \<open>The files of each cursor. The listing is the spool directory's tree.\<close>

definition fetch_groups ::
    "fs_dir \<Rightarrow> pcap_source \<Rightarrow> u64 \<Rightarrow> u64 \<Rightarrow> fetch_error + path list list" where
  "fetch_groups listing source start_us end_us =
     (case source of
        Spool spool \<Rightarrow>
          (case load_files spool listing start_us end_us of
             Inl e \<Rightarrow> Inl (Io e)
           | Inr (Some groups) \<Rightarrow> Inr (map (\<lambda>(_, files). map snd files) (sort_key fst groups))
           | Inr None \<Rightarrow>
               (case walk_files (sp_directory spool) (sp_prefix spool) listing of
                  Inl e \<Rightarrow> Inl (Io e)
                | Inr files \<Rightarrow> Inr [files]))
      | Files paths \<Rightarrow> Inr (map (\<lambda>path. [path]) paths))"

definition flow_expressions ::
    "'prog fetch_env \<Rightarrow> pcap_filter option \<Rightarrow> fetch_error + (string \<times> string) option" where
  "flow_expressions env filt =
     (case filt of
        Some (Flow selector) \<Rightarrow>
          (let base = to_bpf selector; wrapped = vlan_wrapped base
           in case lp_dead env of
                Some e \<Rightarrow> Inl (Format e)
              | None \<Rightarrow>
                  (case lp_compile env ETHERNET wrapped of
                     Inl e \<Rightarrow> Inl (Format e)
                   | Inr _ \<Rightarrow> Inr (Some (wrapped, base))))
      | _ \<Rightarrow> Inr None)"

definition request_start :: "pcap_request \<Rightarrow> u64" where
  "request_start rq = (case rq_start rq of Some t \<Rightarrow> t | None \<Rightarrow> 0)"

definition request_end :: "pcap_request \<Rightarrow> u64" where
  "request_end rq = (case rq_end rq of Some t \<Rightarrow> t | None \<Rightarrow> - 1)"

definition request_matcher :: "pcap_request \<Rightarrow> (string \<times> string) option \<Rightarrow> matcher" where
  "request_matcher rq flow =
     \<lparr>mt_expression = (case rq_filter rq of Some (Expression e) \<Rightarrow> Some e | _ \<Rightarrow> None),
      mt_flow_expressions = flow,
      mt_gate = (rq_start rq \<noteq> None \<or> rq_end rq \<noteq> None),
      mt_start = request_start rq, mt_end = request_end rq\<rparr>"

definition fetch_state_new :: fetch_state where
  "fetch_state_new = \<lparr>ft_stopped = None, ft_write_credit = 0, ft_last_flush = 0, ft_reading = 0,
     ft_stats = fetch_stats_default, ft_tracker = \<lparr>bt_compiled_any = False, bt_first_error = None\<rparr>,
     ft_writer = writer_new\<rparr>"

definition merge_groups ::
    "'prog fetch_env \<Rightarrow> fetch_limits \<Rightarrow> matcher \<Rightarrow> path list list
       \<Rightarrow> fetch_fault + (bool \<times> 'prog merge_state)" where
  "merge_groups env limits m groups =
     (case fill_cursors env limits m 0 (map cursor_new groups) [] fetch_state_new of
        Inl e \<Rightarrow> Inl (Failed e)
      | Inr (cursors, h, s) \<Rightarrow>
          merge_loop env limits m
            \<lparr>ms_cursors = cursors, ms_heap = h, ms_linktype = None, ms_fetch = s\<rparr>)"

text \<open>What the fetch reports once the loop is over.\<close>

definition fetch_verdict :: "matcher \<Rightarrow> fetch_state \<Rightarrow> fetch_error + fetch_stats" where
  "fetch_verdict m s =
     (let stats = ft_stats s
      in case ft_stopped s of
           Some Cancelled \<Rightarrow> Inr stats
         | Some Deadline \<Rightarrow> Inr (stats\<lparr>fs_truncated := True\<rparr>)
         | None \<Rightarrow>
             (if fs_packets stats = 0 \<and> \<not> fs_truncated stats
              then (if mt_expression m \<noteq> None \<and> \<not> bt_compiled_any (ft_tracker s)
                       \<and> bt_first_error (ft_tracker s) \<noteq> None
                    then Inl (Format (the (bt_first_error (ft_tracker s))))
                    else if fs_files_scanned stats = 0 then Inl NoCandidateFiles
                    else Inl (NoMatch stats))
              else Inr stats))"

text \<open>The whole fetch: its result and, when the merge ran to its end, the bytes in the output.\<close>

definition fetch ::
    "'prog fetch_env \<Rightarrow> fs_dir \<Rightarrow> pcap_source \<Rightarrow> pcap_request
       \<Rightarrow> (fetch_fault + fetch_stats) \<times> u8 list option" where
  "fetch env listing source rq =
     (case flow_expressions env (rq_filter rq) of
        Inl e \<Rightarrow> (Inl (Failed e), Some [])
      | Inr flow \<Rightarrow>
          (case fetch_groups listing source (request_start rq) (request_end rq) of
             Inl e \<Rightarrow> (Inl (Failed e), Some [])
           | Inr groups \<Rightarrow>
               (if list_all (\<lambda>files. files = []) groups then (Inl (Failed NoCandidateFiles), Some [])
                else
                  (let m = request_matcher rq flow
                   in case merge_groups env (rq_limits rq) m groups of
                        Inl e \<Rightarrow> (Inl e, None)
                      | Inr (returned, ms) \<Rightarrow>
                          (let s = ms_fetch ms; out = pw_out (ft_writer s)
                           in if returned then (Inr (ft_stats s), Some out)
                              else case fetch_verdict m s of
                                     Inl e \<Rightarrow> (Inl (Failed e), Some out)
                                   | Inr stats \<Rightarrow> (Inr stats, Some out))))))"

section \<open>Lemmas: the heap mirrors the cursors\<close>

definition heap_ok :: "'prog group_cursor list \<Rightarrow> heap_key list \<Rightarrow> bool" where
  "heap_ok cs h \<longleftrightarrow> sorted h \<and> distinct h \<and>
     (\<forall>k. k \<in> set h \<longleftrightarrow> hk_index k < length cs
        \<and> map_option pp_ts_micros (gc_pending (cs ! hk_index k)) = Some (hk_ts k))"

lemma heap_ok_pop:
  assumes "heap_ok cs h" and "heap_pop h = Some (k, h')"
  shows "\<exists>p. hk_index k < length cs \<and> gc_pending (cs ! hk_index k) = Some p \<and> hk_ts k = pp_ts_micros p
    \<and> (\<forall>j < length cs. \<forall>q. gc_pending (cs ! j) = Some q \<longrightarrow> pp_ts_micros p \<le> pp_ts_micros q)"
proof -
  have m: "k \<in> set h" using hq.pop_member [OF _ assms(2)] assms(1) by (simp add: heap_ok_def)
  then obtain p where p: "hk_index k < length cs" "gc_pending (cs ! hk_index k) = Some p"
      "hk_ts k = pp_ts_micros p"
    using assms(1) by (auto simp: heap_ok_def)
  have "pp_ts_micros p \<le> pp_ts_micros q" if "j < length cs" "gc_pending (cs ! j) = Some q" for j q
  proof -
    have "Heap_Key (pp_ts_micros q) j \<in> set h" using assms(1) that by (simp add: heap_ok_def)
    then have "k \<le> Heap_Key (pp_ts_micros q) j"
      using hq.pop_min [OF _ assms(2)] assms(1) by (simp add: heap_ok_def)
    then show ?thesis using p by (auto simp: less_eq_heap_key_def)
  qed
  with p show ?thesis by blast
qed

lemma set_push_pending:
  "x \<in> set (push_pending i c h) \<longleftrightarrow>
     x \<in> set h \<or> hk_index x = i \<and> map_option pp_ts_micros (gc_pending c) = Some (hk_ts x)"
  by (cases x) (auto simp: push_pending_def heap_push_def set_insort_key split: option.splits)

lemma sorted_push_pending: "sorted h \<Longrightarrow> sorted (push_pending i c h)"
  by (simp add: push_pending_def heap_push_def sorted_insort split: option.splits)

lemma distinct_push_pending:
  "distinct h \<Longrightarrow> (\<And>x. x \<in> set h \<Longrightarrow> hk_index x \<noteq> i) \<Longrightarrow> distinct (push_pending i c h)"
  by (force simp: push_pending_def heap_push_def distinct_insort split: option.splits)

lemma heap_ok_turn:
  assumes "heap_ok cs h" and "heap_pop h = Some (k, h')"
  shows "heap_ok (cs[hk_index k := c]) (push_pending (hk_index k) c h')"
proof -
  from assms have h: "h = k # h'" by (auto simp: heap_pop_def split: list.splits)
  have i: "hk_index k < length cs" using heap_ok_pop [OF assms] by blast
  have uniq: "x = k" if x: "x \<in> set h" "hk_index x = hk_index k" for x
  proof (rule heap_key.expand)
    have "k \<in> set h" using h by simp
    then have "map_option pp_ts_micros (gc_pending (cs ! hk_index k)) = Some (hk_ts k)"
      "map_option pp_ts_micros (gc_pending (cs ! hk_index x)) = Some (hk_ts x)"
      using assms(1) x(1) unfolding heap_ok_def by blast+
    with x(2) have "Some (hk_ts x) = Some (hk_ts k)" by metis
    then show "hk_ts x = hk_ts k \<and> hk_index x = hk_index k" using x by simp
  qed
  have rest: "x \<in> set h' \<longleftrightarrow> x \<in> set h \<and> hk_index x \<noteq> hk_index k" for x
  proof -
    have "k \<notin> set h'" using assms(1) h by (simp add: heap_ok_def)
    with uniq [of x] h show ?thesis by auto
  qed
  show ?thesis
    unfolding heap_ok_def
  proof (intro conjI allI)
    show "sorted (push_pending (hk_index k) c h')"
      using assms(1) h by (simp add: heap_ok_def sorted_push_pending)
    show "distinct (push_pending (hk_index k) c h')"
    proof (rule distinct_push_pending)
      show "distinct h'" using assms(1) h by (simp add: heap_ok_def)
      show "hk_index x \<noteq> hk_index k" if "x \<in> set h'" for x using rest that by blast
    qed
    show "x \<in> set (push_pending (hk_index k) c h') \<longleftrightarrow> hk_index x < length (cs[hk_index k := c])
        \<and> map_option pp_ts_micros (gc_pending (cs[hk_index k := c] ! hk_index x)) = Some (hk_ts x)" for x
    proof (cases "hk_index x = hk_index k")
      case True
      then show ?thesis using rest [of x] i by (simp add: set_push_pending)
    next
      case False
      have "x \<in> set h \<longleftrightarrow> hk_index x < length cs
          \<and> map_option pp_ts_micros (gc_pending (cs ! hk_index x)) = Some (hk_ts x)"
        using assms(1) unfolding heap_ok_def by blast
      with False show ?thesis using rest [of x] by (simp add: set_push_pending)
    qed
  qed
qed

lemma heap_ok_snoc:
  assumes "heap_ok cs h"
  shows "heap_ok (cs @ [c]) (push_pending (length cs) c h)"
  unfolding heap_ok_def
proof (intro conjI allI)
  have new: "hk_index x < length cs" if "x \<in> set h" for x
    using assms that unfolding heap_ok_def by blast
  show "sorted (push_pending (length cs) c h)"
    using assms by (simp add: heap_ok_def sorted_push_pending)
  show "distinct (push_pending (length cs) c h)"
  proof (rule distinct_push_pending)
    show "distinct h" using assms by (simp add: heap_ok_def)
    show "hk_index x \<noteq> length cs" if "x \<in> set h" for x using new [OF that] by simp
  qed
  show "x \<in> set (push_pending (length cs) c h) \<longleftrightarrow> hk_index x < length (cs @ [c])
      \<and> map_option pp_ts_micros (gc_pending ((cs @ [c]) ! hk_index x)) = Some (hk_ts x)" for x
  proof -
    have "x \<in> set h \<longleftrightarrow> hk_index x < length cs
        \<and> map_option pp_ts_micros (gc_pending (cs ! hk_index x)) = Some (hk_ts x)"
      using assms unfolding heap_ok_def by blast
    then show ?thesis by (auto simp: set_push_pending nth_append)
  qed
qed

section \<open>Lemmas: the output\<close>

definition stream_bytes :: "pending_packet list \<Rightarrow> u8 list" where
  "stream_bytes ws =
     (case ws of [] \<Rightarrow> []
      | w # _ \<Rightarrow> create_header (pp_linktype w) @ concat (map (encode_record \<circ> record_of \<circ> pp_packet) ws))"

definition first_linktype :: "pending_packet list \<Rightarrow> u32 option" where
  "first_linktype ws = (case ws of [] \<Rightarrow> None | w # _ \<Rightarrow> Some (pp_linktype w))"

text \<open>The state of the output after the packets \<open>ws\<close>.\<close>

definition output_ok :: "fetch_limits \<Rightarrow> pending_packet list \<Rightarrow> u32 option \<Rightarrow> fetch_state \<Rightarrow> bool" where
  "output_ok limits ws lt s \<longleftrightarrow>
     pw_out (ft_writer s) = stream_bytes ws \<and> writer_ok (ft_writer s)
     \<and> lt = first_linktype ws \<and> (\<forall>w \<in> set ws. Some (pp_linktype w) = lt)
     \<and> fs_bytes (ft_stats s) = bytes_written (ft_writer s)
     \<and> fs_packets (ft_stats s) = of_nat (length ws)
     \<and> fs_bytes (ft_stats s) \<le> fl_max_bytes limits
     \<and> (fl_max_bytes limits \<noteq> - 1 \<longrightarrow> (\<forall>w \<in> set ws. length (pk_data (pp_packet w)) < 2 ^ 32)
          \<longrightarrow> length (pw_out (ft_writer s)) = unat (fs_bytes (ft_stats s)))"

lemma saturating_add_le: "saturating_add a b \<le> c \<Longrightarrow> a + b \<le> c"
  for a b c :: "'a::len word"
proof -
  assume c: "saturating_add a b \<le> c"
  have "c = - 1 \<or> a + b \<le> c"
    using c word_order.extremum_unique [of c] by (auto simp: saturating_add_def split: if_splits)
  then show ?thesis by auto
qed

lemma saturating_add_exact:
  assumes "saturating_add a b \<le> c" and "c \<noteq> - 1"
  shows "unat (a + b) = unat a + unat (b :: 'a::len word)"
proof -
  have "saturating_add a b \<noteq> - 1" using assms word_order.extremum_unique by metis
  then have "unat a + unat b < 2 ^ LENGTH('a)"
    by (auto simp: saturating_add_def split: if_splits)
  then show ?thesis by (simp add: unat_add_lem [THEN iffD1])
qed

lemma stream_bytes_snoc:
  assumes "writer_ok w" and "pw_out w = stream_bytes ws"
    and "first_linktype ws = None \<or> first_linktype ws = Some (pp_linktype p)"
  shows "stream_bytes (ws @ [p]) =
    pw_out w @ header_due (pp_linktype p) w @ encode_record (record_of (pp_packet p))"
proof (cases ws)
  case Nil
  then show ?thesis
    using assms by (simp add: stream_bytes_def header_due_def writer_ok_def)
next
  case (Cons w0 ws')
  have "create_header lt \<noteq> []" for lt
    using create_header_length [of lt] by (metis list.size(3) zero_neq_numeral)
  with Cons assms show ?thesis
    by (simp add: stream_bytes_def header_due_def writer_ok_def)
qed

lemma output_ok_writes:
  assumes ok: "output_ok limits ws lt s" and w: "writes env limits m p c c' lt lt' s s'"
  shows "output_ok limits (ws @ [p]) lt' s'"
proof -
  let ?size = "next_write_size (ft_writer s) (length (pk_data (pp_packet p)))"
  have wp: "write_packet (io_write env) (pp_linktype p) (pp_packet p) (ft_writer s) = Inr (ft_writer s')"
    and lt': "lt' = Some (pp_linktype p)" "lt = None \<or> lt = Some (pp_linktype p)"
    and le: "saturating_add (fs_bytes (ft_stats s)) ?size \<le> fl_max_bytes limits"
    and out: "fs_bytes (ft_stats s') = bytes_written (ft_writer s')"
      "fs_packets (ft_stats s') = fs_packets (ft_stats s) + 1"
    using w by (auto simp: writes_def output_of_def)
  note wo = write_packet_ok [OF wp]
  have bytes: "fs_bytes (ft_stats s') = fs_bytes (ft_stats s) + ?size"
    using wo(2) out ok by (simp add: bytes_written_def output_ok_def)
  have stream: "pw_out (ft_writer s') = stream_bytes (ws @ [p])"
    using stream_bytes_snoc [of "ft_writer s" ws p] wo(1) ok lt' by (auto simp: output_ok_def)
  have len: "length (pw_out (ft_writer s')) = unat (fs_bytes (ft_stats s'))"
    if "fl_max_bytes limits \<noteq> - 1" "\<forall>w \<in> set (ws @ [p]). length (pk_data (pp_packet w)) < 2 ^ 32"
  proof -
    let ?chunk = "header_due (pp_linktype p) (ft_writer s) @ encode_record (record_of (pp_packet p))"
    have "length ?chunk < 2 ^ 64"
      using that(2) by (auto simp: header_due_def encode_record_length record_of_def)
    then have "unat (of_nat (length ?chunk) :: u64) = length ?chunk"
      by (simp only: unat_of_nat take_bit_nat_eq_self) simp
    then have "unat ?size = length ?chunk"
      by (simp only: next_write_size_length [of _ _ "pp_linktype p"])
    moreover have "length (pw_out (ft_writer s)) = unat (fs_bytes (ft_stats s))"
      using ok that by (auto simp: output_ok_def)
    ultimately show ?thesis
      using saturating_add_exact [OF le that(1)] bytes wo(1) by simp
  qed
  have lt: "lt = first_linktype ws" using ok unfolding output_ok_def by blast
  have "first_linktype (ws @ [p]) = Some (pp_linktype p)"
    using lt lt'(2) by (cases ws) (simp_all add: first_linktype_def)
  moreover have "\<forall>w \<in> set (ws @ [p]). Some (pp_linktype w) = lt'"
    using ok lt' unfolding output_ok_def by auto
  moreover have "writer_ok (ft_writer s')"
    using writer_ok_write [OF _ wp] ok by (simp add: output_ok_def)
  moreover have "fs_packets (ft_stats s') = of_nat (length (ws @ [p]))"
    using ok out(2) by (simp add: output_ok_def)
  ultimately show ?thesis
    using stream out(1) lt'(1) saturating_add_le [OF le] bytes len unfolding output_ok_def by metis
qed

lemma output_ok_frame:
  "output_ok limits ws lt s \<Longrightarrow> ft_writer s' = ft_writer s \<Longrightarrow> fs_bytes (ft_stats s') = fs_bytes (ft_stats s)
     \<Longrightarrow> fs_packets (ft_stats s') = fs_packets (ft_stats s) \<Longrightarrow> output_ok limits ws lt s'"
  unfolding output_ok_def by metis

section \<open>Lemmas: what is written\<close>

text \<open>Packets written and packets still held, against those the cursors held at the start; the
  sum is exact while no link type differs.\<close>

definition held :: "'prog fetch_env \<Rightarrow> matcher \<Rightarrow> 'prog group_cursor list \<Rightarrow> pending_packet multiset" where
  "held env m cs = sum_list (map (mset \<circ> cursor_stream env m) cs)"

definition content_ok ::
    "'prog fetch_env \<Rightarrow> matcher \<Rightarrow> pending_packet multiset \<Rightarrow> pending_packet list
       \<Rightarrow> 'prog group_cursor list \<Rightarrow> bool" where
  "content_ok env m stock ws cs \<longleftrightarrow>
     mset ws + held env m cs \<subseteq># stock
     \<and> ((\<exists>l. \<forall>p \<in># stock. pp_linktype p = l) \<longrightarrow> mset ws + held env m cs = stock)"

definition order_ok ::
    "'prog fetch_env \<Rightarrow> matcher \<Rightarrow> pending_packet list \<Rightarrow> 'prog group_cursor list \<Rightarrow> bool" where
  "order_ok env m ws cs \<longleftrightarrow>
     (\<forall>c \<in> set cs. sorted (map pp_ts_micros (cursor_stream env m c)))
     \<and> sorted (map pp_ts_micros ws)
     \<and> (\<forall>w \<in> set ws. \<forall>c \<in> set cs. \<forall>q \<in> set (cursor_stream env m c). pp_ts_micros w \<le> pp_ts_micros q)"

definition idle_ok :: "'prog fetch_env \<Rightarrow> matcher \<Rightarrow> fetch_state \<Rightarrow> 'prog group_cursor list \<Rightarrow> bool" where
  "idle_ok env m s cs \<longleftrightarrow>
     (ft_stopped s = None \<longrightarrow> (\<forall>c \<in> set cs. gc_pending c = None \<longrightarrow> cursor_stream env m c = []))"

definition merge_inv ::
    "'prog fetch_env \<Rightarrow> fetch_limits \<Rightarrow> matcher \<Rightarrow> pending_packet multiset \<Rightarrow> bool \<Rightarrow> pending_packet list
       \<Rightarrow> 'prog merge_state \<Rightarrow> bool" where
  "merge_inv env limits m stock srt ws ms \<longleftrightarrow>
     heap_ok (ms_cursors ms) (ms_heap ms) \<and> idle_ok env m (ms_fetch ms) (ms_cursors ms)
     \<and> output_ok limits ws (ms_linktype ms) (ms_fetch ms)
     \<and> content_ok env m stock ws (ms_cursors ms)
     \<and> (srt \<longrightarrow> order_ok env m ws (ms_cursors ms))
     \<and> \<not> fs_truncated (ft_stats (ms_fetch ms)) \<and> stop_ok env (ms_fetch ms)"

lemma held_empty: "(\<And>c. c \<in> set cs \<Longrightarrow> cursor_stream env m c = []) \<Longrightarrow> held env m cs = {#}"
  by (induction cs) (simp_all add: held_def)

lemma held_update:
  "i < length cs \<Longrightarrow> held env m cs = mset (cursor_stream env m (cs ! i)) + held env m (take i cs @ drop (Suc i) cs)"
  by (subst id_take_nth_drop [of i cs]) (simp_all add: held_def ac_simps)

lemma held_update_new:
  "i < length cs \<Longrightarrow>
     held env m (cs[i := c]) = mset (cursor_stream env m c) + held env m (take i cs @ drop (Suc i) cs)"
  by (simp add: held_def upd_conv_take_nth_drop ac_simps)

lemma content_ok_writes:
  assumes "content_ok env m stock ws cs" "i < length cs" "cursor_stream env m (cs ! i) = p # cursor_stream env m c"
  shows "content_ok env m stock (ws @ [p]) (cs[i := c])"
  using assms by (simp add: content_ok_def held_update held_update_new ac_simps)

lemma content_ok_skips:
  assumes ok: "content_ok env m stock ws cs" and i: "i < length cs"
    and st: "cursor_stream env m (cs ! i) = p # ys @ cursor_stream env m c"
    and w: "w \<in> set ws" "pp_linktype w \<noteq> pp_linktype p"
  shows "content_ok env m stock ws (cs[i := c])"
proof -
  have sub: "mset ws + held env m cs \<subseteq># stock" using ok by (simp add: content_ok_def)
  have h: "held env m cs = add_mset p (mset ys) + held env m (cs[i := c])"
    using i st by (simp add: held_update held_update_new ac_simps)
  have "w \<in># stock" "p \<in># stock"
    using sub w(1) by (auto intro: mset_subset_eqD [OF sub] simp: h)
  with w(2) have "\<not> (\<exists>l. \<forall>p \<in># stock. pp_linktype p = l)" by metis
  moreover have "mset ws + held env m (cs[i := c]) \<subseteq># stock"
    by (rule subset_mset.dual_order.trans [OF sub]) (simp add: h)
  ultimately show ?thesis unfolding content_ok_def by blast
qed

lemma order_ok_turn:
  assumes ok: "order_ok env m ws cs" and i: "i < length cs"
    and st: "cursor_stream env m (cs ! i) = p # ys @ cursor_stream env m c"
    and min: "\<And>c q. c \<in> set cs \<Longrightarrow> q \<in> set (cursor_stream env m c) \<Longrightarrow> pp_ts_micros p \<le> pp_ts_micros q"
  shows "order_ok env m ws (cs[i := c])" "order_ok env m (ws @ [p]) (cs[i := c])"
proof -
  have ci: "cs ! i \<in> set cs" using i by simp
  have sub: "c' \<in> set cs \<or> c' = c" if "c' \<in> set (cs[i := c])" for c'
    using that set_update_subset_insert [of cs i c] by auto
  have srt: "sorted (map pp_ts_micros (cursor_stream env m c))"
    using ok ci st by (force simp: order_ok_def sorted_append)
  have rest: "pp_ts_micros w \<le> pp_ts_micros q" if "w \<in> set (ws @ [p])" "q \<in> set (cursor_stream env m c)" for w q
  proof -
    have q: "q \<in> set (cursor_stream env m (cs ! i))" using that(2) st by simp
    show ?thesis
    proof (cases "w = p")
      case True
      with min [OF ci q] show ?thesis by simp
    next
      case False
      with that(1) ok ci q show ?thesis by (auto simp: order_ok_def)
    qed
  qed
  show "order_ok env m ws (cs[i := c])"
    using ok sub srt rest unfolding order_ok_def by (metis UnCI set_append)
  have "sorted (map pp_ts_micros (ws @ [p]))"
    using ok ci st by (auto simp: order_ok_def sorted_append)
  then show "order_ok env m (ws @ [p]) (cs[i := c])"
    using ok sub srt rest min unfolding order_ok_def
    by (metis UnE list.set(1) list.set(2) empty_iff insert_iff set_append)
qed

section \<open>Lemmas: the loop\<close>

lemma merge_inv_next:
  assumes inv: "merge_inv env limits m stock srt ws ms"
    and pop: "heap_pop (ms_heap ms) = Some (key, h)"
    and step: "merge_step env limits m (hk_index key) (ms\<lparr>ms_heap := h\<rparr>) = Inr (Next_Turn, ms')"
  shows "\<exists>ws'. merge_inv env limits m stock srt ws' ms'"
proof -
  let ?i = "hk_index key" and ?cs = "ms_cursors ms"
  from merge_step_next [OF step] obtain p c' where
    i: "?i < length ?cs" and p: "gc_pending (?cs ! ?i) = Some p"
    and ms': "ms_cursors ms' = ?cs[?i := c']" "ms_heap ms' = push_pending ?i c' h"
    and idle: "gc_pending c' = None \<longrightarrow> ft_stopped (ms_fetch ms') = None \<longrightarrow> cursor_stream env m c' = []"
    and go: "ft_stopped (ms_fetch ms) = None" and stop: "stop_ok env (ms_fetch ms')"
    and turn: "skips env m p (?cs ! ?i) c' (ms_linktype ms) (ms_linktype ms') (ms_fetch ms) (ms_fetch ms')
      \<or> writes env limits m p (?cs ! ?i) c' (ms_linktype ms) (ms_linktype ms') (ms_fetch ms) (ms_fetch ms')"
    by auto
  have heap: "heap_ok (ms_cursors ms) (ms_heap ms)" and hidle: "idle_ok env m (ms_fetch ms) ?cs"
    and out: "output_ok limits ws (ms_linktype ms) (ms_fetch ms)"
    and con: "content_ok env m stock ws ?cs" and ord: "srt \<Longrightarrow> order_ok env m ws ?cs"
    and tr: "\<not> fs_truncated (ft_stats (ms_fetch ms))"
    using inv by (auto simp: merge_inv_def)
  have heap': "heap_ok (ms_cursors ms') (ms_heap ms')"
    using heap_ok_turn [OF heap pop, of c'] ms' by simp
  have idle': "idle_ok env m (ms_fetch ms') (ms_cursors ms')"
    using idle hidle go ms' set_update_subset_insert [of ?cs ?i c'] by (auto simp: idle_ok_def)
  have min: "pp_ts_micros p \<le> pp_ts_micros q"
    if s: srt and c: "c \<in> set ?cs" and q: "q \<in> set (cursor_stream env m c)" for c q
  proof -
    obtain j where j: "j < length ?cs" "c = ?cs ! j" using c by (auto simp: in_set_conv_nth)
    obtain r where r: "gc_pending c = Some r"
      using hidle go c q by (cases "gc_pending c") (auto simp: idle_ok_def)
    have "pp_ts_micros p \<le> pp_ts_micros r"
      using heap_ok_pop [OF heap pop] p j r by auto
    moreover have "sorted (map pp_ts_micros (cursor_stream env m c))"
      using ord [OF s] c by (simp add: order_ok_def)
    then have "pp_ts_micros r \<le> pp_ts_micros q"
      using q r by (auto simp: cursor_stream_def)
    ultimately show ?thesis by simp
  qed
  from turn show ?thesis
  proof
    assume sk: "skips env m p (?cs ! ?i) c' (ms_linktype ms) (ms_linktype ms') (ms_fetch ms) (ms_fetch ms')"
    then obtain ys where ys: "cursor_stream env m (?cs ! ?i) = p # ys @ cursor_stream env m c'"
      by (auto simp: skips_def)
    have lt: "ms_linktype ms \<noteq> None" "ms_linktype ms \<noteq> Some (pp_linktype p)" "ms_linktype ms' = ms_linktype ms"
      "output_of (ms_fetch ms') = output_of (ms_fetch ms)"
      using sk by (auto simp: skips_def)
    have "ms_linktype ms = first_linktype ws" using out unfolding output_ok_def by blast
    with lt obtain w where w: "w \<in> set ws" "pp_linktype w \<noteq> pp_linktype p"
      by (cases ws) (auto simp: first_linktype_def)
    have "merge_inv env limits m stock srt ws ms'"
      using heap' idle' output_ok_frame [OF out, of "ms_fetch ms'"] lt tr stop
        content_ok_skips [OF con i ys w] order_ok_turn(1) [OF ord i ys min] ms'
      by (auto simp: merge_inv_def output_of_def)
    then show ?thesis by blast
  next
    assume wr: "writes env limits m p (?cs ! ?i) c' (ms_linktype ms) (ms_linktype ms') (ms_fetch ms) (ms_fetch ms')"
    then have st: "cursor_stream env m (?cs ! ?i) = p # cursor_stream env m c'" by (simp add: writes_def)
    have "merge_inv env limits m stock srt (ws @ [p]) ms'"
      using heap' idle' output_ok_writes [OF out wr] content_ok_writes [OF con i st] tr wr stop
        order_ok_turn(2) [OF ord i, of p "[]" c'] st min ms'
      by (auto simp: merge_inv_def writes_def output_of_def)
    then show ?thesis by blast
  qed
qed

text \<open>How the loop ends: drained, stopped, or at the byte limit.\<close>

lemma merge_loop_spec:
  assumes "merge_loop env limits m ms = Inr (returned, ms')" and "merge_inv env limits m stock srt ws ms"
  shows "\<exists>ws' ms1. merge_inv env limits m stock srt ws' ms1
    \<and> output_ok limits ws' (ms_linktype ms') (ms_fetch ms')
    \<and> stop_ok env (ms_fetch ms') \<and> (returned \<longrightarrow> fs_truncated (ft_stats (ms_fetch ms')))
    \<and> (\<not> returned \<longrightarrow> \<not> fs_truncated (ft_stats (ms_fetch ms')))
    \<and> (\<not> returned \<longrightarrow> ft_stopped (ms_fetch ms') = None \<longrightarrow> held env m (ms_cursors ms1) = {#})"
  using assms
proof (induction env limits m ms arbitrary: ws rule: merge_loop.induct)
  case (1 env limits m ms)
  show ?case
  proof (cases "heap_pop (ms_heap ms)")
    case None
    have "Inr (returned, ms') = (Inr (False, ms) :: fetch_fault + (bool \<times> 'a merge_state))"
      using 1(2) None by (subst (asm) merge_loop.simps) simp
    then have ms': "ms' = ms" "\<not> returned" by simp_all
    have ok: "heap_ok (ms_cursors ms) (ms_heap ms)" "idle_ok env m (ms_fetch ms) (ms_cursors ms)"
      using 1(3) by (auto simp: merge_inv_def)
    have "ms_heap ms = []" using None by (simp add: heap_pop_def split: list.splits)
    have "gc_pending c = None" if "c \<in> set (ms_cursors ms)" for c
    proof -
      obtain j where j: "j < length (ms_cursors ms)" "c = ms_cursors ms ! j"
        using \<open>c \<in> _\<close> by (auto simp: in_set_conv_nth)
      show ?thesis
      proof (cases "gc_pending c")
        case (Some q)
        with ok(1) j have "Heap_Key (pp_ts_micros q) j \<in> set (ms_heap ms)" by (simp add: heap_ok_def)
        with \<open>ms_heap ms = []\<close> show ?thesis by simp
      qed simp
    qed
    then have "ft_stopped (ms_fetch ms) = None \<longrightarrow> held env m (ms_cursors ms) = {#}"
      using ok(2) by (auto simp: idle_ok_def intro!: held_empty)
    moreover have "output_ok limits ws (ms_linktype ms) (ms_fetch ms)" "\<not> fs_truncated (ft_stats (ms_fetch ms))"
      "stop_ok env (ms_fetch ms)"
      using 1(3) by (simp_all add: merge_inv_def)
    ultimately show ?thesis using 1(3) unfolding ms'(1) using ms'(2)
      by (intro exI [of _ ws] exI [of _ ms]) simp
  next
    case (Some kh)
    then obtain key h where pop: "heap_pop (ms_heap ms) = Some (key, h)" by (cases kh) auto
    let ?ms = "ms\<lparr>ms_heap := h\<rparr>"
    obtain t ms2 where step: "merge_step env limits m (hk_index key) ?ms = Inr (t, ms2)"
      using 1(2) pop by (subst (asm) merge_loop.simps) (auto split: sum.splits)
    show ?thesis
    proof (cases "t = Next_Turn")
      case True
      have r: "merge_loop env limits m ms2 = Inr (returned, ms')"
        using 1(2) pop step True by (subst (asm) merge_loop.simps) simp
      from merge_inv_next [OF 1(3) pop] step True obtain ws' where
        "merge_inv env limits m stock srt ws' ms2" by blast
      from 1(1) [OF pop refl step refl True r this] show ?thesis .
    next
      case False
      note stops = merge_step_stops [OF step False]
      have "Inr (returned, ms') = (Inr (t = Return_Turn, ms2) :: fetch_fault + (bool \<times> 'a merge_state))"
        using 1(2) pop step False by (subst (asm) merge_loop.simps) (cases t; simp)
      then have ms': "ms' = ms2" "returned \<longleftrightarrow> t = Return_Turn" by simp_all
      have "output_ok limits ws (ms_linktype ms') (ms_fetch ms')"
        using 1(3) stops ms' output_ok_frame [of limits ws "ms_linktype ms" "ms_fetch ms" "ms_fetch ms2"]
        by (simp add: merge_inv_def)
      moreover have "returned \<longrightarrow> fs_truncated (ft_stats (ms_fetch ms'))"
        "\<not> returned \<longrightarrow> \<not> fs_truncated (ft_stats (ms_fetch ms')) \<and> ft_stopped (ms_fetch ms') \<noteq> None"
        "stop_ok env (ms_fetch ms')"
        using 1(3) stops ms' False by (cases t; auto simp: merge_inv_def)+
      ultimately show ?thesis using 1(3)
        by (intro exI [of _ ws] exI [of _ ms]) auto
    qed
  qed
qed

lemma fill_cursors_spec:
  assumes "fill_cursors env limits m (length cs0) cs h s = Inr (cs', h', s')"
    and "heap_ok cs0 h" and "\<And>c. c \<in> set cs \<Longrightarrow> gc_pending c = None"
  shows "heap_ok (cs0 @ cs') h' \<and> output_of s' = output_of s
    \<and> map (cursor_stream env m) cs' = map (cursor_stream env m) cs
    \<and> (stop_ok env s \<longrightarrow> stop_ok env s') \<and> (ft_stopped s' = None \<longrightarrow> ft_stopped s = None)
    \<and> idle_ok env m s' cs'"
  using assms
proof (induction cs arbitrary: cs0 h s cs' h' s')
  case Nil
  then show ?case by (simp add: idle_ok_def)
next
  case (Cons c cs)
  obtain c1 s1 where r: "refill env limits m c s = Inr (c1, s1)"
    using Cons.prems(1) by (auto split: sum.splits)
  obtain cs2 h2 s2 where f: "fill_cursors env limits m (length (cs0 @ [c1])) cs (push_pending (length cs0) c1 h) s1
      = Inr (cs2, h2, s2)" and res: "cs' = c1 # cs2" "h' = h2" "s' = s2"
    using Cons.prems(1) r by (auto split: sum.splits)
  note rs = refill_spec [OF r]
  have "heap_ok ((cs0 @ [c1]) @ cs2) h2 \<and> output_of s2 = output_of s1
    \<and> map (cursor_stream env m) cs2 = map (cursor_stream env m) cs
    \<and> (stop_ok env s1 \<longrightarrow> stop_ok env s2) \<and> (ft_stopped s2 = None \<longrightarrow> ft_stopped s1 = None) \<and> idle_ok env m s2 cs2"
    by (rule Cons.IH [OF f heap_ok_snoc [OF Cons.prems(2)]]) (simp add: Cons.prems(3))
  then show ?case using res rs Cons.prems(3) [of c] by (auto simp: idle_ok_def)
qed

lemma cursor_stream_new: "cursor_stream env m (cursor_new files) = concat (map (file_stream env m) files)"
  by (simp add: cursor_stream_def cursor_new_def open_stream_def)

text \<open>The packets of each group that the request asks for.\<close>

definition group_streams :: "'prog fetch_env \<Rightarrow> matcher \<Rightarrow> path list list \<Rightarrow> pending_packet list list" where
  "group_streams env m groups = map (\<lambda>files. concat (map (file_stream env m) files)) groups"

lemma fill_inv:
  assumes "fill_cursors env limits m 0 (map cursor_new groups) [] fetch_state_new = Inr (cs, h, s)"
  shows "merge_inv env limits m (mset (concat (group_streams env m groups)))
     (list_all (\<lambda>ps. sorted (map pp_ts_micros ps)) (group_streams env m groups)) []
     \<lparr>ms_cursors = cs, ms_heap = h, ms_linktype = None, ms_fetch = s\<rparr>"
proof -
  have f: "heap_ok ([] @ cs) h \<and> output_of s = output_of fetch_state_new
    \<and> map (cursor_stream env m) cs = map (cursor_stream env m) (map cursor_new groups)
    \<and> (stop_ok env fetch_state_new \<longrightarrow> stop_ok env s) \<and> (ft_stopped s = None \<longrightarrow> ft_stopped fetch_state_new = None) \<and> idle_ok env m s cs"
    by (rule fill_cursors_spec) (use assms in \<open>auto simp: heap_ok_def cursor_new_def\<close>)
  then have st: "map (cursor_stream env m) cs = group_streams env m groups"
    by (simp add: group_streams_def cursor_stream_new comp_def)
  have held: "held env m cs = mset (concat (map (cursor_stream env m) cs))"
    by (induction cs) (simp_all add: held_def)
  have "order_ok env m [] cs" if "list_all (\<lambda>ps. sorted (map pp_ts_micros ps)) (group_streams env m groups)"
    using that unfolding st [symmetric] by (auto simp: order_ok_def list_all_iff)
  moreover have "output_ok limits [] None s"
    using f by (auto simp: output_ok_def output_of_def stream_bytes_def first_linktype_def fetch_state_new_def
        writer_new_def writer_ok_def fetch_stats_default_def bytes_written_def)
  moreover have "stop_ok env s" using f by (simp add: stop_ok_def fetch_state_new_def)
  moreover have "\<not> fs_truncated (ft_stats s)"
    using f by (simp add: output_of_def fetch_state_new_def fetch_stats_default_def)
  ultimately show ?thesis
    using f held by (simp add: merge_inv_def content_ok_def st)
qed

text \<open>What a completed merge has written, and what it left out.\<close>

lemma merge_groups_spec:
  assumes "merge_groups env limits m groups = Inr (returned, ms)"
  shows "\<exists>ws left. output_ok limits ws (ms_linktype ms) (ms_fetch ms)
    \<and> mset ws + left \<subseteq># mset (concat (group_streams env m groups))
    \<and> (list_all (\<lambda>ps. sorted (map pp_ts_micros ps)) (group_streams env m groups) \<longrightarrow> sorted (map pp_ts_micros ws))
    \<and> (returned \<longleftrightarrow> fs_truncated (ft_stats (ms_fetch ms))) \<and> stop_ok env (ms_fetch ms)
    \<and> (\<not> returned \<longrightarrow> ft_stopped (ms_fetch ms) = None \<longrightarrow> left = {#})
    \<and> ((\<exists>l. \<forall>p \<in> set (concat (group_streams env m groups)). pp_linktype p = l)
         \<longrightarrow> mset ws + left = mset (concat (group_streams env m groups)))"
proof -
  obtain cs h s where f: "fill_cursors env limits m 0 (map cursor_new groups) [] fetch_state_new = Inr (cs, h, s)"
    and l: "merge_loop env limits m \<lparr>ms_cursors = cs, ms_heap = h, ms_linktype = None, ms_fetch = s\<rparr>
      = Inr (returned, ms)"
    using assms by (auto simp: merge_groups_def split: sum.splits)
  from merge_loop_spec [OF l fill_inv [OF f]] obtain ws ms1 where
    inv: "merge_inv env limits m (mset (concat (group_streams env m groups)))
       (list_all (\<lambda>ps. sorted (map pp_ts_micros ps)) (group_streams env m groups)) ws ms1"
    and rest: "output_ok limits ws (ms_linktype ms) (ms_fetch ms)"
      "returned \<longleftrightarrow> fs_truncated (ft_stats (ms_fetch ms))" "stop_ok env (ms_fetch ms)"
      "\<not> returned \<longrightarrow> ft_stopped (ms_fetch ms) = None \<longrightarrow> held env m (ms_cursors ms1) = {#}"
    by (elim exE conjE) (rule that; blast)
  show ?thesis
  proof (intro exI conjI)
    show "mset ws + held env m (ms_cursors ms1) \<subseteq># mset (concat (group_streams env m groups))"
      using inv by (simp add: merge_inv_def content_ok_def)
    show "(\<exists>l. \<forall>p \<in> set (concat (group_streams env m groups)). pp_linktype p = l)
         \<longrightarrow> mset ws + held env m (ms_cursors ms1) = mset (concat (group_streams env m groups))"
      using inv by (simp add: merge_inv_def content_ok_def)
    show "list_all (\<lambda>ps. sorted (map pp_ts_micros ps)) (group_streams env m groups) \<longrightarrow> sorted (map pp_ts_micros ws)"
      using inv by (simp add: merge_inv_def order_ok_def)
  qed (use rest in simp_all)
qed

text \<open>A popped cursor always has its packet: the loop does not panic.\<close>

lemma merge_step_no_panic:
  assumes "heap_ok (ms_cursors ms) (ms_heap ms)" and "heap_pop (ms_heap ms) = Some (key, h)"
  shows "merge_step env limits m (hk_index key) (ms\<lparr>ms_heap := h\<rparr>) \<noteq> Inl Panicked"
  using heap_ok_pop [OF assms]
  by (auto simp: merge_step_def Let_def split: prod.splits sum.splits bool.splits)

lemma merge_loop_no_panic:
  "heap_ok (ms_cursors ms) (ms_heap ms) \<Longrightarrow> merge_loop env limits m ms \<noteq> Inl Panicked"
proof (induction env limits m ms rule: merge_loop.induct)
  case (1 env limits m ms)
  show ?case
  proof (cases "heap_pop (ms_heap ms)")
    case None
    then show ?thesis by (subst merge_loop.simps) simp
  next
    case (Some kh)
    then obtain key h where pop: "heap_pop (ms_heap ms) = Some (key, h)" by (cases kh) auto
    let ?step = "merge_step env limits m (hk_index key) (ms\<lparr>ms_heap := h\<rparr>)"
    have next_ok: "merge_loop env limits m ms2 \<noteq> Inl Panicked" if s: "?step = Inr (Next_Turn, ms2)" for ms2
    proof -
      obtain c where "ms_cursors ms2 = (ms_cursors ms)[hk_index key := c]"
          "ms_heap ms2 = push_pending (hk_index key) c h"
        using merge_step_next [OF s] by auto
      then show ?thesis
        using 1(1) [OF pop refl s refl refl] heap_ok_turn [OF 1(2) pop, of c] by simp
    qed
    show ?thesis
      using merge_step_no_panic [OF 1(2) pop, of env limits m] next_ok pop
      by (subst merge_loop.simps) (auto split: sum.splits merge_turn.splits)
  qed
qed

lemma merge_groups_no_panic: "merge_groups env limits m groups \<noteq> Inl Panicked"
proof -
  have "merge_loop env limits m \<lparr>ms_cursors = cs, ms_heap = h, ms_linktype = None, ms_fetch = s\<rparr> \<noteq> Inl Panicked"
    if "fill_cursors env limits m 0 (map cursor_new groups) [] fetch_state_new = Inr (cs, h, s)" for cs h s
    using fill_inv [OF that] by (intro merge_loop_no_panic) (simp add: merge_inv_def)
  then show ?thesis by (auto simp: merge_groups_def split: sum.splits)
qed

text \<open>The scan itself fails only on I/O.\<close>

lemma maybe_flush_io: "maybe_flush env limits s = Inl e \<Longrightarrow> \<exists>msg. e = Io msg"
  by (auto simp: maybe_flush_def read_clock_def Let_def split: if_splits option.splits)

lemma open_group_file_io: "open_group_file env m path s = Inl e \<Longrightarrow> \<exists>msg. e = Io msg"
  by (auto simp: open_group_file_def Let_def split: sum.splits if_splits option.splits prod.splits)

lemma emit_io: "emit env limits p c lt s = Inl e \<Longrightarrow> \<exists>msg. e = Io msg"
  by (auto simp: emit_def read_clock_def Let_def split: if_splits sum.splits)

lemma refill_io: "refill env limits m c s = Inl e \<Longrightarrow> \<exists>msg. e = Io msg"
proof (induction env limits m c s rule: refill.induct)
  case (1 env limits m c s)
  obtain ok s1 where l: "live env limits s = (ok, s1)" by fastforce
  have ok: ok using 1(4) l by (subst (asm) refill.simps) (auto split: if_splits)
  show ?case
  proof (cases "maybe_flush env limits s1")
    case (Inl e')
    with 1(4) l ok maybe_flush_io [OF Inl] show ?thesis by (subst (asm) refill.simps) simp
  next
    case f: (Inr s2)
    show ?thesis
    proof (cases "gc_open c")
      case None
      then obtain path files where g: "gc_files c = path # files"
        using 1(4) l ok f by (subst (asm) refill.simps) (auto split: list.splits)
      show ?thesis
      proof (cases "open_group_file env m path s2")
        case (Inl e')
        with 1(4) l ok f None g open_group_file_io [OF Inl] show ?thesis by (subst (asm) refill.simps) simp
      next
        case (Inr r)
        then obtain co s3 where o: "open_group_file env m path s2 = Inr (co, s3)" by (cases r) auto
        have r: "refill env limits m (c\<lparr>gc_files := files, gc_open := co\<rparr>) s3 = Inl e"
          using 1(4) l ok f None g o by (subst (asm) refill.simps) simp
        show ?thesis by (rule 1(1) [OF l [symmetric] refl _ f None g o refl r]) (simp add: ok)
      qed
    next
      case (Some oc)
      show ?thesis
      proof (cases "oc_packets oc")
        case Nil
        have r: "refill env limits m (c\<lparr>gc_open := None\<rparr>) s2 = Inl e"
          using 1(4) l ok f Some Nil by (subst (asm) refill.simps) simp
        show ?thesis by (rule 1(2) [OF l [symmetric] refl _ f Some Nil r]) (simp add: ok)
      next
        case (Cons pkt pkts)
        have w: "\<not> wanted env m (oc_program oc) pkt"
          using 1(4) l ok f Some Cons by (subst (asm) refill.simps) (auto split: if_splits)
        have r: "refill env limits m (c\<lparr>gc_open := Some (oc\<lparr>oc_packets := pkts\<rparr>)\<rparr>) s2 = Inl e"
          using 1(4) l ok f Some Cons w by (subst (asm) refill.simps) simp
        show ?thesis by (rule 1(3) [OF l [symmetric] refl _ f Some Cons refl w r]) (simp add: ok)
      qed
    qed
  qed
qed

lemma merge_step_io: "merge_step env limits m i ms = Inl (Failed e) \<Longrightarrow> \<exists>msg. e = Io msg"
  by (auto simp: merge_step_def Let_def split: if_splits sum.splits prod.splits bool.splits option.splits
      dest: maybe_flush_io emit_io refill_io)

lemma merge_loop_io: "merge_loop env limits m ms = Inl (Failed e) \<Longrightarrow> \<exists>msg. e = Io msg"
proof (induction env limits m ms rule: merge_loop.induct)
  case (1 env limits m ms)
  then obtain key h where pop: "heap_pop (ms_heap ms) = Some (key, h)"
    by (subst (asm) (2) merge_loop.simps) (auto split: option.splits)
  let ?step = "merge_step env limits m (hk_index key) (ms\<lparr>ms_heap := h\<rparr>)"
  show ?case
  proof (cases ?step)
    case (Inl f)
    with 1(2) pop have "f = Failed e" by (subst (asm) merge_loop.simps) simp
    with Inl show ?thesis using merge_step_io by blast
  next
    case (Inr r)
    then obtain t ms2 where s: "?step = Inr (t, ms2)" by (cases r) auto
    have "t = Next_Turn \<and> merge_loop env limits m ms2 = Inl (Failed e)"
      using 1(2) pop s by (subst (asm) merge_loop.simps) (cases t; simp)
    then show ?thesis using 1(1) [OF pop refl s refl] by blast
  qed
qed

lemma fill_cursors_io: "fill_cursors env limits m i cs h s = Inl e \<Longrightarrow> \<exists>msg. e = Io msg"
  by (induction env limits m i cs h s rule: fill_cursors.induct)
    (auto split: sum.splits dest: refill_io)

lemma merge_groups_io: "merge_groups env limits m groups = Inl (Failed e) \<Longrightarrow> \<exists>msg. e = Io msg"
  by (auto simp: merge_groups_def split: sum.splits dest: fill_cursors_io merge_loop_io)

section \<open>Lemmas: the fetch\<close>

text \<open>The packets a request asks for: those of a candidate file that pass the time gate and the
  program compiled for the file's link type.\<close>

definition asked_for ::
    "'prog fetch_env \<Rightarrow> matcher \<Rightarrow> path list list \<Rightarrow> pending_packet \<Rightarrow> bool" where
  "asked_for env m groups p \<longleftrightarrow>
     (\<exists>files \<in> set groups. \<exists>path \<in> set files. \<exists>cap program.
        lp_open env path = Inr cap \<and> pp_packet p \<in> set (cp_packets cap)
        \<and> p = pending_of (cp_linktype cap) (pp_packet p)
        \<and> fst (file_program env m (cp_linktype cap) \<lparr>bt_compiled_any = False, bt_first_error = None\<rparr>)
            = Some program
        \<and> gated_in m (pp_packet p) \<and> program_accepts env program (pp_packet p))"

lemma asked_for_streams:
  "p \<in> set (concat (group_streams env m groups)) \<Longrightarrow> asked_for env m groups p"
proof -
  assume "p \<in> set (concat (group_streams env m groups))"
  then obtain files path where fp: "files \<in> set groups" "path \<in> set files" "p \<in> set (file_stream env m path)"
    by (auto simp: group_streams_def)
  then obtain cap program pkt where
    "lp_open env path = Inr cap"
    "fst (file_program env m (cp_linktype cap) \<lparr>bt_compiled_any = False, bt_first_error = None\<rparr>) = Some program"
    "pkt \<in> set (cp_packets cap)" "wanted env m program pkt" "p = pending_of (cp_linktype cap) pkt"
    by (auto simp: file_stream_def split: sum.splits option.splits) (metis (full_types))
  then show ?thesis
    unfolding asked_for_def using fp
    by (intro bexI [of _ files] bexI [of _ path] exI [of _ cap] exI [of _ program])
      (simp_all add: wanted_def pending_of_def)
qed

lemma gated_in_iff:
  "gated_in m pkt \<longleftrightarrow> \<not> mt_gate m \<or>
     (\<exists>(s :: u64) (u :: u64) (ts :: u64). pk_sec pkt = uint s \<and> pk_usec pkt = uint u \<and> uint ts = uint s * 1000000 + uint u
        \<and> mt_start m \<le> ts \<and> ts \<le> mt_end m)"
proof -
  have "Option.bind (checked_mul s 1000000) (\<lambda>ts. checked_add ts u) = Some ts
      \<longleftrightarrow> uint ts = uint s * 1000000 + uint u" for s u ts :: u64
  proof -
    have "(\<exists>v :: u64. unat v = unat s * 1000000 \<and> unat ts = unat v + unat u)
        \<longleftrightarrow> unat ts = unat s * 1000000 + unat u"
    proof
      assume t: "unat ts = unat s * 1000000 + unat u"
      have "unat ts < 2 ^ 64" using unsigned_less [of ts] by simp
      with t have "unat s * 1000000 < 2 ^ 64" by linarith
      then have "unat (of_nat (unat s * 1000000) :: u64) = unat s * 1000000"
        by (simp only: unat_of_nat take_bit_nat_eq_self) simp
      with t show "\<exists>v :: u64. unat v = unat s * 1000000 \<and> unat ts = unat v + unat u" by metis
    qed auto
    moreover have "uint ts = uint s * 1000000 + uint u \<longleftrightarrow> unat ts = unat s * 1000000 + unat u"
      unfolding uint_nat by linarith
    ultimately show ?thesis by (simp add: bind_eq_Some_conv word_facts)
  qed
  note ts_eq = this
  show ?thesis
  proof (cases "mt_gate m")
    case True
    show ?thesis
    proof (cases "\<exists>(s :: u64) (u :: u64). pk_sec pkt = uint s \<and> pk_usec pkt = uint u")
      case True
      then obtain s u :: u64 where su: "pk_sec pkt = uint s" "pk_usec pkt = uint u" by blast
      show ?thesis
        using \<open>mt_gate m\<close> ts_eq [of s u] su
        by (auto simp: gated_in_def word_uint_eq_iff split: option.splits) (metis word_uint_eq_iff)+
    next
      case False
      then have "try_from_int (pk_sec pkt) = (None :: u64 option) \<or> try_from_int (pk_usec pkt) = (None :: u64 option)"
        by (metis not_Some_eq try_from_int_Some)
      with False \<open>mt_gate m\<close> show ?thesis
        by (auto simp: gated_in_def split: option.splits)
    qed
  qed (simp add: gated_in_def)
qed

lemma fetch_done:
  assumes "fetch env listing source rq = (Inr stats, Some out)"
  shows "\<exists>flow groups returned ms. flow_expressions env (rq_filter rq) = Inr flow
    \<and> fetch_groups listing source (request_start rq) (request_end rq) = Inr groups
    \<and> merge_groups env (rq_limits rq) (request_matcher rq flow) groups = Inr (returned, ms)
    \<and> out = pw_out (ft_writer (ms_fetch ms))
    \<and> fs_bytes stats = fs_bytes (ft_stats (ms_fetch ms))
    \<and> fs_packets stats = fs_packets (ft_stats (ms_fetch ms))
    \<and> (\<not> fs_truncated stats \<longrightarrow> \<not> returned \<and> (ft_stopped (ms_fetch ms) = None \<or> ft_stopped (ms_fetch ms) = Some Cancelled))
    \<and> (fs_truncated stats \<longrightarrow> returned \<or> ft_stopped (ms_fetch ms) \<noteq> None \<or> fs_truncated (ft_stats (ms_fetch ms)))"
proof -
  obtain flow where a: "flow_expressions env (rq_filter rq) = Inr flow"
    using assms by (auto simp: fetch_def split: sum.splits)
  obtain groups where b: "fetch_groups listing source (request_start rq) (request_end rq) = Inr groups"
    using assms a by (auto simp: fetch_def split: sum.splits)
  obtain returned ms where c: "merge_groups env (rq_limits rq) (request_matcher rq flow) groups = Inr (returned, ms)"
    using assms a b by (auto simp: fetch_def Let_def split: sum.splits if_splits)
  have "returned \<longleftrightarrow> fs_truncated (ft_stats (ms_fetch ms))" using merge_groups_spec [OF c] by blast
  with assms a b c show ?thesis
    by (intro exI [of _ flow] exI [of _ groups] exI [of _ returned] exI [of _ ms])
      (auto simp: fetch_def Let_def fetch_verdict_def split: sum.splits if_splits option.splits stop.splits)
qed

lemma of_nat_u64_0: "n < 2 ^ 64 \<Longrightarrow> of_nat n = (0 :: u64) \<Longrightarrow> n = 0"
proof -
  assume n: "n < 2 ^ 64" and z: "of_nat n = (0 :: u64)"
  have "unat (of_nat n :: u64) = n" using n by (simp add: unat_of_nat take_bit_nat_eq_self)
  then show ?thesis by (simp only: z unat_0)
qed

lemma stream_bytes_Nil_iff: "stream_bytes ws = [] \<longleftrightarrow> ws = []"
proof (cases ws)
  case (Cons w ws')
  have "create_header (pp_linktype w) \<noteq> []"
    using create_header_length [of "pp_linktype w"] by (metis list.size(3) zero_neq_numeral)
  with Cons show ?thesis by (simp add: stream_bytes_def)
qed (simp add: stream_bytes_def)

section \<open>Properties\<close>

text \<open>C1. What the fetch writes is a capture of packets it was asked for: whatever stops it, the
  output is either empty or one pcap stream of a single link type that reads back to packets
  which all come from a candidate file, pass the time gate and are accepted by the program
  compiled for that file's link type, each at most as often as it occurs; and when every
  group is in time order, so is the output.\<close>

theorem fetch_sound:
  assumes "fetch env listing source rq = (Inr stats, Some out)"
    and "flow_expressions env (rq_filter rq) = Inr flow"
    and "fetch_groups listing source (request_start rq) (request_end rq) = Inr groups"
    and "\<And>path cap. lp_open env path = Inr cap \<Longrightarrow> list_all (\<lambda>p. length (pk_data p) < 2 ^ 32) (cp_packets cap)"
  shows "\<exists>ws. mset ws \<subseteq># mset (concat (group_streams env (request_matcher rq flow) groups))
    \<and> (\<forall>p \<in> set ws. asked_for env (request_matcher rq flow) groups p)
    \<and> fs_packets stats = of_nat (length ws)
    \<and> (if ws = [] then out = []
       else \<exists>lt. (\<forall>p \<in> set ws. pp_linktype p = lt)
            \<and> read_pcap out = Some (lt, 0xFFFFFFFF, map (record_of \<circ> pp_packet) ws))
    \<and> (list_all (\<lambda>ps. sorted (map pp_ts_micros ps)) (group_streams env (request_matcher rq flow) groups)
         \<longrightarrow> sorted (map pp_ts_micros ws))"
proof -
  let ?m = "request_matcher rq flow"
  obtain returned ms where mg: "merge_groups env (rq_limits rq) ?m groups = Inr (returned, ms)"
    and out: "out = pw_out (ft_writer (ms_fetch ms))" "fs_packets stats = fs_packets (ft_stats (ms_fetch ms))"
    using fetch_done [OF assms(1)] assms(2,3) by auto
  obtain ws left where ok: "output_ok (rq_limits rq) ws (ms_linktype ms) (ms_fetch ms)"
    and sub: "mset ws + left \<subseteq># mset (concat (group_streams env ?m groups))"
    and srt: "list_all (\<lambda>ps. sorted (map pp_ts_micros ps)) (group_streams env ?m groups) \<longrightarrow> sorted (map pp_ts_micros ws)"
    using merge_groups_spec [OF mg] by blast
  have sub': "mset ws \<subseteq># mset (concat (group_streams env ?m groups))"
    using sub by (rule subset_mset.dual_order.trans) simp
  have asked: "asked_for env ?m groups p" if "p \<in> set ws" for p
    using mset_subset_eqD [OF sub', of p] that by (intro asked_for_streams) simp
  have small: "list_all (\<lambda>r. length (pr_data r) < 2 ^ 32) (map (record_of \<circ> pp_packet) ws)"
  proof -
    have "length (pk_data (pp_packet p)) < 2 ^ 32" if "p \<in> set ws" for p
      using asked [OF that] assms(4) by (auto simp: asked_for_def list_all_iff)
    then show ?thesis by (auto simp: list_all_iff record_of_def)
  qed
  have stream: "out = stream_bytes ws" "\<forall>w \<in> set ws. Some (pp_linktype w) = first_linktype ws"
      "fs_packets stats = of_nat (length ws)"
    using ok out unfolding output_ok_def by auto
  have "\<exists>lt. (\<forall>p \<in> set ws. pp_linktype p = lt) \<and> read_pcap out = Some (lt, 0xFFFFFFFF, map (record_of \<circ> pp_packet) ws)"
    if "ws \<noteq> []"
  proof -
    obtain w ws' where ws: "ws = w # ws'" using \<open>ws \<noteq> []\<close> by (cases ws) auto
    have "read_pcap out = Some (pp_linktype w, 0xFFFFFFFF, map (record_of \<circ> pp_packet) ws)"
      using read_pcap_encode [OF small, of "pp_linktype w"] stream(1) ws
      by (simp add: stream_bytes_def comp_def)
    moreover have "\<forall>p \<in> set ws. pp_linktype p = pp_linktype w"
      using stream(2) ws by (auto simp: first_linktype_def)
    ultimately show ?thesis by blast
  qed
  with sub' asked srt stream show ?thesis by (intro exI [of _ ws]) (auto simp: stream_bytes_Nil_iff)
qed


text \<open>C3. The byte limit holds: with a limit below \<open>u64::MAX\<close> the output is never longer than
  \<open>max_bytes\<close>, file header included, and the reported byte count is its exact length.\<close>

theorem fetch_bounded:
  assumes "fetch env listing source rq = (Inr stats, Some out)"
    and "fl_max_bytes (rq_limits rq) \<noteq> - 1"
    and "\<And>path cap. lp_open env path = Inr cap \<Longrightarrow> list_all (\<lambda>p. length (pk_data p) < 2 ^ 32) (cp_packets cap)"
  shows "length out = unat (fs_bytes stats) \<and> length out \<le> unat (fl_max_bytes (rq_limits rq))"
proof -
  from fetch_done [OF assms(1)] obtain flow groups returned ms where
    mg: "merge_groups env (rq_limits rq) (request_matcher rq flow) groups = Inr (returned, ms)"
    and out: "out = pw_out (ft_writer (ms_fetch ms))" "fs_bytes stats = fs_bytes (ft_stats (ms_fetch ms))"
    by auto
  let ?st = "group_streams env (request_matcher rq flow) groups"
  obtain ws left where ok: "output_ok (rq_limits rq) ws (ms_linktype ms) (ms_fetch ms)"
    and sub: "mset ws + left \<subseteq># mset (concat ?st)"
    using merge_groups_spec [OF mg] by blast
  have "mset ws \<subseteq># mset (concat ?st)"
    using sub by (rule subset_mset.dual_order.trans) simp
  then have "asked_for env (request_matcher rq flow) groups p" if "p \<in> set ws" for p
    using mset_subset_eqD [of "mset ws" "mset (concat ?st)" p] that by (intro asked_for_streams) simp
  then have small: "\<forall>w \<in> set ws. length (pk_data (pp_packet w)) < 2 ^ 32"
    using assms(3) by (auto simp: asked_for_def list_all_iff)
  have len: "length out = unat (fs_bytes stats)"
    using ok small assms(2) out unfolding output_ok_def by metis
  have "fs_bytes (ft_stats (ms_fetch ms)) \<le> fl_max_bytes (rq_limits rq)"
    using ok unfolding output_ok_def by blast
  then show ?thesis
    using len out(2) by (simp add: word_le_nat_alt)
qed

text \<open>C4. A fetch that fails has written nothing, unless the failure is an I/O error: a request
  with no candidate file, an expression that compiles nowhere and a request nothing matches
  all leave the output empty; and no input makes the merge panic.\<close>

theorem fetch_error_writes_nothing:
  assumes "fetch env listing source rq = (Inl err, out)"
    and "\<And>flow groups. flow_expressions env (rq_filter rq) = Inr flow \<Longrightarrow>
      fetch_groups listing source (request_start rq) (request_end rq) = Inr groups \<Longrightarrow>
      length (concat (group_streams env (request_matcher rq flow) groups)) < 2 ^ 64"
  shows "\<exists>e. err = Failed e \<and> ((\<forall>msg. e \<noteq> Io msg) \<longrightarrow> out = Some [])"
proof (cases "flow_expressions env (rq_filter rq)")
  case (Inl e)
  with assms(1) show ?thesis by (auto simp: fetch_def)
next
  case flow: (Inr flow)
  let ?m = "request_matcher rq flow"
  show ?thesis
  proof (cases "fetch_groups listing source (request_start rq) (request_end rq)")
    case (Inl e)
    with assms(1) flow show ?thesis by (auto simp: fetch_def)
  next
    case groups: (Inr groups)
    show ?thesis
    proof (cases "merge_groups env (rq_limits rq) ?m groups")
      case (Inl f)
      then have "f \<noteq> Panicked" using merge_groups_no_panic by metis
      then obtain e where e: "f = Failed e" by (cases f) auto
      have "\<exists>msg. e = Io msg" if "\<not> list_all (\<lambda>files. files = []) groups"
        using merge_groups_io [OF Inl [unfolded e]] .
      then show ?thesis
        using assms(1) flow groups Inl e by (auto simp: fetch_def Let_def split: if_splits)
    next
      case (Inr r)
      then obtain returned ms where mg: "merge_groups env (rq_limits rq) ?m groups = Inr (returned, ms)"
        by (cases r) auto
      obtain ws left where ok: "output_ok (rq_limits rq) ws (ms_linktype ms) (ms_fetch ms)"
        and sub: "mset ws + left \<subseteq># mset (concat (group_streams env ?m groups))"
        using merge_groups_spec [OF mg] by blast
      have "size (mset ws + left) \<le> size (mset (concat (group_streams env ?m groups)))"
        using sub by (rule size_mset_mono)
      then have "length ws < 2 ^ 64" using assms(2) [OF flow groups] by simp
      then have len: "fs_packets (ft_stats (ms_fetch ms)) = 0 \<Longrightarrow> ws = []"
      proof -
        assume "fs_packets (ft_stats (ms_fetch ms)) = 0"
        moreover have "fs_packets (ft_stats (ms_fetch ms)) = of_nat (length ws)"
          using ok unfolding output_ok_def by blast
        ultimately show ?thesis using of_nat_u64_0 [OF \<open>length ws < 2 ^ 64\<close>] by simp
      qed
      have "pw_out (ft_writer (ms_fetch ms)) = stream_bytes ws" using ok unfolding output_ok_def by blast
      with len show ?thesis
        using assms(1) flow groups mg
        by (auto simp: fetch_def Let_def fetch_verdict_def stream_bytes_Nil_iff
            split: if_splits sum.splits option.splits stop.splits)
    qed
  qed
qed

text \<open>The time gate is exact: a packet passes iff there is no window, or its timestamp is
  a non-negative instant whose microseconds, computed without wrap-around, lie between the
  two bounds, both included, a missing bound being the end of the range.\<close>

theorem gate_exact:
  "gated_in (request_matcher rq flow) pkt \<longleftrightarrow>
     (rq_start rq = None \<and> rq_end rq = None)
     \<or> 0 \<le> pk_sec pkt \<and> 0 \<le> pk_usec pkt
       \<and> uint (request_start rq) \<le> pk_sec pkt * 1000000 + pk_usec pkt
       \<and> pk_sec pkt * 1000000 + pk_usec pkt \<le> uint (request_end rq)"
proof -
  let ?m = "request_matcher rq flow" and ?t = "pk_sec pkt * 1000000 + pk_usec pkt"
  have flds: "mt_gate ?m \<longleftrightarrow> \<not> (rq_start rq = None \<and> rq_end rq = None)"
      "mt_start ?m = request_start rq" "mt_end ?m = request_end rq"
    by (auto simp: request_matcher_def)
  have gated: "gated_in ?m pkt \<longleftrightarrow> \<not> mt_gate ?m \<or>
      (\<exists>(s :: u64) (u :: u64) (ts :: u64). pk_sec pkt = uint s \<and> pk_usec pkt = uint u \<and> uint ts = uint s * 1000000 + uint u
         \<and> mt_start ?m \<le> ts \<and> ts \<le> mt_end ?m)"
    by (rule gated_in_iff)
  have "(\<exists>(s :: u64) (u :: u64) (ts :: u64). pk_sec pkt = uint s \<and> pk_usec pkt = uint u \<and> uint ts = uint s * 1000000 + uint u
         \<and> request_start rq \<le> ts \<and> ts \<le> request_end rq)
      \<longleftrightarrow> 0 \<le> pk_sec pkt \<and> 0 \<le> pk_usec pkt \<and> uint (request_start rq) \<le> ?t \<and> ?t \<le> uint (request_end rq)"
    (is "?l \<longleftrightarrow> ?r")
  proof
    assume ?l
    then show ?r by (auto simp: word_le_def)
  next
    assume t: ?r
    have lt: "uint (request_end rq) < 2 ^ 64" using uint_lt2p [of "request_end rq"] by simp
    have u: "uint (word_of_int i :: u64) = i" if "0 \<le> i" "i < 2 ^ 64" for i
      using that by (simp add: uint_word_of_int take_bit_int_eq_self)
    have s: "uint (word_of_int (pk_sec pkt) :: u64) = pk_sec pkt" using t lt by (intro u) simp_all
    have v: "uint (word_of_int (pk_usec pkt) :: u64) = pk_usec pkt" using t lt by (intro u) simp_all
    have w: "uint (word_of_int ?t :: u64) = ?t" using t lt by (intro u) simp_all
    show ?l
      using t s v w
      by (rule_tac x = "word_of_int (pk_sec pkt)" in exI, rule_tac x = "word_of_int (pk_usec pkt)" in exI,
          rule_tac x = "word_of_int ?t" in exI) (simp add: word_le_def)
  qed
  then show ?thesis using gated flds by simp
qed

section \<open>Witnesses\<close>

text \<open>Two captures whose packets interleave, one packet outside the window.\<close>

definition demo_packet :: "int \<Rightarrow> packet" where
  "demo_packet t = \<lparr>pk_sec = t, pk_usec = 0, pk_caplen = 1, pk_len = 1, pk_data = [7]\<rparr>"

definition demo_env :: "unit fetch_env" where
  "demo_env = \<lparr>lp_open = (\<lambda>p. if p = [''a'']
       then Inr \<lparr>cp_linktype = 1, cp_packets = [demo_packet 1, demo_packet 4], cp_end = NoMorePackets\<rparr>
       else Inr \<lparr>cp_linktype = 1, cp_packets = [demo_packet 2], cp_end = NoMorePackets\<rparr>),
     lp_compile = (\<lambda>_ _. Inr ()), lp_matches = (\<lambda>_ _. True), lp_dead = None,
     io_write = (\<lambda>_ _. None), io_flush = (\<lambda>_. None), clock = (\<lambda>_. 0), is_cancelled = (\<lambda>_. False)\<rparr>"

definition demo_request :: "u64 option \<Rightarrow> pcap_request" where
  "demo_request until = \<lparr>rq_filter = None, rq_start = Some 1000000, rq_end = until,
     rq_limits = \<lparr>fl_max_bytes = 1000, fl_deadline = None, fl_flush_interval = 250\<rparr>\<rparr>"

definition demo_files :: pcap_source where "demo_files = Files [[''a''], [''b'']]"

lemmas demo_eval = demo_env_def demo_request_def demo_packet_def demo_files_def request_start_def
  request_end_def request_matcher_def fetch_state_new_def fetch_stats_default_def cursor_new_def
  live_def maybe_flush_def read_clock_def open_group_file_def file_program_def gated_in_def
  program_accepts_def wanted_def pending_of_def push_pending_def heap_push_def heap_pop_def
  less_eq_heap_key_def emit_def skip_current_file_def writer_new_def bytes_written_def
  next_write_size_def write_packet_def write_all_def ts_micros_def try_from_int_def checked_mul_def
  checked_add_def saturating_add_def saturating_mul_def PCAP_RECORD_HEADER_SIZE_def
  FILE_HEADER_LEN_def create_record_raw_length word_less_nat_alt word_le_nat_alt fetch_def
  flow_expressions_def fetch_groups_def merge_groups_def merge_step_def fetch_verdict_def

lemma demo_fetch:
  "\<exists>stats out. fetch demo_env Dir_End demo_files (demo_request (Some 3000000)) = (Inr stats, Some out)
     \<and> \<not> fs_truncated stats \<and> fs_packets stats = 2"
  by (simp add: demo_eval refill.simps merge_loop.simps)

lemma demo_none:
  "\<exists>stats. fetch demo_env Dir_End demo_files (demo_request (Some 5)) = (Inl (Failed (NoMatch stats)), Some [])"
  by (simp add: demo_eval refill.simps merge_loop.simps)

lemma demo_sides:
  "flow_expressions demo_env (rq_filter (demo_request t)) = Inr None"
  "fetch_groups Dir_End demo_files x y = Inr [[[''a'']], [[''b'']]]"
  "lp_open demo_env path = Inr cap \<Longrightarrow> list_all (\<lambda>p. length (pk_data p) < 2 ^ 32) (cp_packets cap)"
  "group_streams demo_env (request_matcher (demo_request (Some 3000000)) None) [[[''a'']], [[''b'']]]
     = [[pending_of 1 (demo_packet 1)], [pending_of 1 (demo_packet 2)]]"
  "length (concat (group_streams demo_env (request_matcher (demo_request (Some 5)) None) [[[''a'']], [[''b'']]])) = 0"
  by (auto simp: demo_eval group_streams_def file_stream_def split: if_splits)

theorem fetch_sound_witness:
  "\<exists>stats out ws. fetch demo_env Dir_End demo_files (demo_request (Some 3000000)) = (Inr stats, Some out)
    \<and> mset ws \<subseteq># {#pending_of 1 (demo_packet 1), pending_of 1 (demo_packet 2)#}
    \<and> sorted (map pp_ts_micros ws)"
proof -
  obtain stats out where
    f: "fetch demo_env Dir_End demo_files (demo_request (Some 3000000)) = (Inr stats, Some out)"
    using demo_fetch by blast
  from fetch_sound [OF f demo_sides(1,2), unfolded demo_sides(4)] demo_sides(3) f show ?thesis
    by (auto 4 4 simp: pending_of_def)
qed


theorem fetch_bounded_witness:
  "\<exists>stats out. fetch demo_env Dir_End demo_files (demo_request (Some 3000000)) = (Inr stats, Some out)
    \<and> length out = unat (fs_bytes stats) \<and> length out \<le> 1000"
proof -
  obtain stats out where
    f: "fetch demo_env Dir_End demo_files (demo_request (Some 3000000)) = (Inr stats, Some out)"
    using demo_fetch by blast
  have "fl_max_bytes (rq_limits (demo_request (Some 3000000))) \<noteq> - 1" by (simp add: demo_request_def)
  then have "length out = unat (fs_bytes stats) \<and> length out \<le> unat (fl_max_bytes (rq_limits (demo_request (Some 3000000))))"
    by (rule fetch_bounded [OF f]) (rule demo_sides(3))
  with f show ?thesis by (auto simp: demo_request_def)
qed

theorem fetch_error_writes_nothing_witness:
  "\<exists>e out. fetch demo_env Dir_End demo_files (demo_request (Some 5)) = (Inl (Failed e), out) \<and> out = Some []"
proof -
  obtain stats where f: "fetch demo_env Dir_End demo_files (demo_request (Some 5)) = (Inl (Failed (NoMatch stats)), Some [])"
    using demo_none by blast
  have "length (concat (group_streams demo_env (request_matcher (demo_request (Some 5)) flow) groups)) < 2 ^ 64"
    if "flow_expressions demo_env (rq_filter (demo_request (Some 5))) = Inr flow"
      "fetch_groups Dir_End demo_files (request_start (demo_request (Some 5))) (request_end (demo_request (Some 5))) = Inr groups"
    for flow groups
  proof -
    have "flow = None" "groups = [[[''a'']], [[''b'']]]" using that by (simp_all add: demo_sides(1,2))
    then show ?thesis by (simp only: demo_sides(5)) simp
  qed
  from fetch_error_writes_nothing [OF f this] f show ?thesis by auto
qed

end
