(* ===== verification/Eve_Spool.thy ===== *)
theory Eve_Spool
  imports Pcap_Spool
begin

text \<open>
  Timestamped EVE spool files (\<open>src/src/eve/spool.rs\<close>): parsing a file name into its stream
  and timestamp, finding the next and the latest file of a stream, and grouping configured
  paths into logical inputs. A path is its list of components, as in the capture spool. A
  directory is what \<open>read_dir\<close> yields: an error, or names each of which may be an error.
  A timestamp has ten digits, so its value is below \<open>10 ^ 10\<close> and is kept as a number.
\<close>

definition TIMESTAMP_LENGTH :: nat where "TIMESTAMP_LENGTH = 10"

record spool_file =
  sf_path :: path
  sf_key :: path
  sf_timestamp :: nat

text \<open>\<open>rsplit_once\<close>: the parts before and after the last occurrence.\<close>

definition rsplit_once :: "char \<Rightarrow> string \<Rightarrow> (string \<times> string) option" where
  "rsplit_once c s =
     (if c \<in> set s
      then Some (rev (tl (dropWhile (\<lambda>x. x \<noteq> c) (rev s))), rev (takeWhile (\<lambda>x. x \<noteq> c) (rev s)))
      else None)"

definition file_name :: "path \<Rightarrow> string option" where
  "file_name p = (if p = [] \<or> last p = ''..'' \<or> last p = ''/'' then None else Some (last p))"

text \<open>The parent, with the empty one read as the current directory.\<close>

definition parent_dir :: "path \<Rightarrow> path" where
  "parent_dir p = (if butlast p = [] then [''.''] else butlast p)"

definition spool_parse :: "path \<Rightarrow> spool_file option" where
  "spool_parse p =
     (case file_name p of
        None \<Rightarrow> None
      | Some filename \<Rightarrow>
          (if \<not> valid_utf8 filename then None
           else case rsplit_once (CHR ''.'') filename of
                  None \<Rightarrow> None
                | Some (pre, timestamp) \<Rightarrow>
                    (if pre = [] \<or> length timestamp \<noteq> TIMESTAMP_LENGTH \<or> \<not> list_all is_digit timestamp
                     then None
                     else case parse_unsigned MAX64 timestamp of
                            None \<Rightarrow> None
                          | Some ts \<Rightarrow>
                              Some \<lparr>sf_path = parent_dir p @ [filename],
                                    sf_key = parent_dir p @ [pre @ ''.''],
                                    sf_timestamp = ts\<rparr>)))"

type_synonym dir_entries = "string + (string + string) list"

fun newer_scan ::
    "spool_file \<Rightarrow> bool \<Rightarrow> path \<Rightarrow> (string + string) list \<Rightarrow> spool_file option
       \<Rightarrow> string + spool_file option" where
  "newer_scan self latest directory [] found = Inr found"
| "newer_scan self latest directory (Inl e # entries) found = Inl e"
| "newer_scan self latest directory (Inr name # entries) found =
     (case spool_parse (directory @ [name]) of
        None \<Rightarrow> newer_scan self latest directory entries found
      | Some candidate \<Rightarrow>
          (if sf_key candidate \<noteq> sf_key self \<or> sf_timestamp candidate \<le> sf_timestamp self
           then newer_scan self latest directory entries found
           else if (case found of
                      None \<Rightarrow> True
                    | Some current \<Rightarrow>
                        (if latest then sf_timestamp candidate > sf_timestamp current
                         else sf_timestamp candidate < sf_timestamp current))
           then newer_scan self latest directory entries (Some candidate)
           else newer_scan self latest directory entries found))"

definition newer_file :: "(path \<Rightarrow> dir_entries) \<Rightarrow> spool_file \<Rightarrow> bool \<Rightarrow> string + spool_file option" where
  "newer_file read_dir self latest =
     (let directory = parent_dir (sf_path self)
      in try_then (read_dir directory) (\<lambda>entries. newer_scan self latest directory entries None))"

definition spool_next :: "(path \<Rightarrow> dir_entries) \<Rightarrow> spool_file \<Rightarrow> string + spool_file option" where
  "spool_next read_dir self = newer_file read_dir self False"

definition spool_latest :: "(path \<Rightarrow> dir_entries) \<Rightarrow> spool_file \<Rightarrow> string + spool_file option" where
  "spool_latest read_dir self = newer_file read_dir self True"

section \<open>Inputs\<close>

datatype eve_input = Input_File path | Input_Spool spool_file

definition input_from_path :: "path \<Rightarrow> eve_input" where
  "input_from_path p = (case spool_parse p of Some file \<Rightarrow> Input_Spool file | None \<Rightarrow> Input_File p)"

fun input_path :: "eve_input \<Rightarrow> path" where
  "input_path (Input_File p) = p"
| "input_path (Input_Spool file) = sf_path file"

fun input_key :: "eve_input \<Rightarrow> path" where
  "input_key (Input_File p) = p"
| "input_key (Input_Spool file) = sf_key file"

fun input_spool_file :: "eve_input \<Rightarrow> spool_file option" where
  "input_spool_file (Input_Spool file) = Some file"
| "input_spool_file (Input_File p) = None"

fun is_spool :: "eve_input \<Rightarrow> bool" where
  "is_spool (Input_Spool file) = True"
| "is_spool (Input_File p) = False"

text \<open>One path entered into the map of inputs.\<close>

definition group_insert :: "bool \<Rightarrow> (path \<times> eve_input) list \<Rightarrow> path \<Rightarrow> (path \<times> eve_input) list" where
  "group_insert at_end inputs p =
     (let candidate = input_from_path p; key = input_key candidate
      in case map_of inputs key of
           None \<Rightarrow> AList.update key candidate inputs
         | Some (Input_Spool current) \<Rightarrow>
             (case candidate of
                Input_Spool file \<Rightarrow>
                  (if (if at_end then sf_timestamp file > sf_timestamp current
                       else sf_timestamp file < sf_timestamp current)
                   then AList.update key candidate inputs else inputs)
              | Input_File _ \<Rightarrow> inputs)
         | Some (Input_File _) \<Rightarrow> inputs)"

definition input_group :: "path list \<Rightarrow> bool \<Rightarrow> eve_input list" where
  "input_group paths at_end = map snd (sort_key fst (foldl (group_insert at_end) [] paths))"

section \<open>Lemmas: file names\<close>

lemma rsplit_once_append:
  "c \<notin> set t \<Longrightarrow> rsplit_once c (s @ c # t) = Some (s, t)"
proof -
  assume c: "c \<notin> set t"
  then have ne: "\<And>x. x \<in> set (rev t) \<Longrightarrow> x \<noteq> c" by auto
  have "dropWhile (\<lambda>x. x \<noteq> c) (rev t @ c # rev s) = c # rev s"
    by (subst dropWhile_append2) (use ne in simp_all)
  moreover have "takeWhile (\<lambda>x. x \<noteq> c) (rev t @ c # rev s) = rev t"
    by (subst takeWhile_append2) (use ne in simp_all)
  moreover note c
  ultimately show ?thesis by (simp add: rsplit_once_def)
qed

lemma rsplit_once_Some: "rsplit_once c s = Some (a, b) \<Longrightarrow> s = a @ c # b \<and> c \<notin> set b"
proof -
  assume r: "rsplit_once c s = Some (a, b)"
  then have c: "c \<in> set s" by (auto simp: rsplit_once_def split: if_splits)
  then obtain x y where xy: "s = x @ c # y" "c \<notin> set y" by (metis split_list_last)
  with r rsplit_once_append [of c y x] show ?thesis by simp
qed

text \<open>The files of a stream: a base name, a dot, ten digits.\<close>

definition stamp_ok :: "string \<Rightarrow> bool" where
  "stamp_ok t \<longleftrightarrow> length t = 10 \<and> list_all is_digit t"

lemma digits_val_bound: "list_all is_digit t \<Longrightarrow> digits_val t < 10 ^ length t"
proof (induction t rule: rev_induct)
  case (snoc c t)
  have "digit_val c \<le> 9"
    using snoc.prems by (auto simp: is_digit_def digit_val_def less_eq_char_def)
  with snoc show ?case by simp
qed (simp add: digits_val_def)

lemma parse_stamp: "stamp_ok t \<Longrightarrow> parse_unsigned MAX64 t = Some (digits_val t)"
proof -
  assume t: "stamp_ok t"
  then obtain c cs where c: "t = c # cs" by (cases t) (auto simp: stamp_ok_def)
  have "digits_val t < 10 ^ 10" using digits_val_bound [of t] t by (simp add: stamp_ok_def)
  moreover have "c \<noteq> CHR ''+''" using t c by (auto simp: stamp_ok_def is_digit_def less_eq_char_def)
  ultimately show ?thesis
    using t c by (simp add: parse_unsigned_def parse_digits_def stamp_ok_def MAX64_def)
qed

lemma spool_parse_Some:
  "spool_parse p = Some f \<longleftrightarrow>
     (\<exists>pre t. file_name p = Some (pre @ ''.'' @ t) \<and> valid_utf8 (pre @ ''.'' @ t) \<and> pre \<noteq> [] \<and> stamp_ok t
        \<and> f = \<lparr>sf_path = parent_dir p @ [pre @ ''.'' @ t], sf_key = parent_dir p @ [pre @ ''.''],
               sf_timestamp = digits_val t\<rparr>)"
  (is "?l \<longleftrightarrow> ?r")
proof
  assume ?l
  then show ?r
    by (auto simp: spool_parse_def stamp_ok_def TIMESTAMP_LENGTH_def
        dest!: rsplit_once_Some split: option.splits if_splits prod.splits)
      (use parse_stamp in \<open>auto simp: stamp_ok_def\<close>)
next
  assume ?r
  then obtain pre t where f: "file_name p = Some (pre @ ''.'' @ t)" "valid_utf8 (pre @ ''.'' @ t)" "pre \<noteq> []"
    "stamp_ok t" "f = \<lparr>sf_path = parent_dir p @ [pre @ ''.'' @ t], sf_key = parent_dir p @ [pre @ ''.''],
               sf_timestamp = digits_val t\<rparr>" by blast
  have "CHR ''.'' \<notin> set t" using f(4) by (auto simp: stamp_ok_def is_digit_def less_eq_char_def list_all_iff)
  then have "rsplit_once (CHR ''.'') (pre @ CHR ''.'' # t) = Some (pre, t)" by (rule rsplit_once_append)
  with f parse_stamp [OF f(4)] show ?l
    by (simp add: spool_parse_def TIMESTAMP_LENGTH_def stamp_ok_def)
qed

section \<open>Lemmas: scanning a directory\<close>

text \<open>The files of a listing that a stream's file may move on to.\<close>

definition newer_candidate :: "spool_file \<Rightarrow> path \<Rightarrow> (string + string) list \<Rightarrow> spool_file \<Rightarrow> bool" where
  "newer_candidate self directory entries f \<longleftrightarrow>
     (\<exists>name. Inr name \<in> set entries \<and> spool_parse (directory @ [name]) = Some f)
     \<and> sf_key f = sf_key self \<and> sf_timestamp self < sf_timestamp f"

definition better :: "bool \<Rightarrow> spool_file \<Rightarrow> spool_file \<Rightarrow> bool" where
  "better latest f g \<longleftrightarrow>
     (if latest then sf_timestamp g \<le> sf_timestamp f else sf_timestamp f \<le> sf_timestamp g)"

lemma better_refl [simp]: "better latest f f"
  by (simp add: better_def)

lemma newer_candidate_simps:
  "newer_candidate self d [] f \<longleftrightarrow> False"
  "newer_candidate self d (Inl e # es) f \<longleftrightarrow> newer_candidate self d es f"
  "newer_candidate self d (Inr n # es) f \<longleftrightarrow>
     newer_candidate self d es f
     \<or> spool_parse (d @ [n]) = Some f \<and> sf_key f = sf_key self \<and> sf_timestamp self < sf_timestamp f"
  by (auto simp: newer_candidate_def)

text \<open>The scan returns a best candidate of those seen before and those still listed.\<close>

lemma newer_scan_spec:
  assumes "newer_scan self latest d es found = Inr r"
  shows "(r = None \<longleftrightarrow> found = None \<and> (\<forall>f. \<not> newer_candidate self d es f))
    \<and> (\<forall>f. r = Some f \<longrightarrow> (found = Some f \<or> newer_candidate self d es f)
         \<and> (\<forall>g. found = Some g \<or> newer_candidate self d es g \<longrightarrow> better latest f g))"
  using assms
proof (induction self latest d es found rule: newer_scan.induct)
  case (1 self latest d found)
  then show ?case by (auto simp: newer_candidate_simps better_def)
next
  case (3 self latest d n es found)
  show ?case
  proof (cases "spool_parse (d @ [n])")
    case None
    with 3(1) 3(5) show ?thesis by (auto simp: newer_candidate_simps)
  next
    case (Some c)
    show ?thesis
    proof (cases "sf_key c \<noteq> sf_key self \<or> sf_timestamp c \<le> sf_timestamp self")
      case True
      with 3(2) [OF Some] 3(5) Some show ?thesis by (auto simp: newer_candidate_simps)
    next
      case False
      let ?take = "case found of None \<Rightarrow> True | Some current \<Rightarrow>
        (if latest then sf_timestamp c > sf_timestamp current else sf_timestamp c < sf_timestamp current)"
      show ?thesis
      proof (cases ?take)
        case True
        have "newer_scan self latest d es (Some c) = Inr r" using 3(5) Some False True by auto
        from 3(3) [OF Some False True this] Some False True show ?thesis
          by (auto simp: newer_candidate_simps better_def split: option.splits if_splits)
      next
        case take: False
        have "newer_scan self latest d es found = Inr r" using 3(5) Some False take by auto
        from 3(4) [OF Some False take this] Some False take show ?thesis
          by (auto simp: newer_candidate_simps better_def split: option.splits if_splits)
      qed
    qed
  qed
qed simp

section \<open>Lemmas: grouping\<close>

text \<open>After some paths: one entry per key, under its own key, and for a spool stream the
  oldest (or latest) of its files seen.\<close>

definition group_ok :: "bool \<Rightarrow> path list \<Rightarrow> (path \<times> eve_input) list \<Rightarrow> bool" where
  "group_ok at_end ps m \<longleftrightarrow> distinct (map fst m)
     \<and> (\<forall>k i. map_of m k = Some i \<longrightarrow> input_key i = k \<and> (\<exists>p \<in> set ps. input_from_path p = i))
     \<and> (\<forall>p \<in> set ps. \<exists>i. map_of m (input_key (input_from_path p)) = Some i
          \<and> (\<forall>f g. i = Input_Spool f \<longrightarrow> input_from_path p = Input_Spool g \<longrightarrow> better at_end f g))"

lemma group_insert_ok:
  assumes "group_ok at_end ps m"
  shows "group_ok at_end (ps @ [p]) (group_insert at_end m p)"
proof -
  let ?c = "input_from_path p"
  consider (new) "map_of m (input_key ?c) = None"
    | (replace) f g where "map_of m (input_key ?c) = Some (Input_Spool f)" "?c = Input_Spool g"
        "if at_end then sf_timestamp g > sf_timestamp f else sf_timestamp g < sf_timestamp f"
    | (keep) i where "map_of m (input_key ?c) = Some i" "group_insert at_end m p = m"
        "\<forall>f g. i = Input_Spool f \<longrightarrow> ?c = Input_Spool g \<longrightarrow> better at_end f g"
  proof (cases "map_of m (input_key ?c)")
    case (Some i)
    show ?thesis
    proof (cases i)
      case (Input_File q)
      then show ?thesis using Some keep [OF Some] by (simp add: group_insert_def Let_def)
    next
      case i: (Input_Spool f)
      show ?thesis
      proof (cases ?c)
        case (Input_File q)
        then show ?thesis using Some i keep [OF Some] by (simp add: group_insert_def Let_def)
      next
        case (Input_Spool g)
        then show ?thesis
          using Some i keep [OF Some] replace [of f g]
          by (cases "if at_end then sf_timestamp g > sf_timestamp f else sf_timestamp g < sf_timestamp f")
            (auto simp: group_insert_def Let_def better_def split: if_splits)
      qed
    qed
  qed
  then show ?thesis
  proof cases
    case new
    then have g: "group_insert at_end m p = AList.update (input_key ?c) ?c m"
      by (simp add: group_insert_def Let_def)
    show ?thesis
      unfolding g using assms new
      by (auto simp: group_ok_def update_conv distinct_update)
  next
    case (replace f g)
    then have gi: "group_insert at_end m p = AList.update (input_key ?c) ?c m"
      by (simp add: group_insert_def Let_def split: if_splits)
    have old: "better at_end f h" if "q \<in> set ps" "input_from_path q = Input_Spool h" "sf_key h = input_key ?c" for q h
      using assms that replace(1) unfolding group_ok_def by fastforce
    show ?thesis
      unfolding gi group_ok_def
    proof (intro conjI ballI allI impI)
      show "distinct (map fst (AList.update (input_key ?c) ?c m))"
        using assms by (simp add: group_ok_def distinct_update)
    next
      fix k i assume "map_of (AList.update (input_key ?c) ?c m) k = Some i"
      then show "input_key i = k" "\<exists>p \<in> set (ps @ [p]). input_from_path p = i"
        using assms by (auto simp: group_ok_def update_conv split: if_splits)
    next
      fix q assume q: "q \<in> set (ps @ [p])"
      show "\<exists>i. map_of (AList.update (input_key ?c) ?c m) (input_key (input_from_path q)) = Some i
          \<and> (\<forall>f g. i = Input_Spool f \<longrightarrow> input_from_path q = Input_Spool g \<longrightarrow> better at_end f g)"
      proof (cases "input_key (input_from_path q) = input_key ?c")
        case True
        have "better at_end g h" if h: "input_from_path q = Input_Spool h" for h
        proof (cases "q \<in> set ps")
          case True
          then have "better at_end f h" using old [OF _ h] \<open>input_key (input_from_path q) = _\<close> h by simp
          then show ?thesis using replace(3) by (auto simp: better_def split: if_splits)
        next
          case False
          then have "q = p" using q by simp
          then show ?thesis using h replace(2) by (simp add: better_def)
        qed
        then show ?thesis using True replace(2) by (simp add: update_conv)
      next
        case False
        then have "q \<in> set ps" using q by auto
        then show ?thesis using assms False by (auto simp: group_ok_def update_conv)
      qed
    qed
  next
    case (keep i)
    then show ?thesis using assms unfolding keep(2) by (auto simp: group_ok_def)
  qed
qed

lemma group_fold_ok: "group_ok at_end ps (foldl (group_insert at_end) [] ps)"
proof (induction ps rule: rev_induct)
  case Nil
  then show ?case by (simp add: group_ok_def)
next
  case (snoc p ps)
  then show ?case using group_insert_ok by simp
qed

section \<open>Properties\<close>

text \<open>Following a spool: the next file is an oldest file of the same stream that is newer
  than the current one, and there is none exactly when no listed file of the stream is newer;
  files of other streams (another base name or thread index) and files that are not of the
  spool are never followed.\<close>

theorem spool_next_exact:
  assumes "spool_next read_dir self = Inr r" and "read_dir (parent_dir (sf_path self)) = Inr entries"
  shows "case r of
      None \<Rightarrow> \<forall>f. \<not> newer_candidate self (parent_dir (sf_path self)) entries f
    | Some f \<Rightarrow> newer_candidate self (parent_dir (sf_path self)) entries f
        \<and> (\<forall>g. newer_candidate self (parent_dir (sf_path self)) entries g \<longrightarrow> sf_timestamp f \<le> sf_timestamp g)"
  using newer_scan_spec [of self False "parent_dir (sf_path self)" entries None r] assms
  by (auto simp: spool_next_def newer_file_def better_def split: option.splits)

text \<open>Grouping gives one input per stream: the keys of the result are distinct, every
  configured path belongs to the input of its key, each input is one of the paths, and the
  file standing for a spool is an oldest one of those configured, the latest in tail mode.\<close>

theorem input_group_exact:
  "distinct (map input_key (input_group paths at_end))
   \<and> set (map input_key (input_group paths at_end)) = (\<lambda>p. input_key (input_from_path p)) ` set paths
   \<and> set (input_group paths at_end) \<subseteq> input_from_path ` set paths
   \<and> (\<forall>f g p. Input_Spool f \<in> set (input_group paths at_end) \<and> p \<in> set paths
        \<and> input_from_path p = Input_Spool g \<and> sf_key g = sf_key f
      \<longrightarrow> (if at_end then sf_timestamp g \<le> sf_timestamp f else sf_timestamp f \<le> sf_timestamp g))"
proof -
  define m where "m = foldl (group_insert at_end) [] paths"
  have ok: "group_ok at_end paths m" unfolding m_def by (rule group_fold_ok)
  then have d: "distinct (map fst m)" by (simp add: group_ok_def)
  have key: "input_key i = k" if "(k, i) \<in> set m" for k i
    using ok that d by (auto simp: group_ok_def)
  have grp: "input_group paths at_end = map snd (sort_key fst m)" by (simp add: input_group_def m_def)
  have keys: "map input_key (input_group paths at_end) = map fst (sort_key fst m)"
    unfolding grp by (auto intro: key)
  have "distinct (map fst (sort_key fst m))"
    using d by (simp add: distinct_map)
  then have 1: "distinct (map input_key (input_group paths at_end))" unfolding keys .
  have dom: "fst ` set m = (\<lambda>p. input_key (input_from_path p)) ` set paths"
  proof (intro set_eqI iffI)
    fix k assume "k \<in> fst ` set m"
    then obtain i where "(k, i) \<in> set m" by auto
    then obtain p where "p \<in> set paths" "input_from_path p = i" using ok d by (auto simp: group_ok_def)
    then show "k \<in> (\<lambda>p. input_key (input_from_path p)) ` set paths" using key [OF \<open>(k, i) \<in> set m\<close>] by force
  next
    fix k assume "k \<in> (\<lambda>p. input_key (input_from_path p)) ` set paths"
    then obtain i where "map_of m k = Some i" using ok unfolding group_ok_def by blast
    then show "k \<in> fst ` set m" by (force dest: map_of_SomeD)
  qed
  have 2: "set (map input_key (input_group paths at_end)) = (\<lambda>p. input_key (input_from_path p)) ` set paths"
    unfolding keys using dom by simp
  have inputs: "set (input_group paths at_end) = snd ` set m" unfolding grp by simp
  have 3: "set (input_group paths at_end) \<subseteq> input_from_path ` set paths"
    unfolding inputs using ok d by (fastforce simp: group_ok_def)
  have 4: "better at_end f g"
    if "Input_Spool f \<in> set (input_group paths at_end)" "p \<in> set paths"
      "input_from_path p = Input_Spool g" "sf_key g = sf_key f" for f g p
  proof -
    have "Input_Spool f \<in> snd ` set m" using that(1) by (simp only: inputs)
    then obtain x where "x \<in> set m" "Input_Spool f = snd x" by blast
    then have k: "(fst x, Input_Spool f) \<in> set m" by (metis prod.collapse)
    then have "map_of m (sf_key f) = Some (Input_Spool f)" using key [OF k] d by simp
    moreover have "\<exists>i. map_of m (sf_key g) = Some i \<and> (\<forall>f g. i = Input_Spool f \<longrightarrow> input_from_path p = Input_Spool g \<longrightarrow> better at_end f g)"
      using ok that(2,3) unfolding group_ok_def by (metis input_key.simps(2))
    ultimately show ?thesis using that(3,4) by auto
  qed
  from 1 2 3 4 show ?thesis unfolding better_def by blast
qed

definition demo_spool :: "string \<Rightarrow> nat \<Rightarrow> spool_file" where
  "demo_spool name ts = \<lparr>sf_path = [''d'', name], sf_key = [''d'', ''e.''], sf_timestamp = ts\<rparr>"

lemma demo_spool_sel [simp]:
  "sf_path (demo_spool n t) = [''d'', n]" "sf_key (demo_spool n t) = [''d'', ''e.'']" "sf_timestamp (demo_spool n t) = t"
  by (simp_all add: demo_spool_def)

lemma demo_spool_parse:
  "input_from_path [''d'', ''e.1700000001''] = Input_Spool (demo_spool ''e.1700000001'' 1700000001)"
  "input_from_path [''d'', ''e.1700000002''] = Input_Spool (demo_spool ''e.1700000002'' 1700000002)"
  "spool_parse [''d'', ''e.1700000001''] = Some (demo_spool ''e.1700000001'' 1700000001)"
  "spool_parse [''d'', ''e.1700000002''] = Some (demo_spool ''e.1700000002'' 1700000002)"
  "spool_parse [''d'', ''x''] = None"
  by (simp_all add: input_from_path_def spool_parse_def file_name_def rsplit_once_def TIMESTAMP_LENGTH_def
      parent_dir_def demo_spool_def MAX64_def string_eval)

theorem spool_next_exact_witness:
  "let self = demo_spool ''e.1700000000'' 1700000000;
       entries = [Inr ''e.1700000002'', Inr ''x'', Inr ''e.1700000001'']
   in spool_next (\<lambda>_. Inr entries) self = Inr (Some (demo_spool ''e.1700000001'' 1700000001))
     \<and> newer_candidate self [''d''] entries (demo_spool ''e.1700000001'' 1700000001)"
proof -
  let ?self = "demo_spool ''e.1700000000'' 1700000000"
  let ?entries = "[Inr ''e.1700000002'', Inr ''x'', Inr ''e.1700000001''] :: (string + string) list"
  have d: "parent_dir (sf_path ?self) = [''d'']" by (simp add: parent_dir_def)
  have n: "spool_next (\<lambda>_. Inr ?entries) ?self = Inr (Some (demo_spool ''e.1700000001'' 1700000001))"
    by (simp add: spool_next_def newer_file_def parent_dir_def demo_spool_parse)
  from spool_next_exact [OF n refl] n d show ?thesis by simp
qed

theorem input_group_exact_witness:
  "input_group [[''d'', ''e.1700000002''], [''d'', ''e.1700000001'']] False
     = [Input_Spool (demo_spool ''e.1700000001'' 1700000001)]
   \<and> sf_timestamp (demo_spool ''e.1700000001'' 1700000001) \<le> sf_timestamp (demo_spool ''e.1700000002'' 1700000002)"
proof -
  let ?ps = "[[''d'', ''e.1700000002''], [''d'', ''e.1700000001'']]"
  have g: "input_group ?ps False = [Input_Spool (demo_spool ''e.1700000001'' 1700000001)]"
    by (simp add: input_group_def group_insert_def demo_spool_parse Let_def)
  have "Input_Spool (demo_spool ''e.1700000001'' 1700000001) \<in> set (input_group ?ps False)
      \<and> [''d'', ''e.1700000002''] \<in> set ?ps
      \<and> input_from_path [''d'', ''e.1700000002''] = Input_Spool (demo_spool ''e.1700000002'' 1700000002)
      \<and> sf_key (demo_spool ''e.1700000002'' 1700000002) = sf_key (demo_spool ''e.1700000001'' 1700000001)"
    unfolding g by (simp add: demo_spool_parse)
  then have "if False then sf_timestamp (demo_spool ''e.1700000002'' 1700000002)
        \<le> sf_timestamp (demo_spool ''e.1700000001'' 1700000001)
      else sf_timestamp (demo_spool ''e.1700000001'' 1700000001)
        \<le> sf_timestamp (demo_spool ''e.1700000002'' 1700000002)"
    by (rule input_group_exact [of ?ps False, THEN conjunct2, THEN conjunct2, THEN conjunct2, rule_format])
  with g show ?thesis by simp
qed

end
