(* ===== verification/Eve_Reader.thy ===== *)
theory Eve_Reader
  imports Eve_Spool Json
begin

text \<open>
  The reader of EVE logs (\<open>src/src/eve/reader.rs\<close>): lines and records of a file that another
  process appends to, the positions a bookmark refers to, the switch along a spool, and the
  reader of a stream. The file system is a record: names refer to inodes, an open file is an
  inode with a position, so it survives renaming and deletion; the operations of one call see
  one state of it. \<open>serde_json::from_str\<close> is the parameter \<open>parse\<close>. Counters are numbers.
\<close>

section \<open>The file system\<close>

record world =
  wd_names :: "path \<Rightarrow> nat option"
  wd_data :: "nat \<Rightarrow> string"
  wd_open_error :: "path \<Rightarrow> string option"
  wd_read_error :: "nat \<Rightarrow> string option"
  wd_listing :: "path \<Rightarrow> dir_entries"

definition open_file :: "world \<Rightarrow> path \<Rightarrow> string + nat" where
  "open_file w p =
     (case wd_names w p of
        None \<Rightarrow> Inl ''No such file or directory''
      | Some inode \<Rightarrow> (case wd_open_error w p of Some e \<Rightarrow> Inl e | None \<Rightarrow> Inr inode))"

text \<open>The entries of a directory whose names exist.\<close>

definition read_dir :: "world \<Rightarrow> path \<Rightarrow> dir_entries" where
  "read_dir w d =
     try_then (wd_listing w d)
       (\<lambda>es. Inr (filter (\<lambda>e. case e of Inl _ \<Rightarrow> True | Inr n \<Rightarrow> wd_names w (d @ [n]) \<noteq> None) es))"

text \<open>What \<open>read_line\<close> takes: up to the first newline, which it includes.\<close>

definition take_line :: "string \<Rightarrow> string" where
  "take_line s = takeWhile (\<lambda>c. c \<noteq> CHR 0x0A) s @ (if CHR 0x0A \<in> set s then [CHR 0x0A] else [])"

section \<open>The reader\<close>

datatype reader_error = Parse_Error nat string | Io_Error string

record eve_reader =
  er_filename :: path
  er_reader :: "(nat \<times> nat) option"
  er_lineno :: nat
  er_offset :: nat
  er_unterminated :: bool
  er_spool :: "spool_file option"
  er_delete :: bool
  er_completed :: "path list"

definition reader_new :: "path \<Rightarrow> eve_reader" where
  "reader_new filename = \<lparr>er_filename = filename, er_reader = None, er_lineno = 0, er_offset = 0,
     er_unterminated = False, er_spool = None, er_delete = False, er_completed = []\<rparr>"

definition reader_from_input :: "eve_input \<Rightarrow> eve_reader" where
  "reader_from_input input = (reader_new (input_path input))\<lparr>er_spool := input_spool_file input\<rparr>"

definition set_delete_processed :: "bool \<Rightarrow> eve_reader \<Rightarrow> eve_reader" where
  "set_delete_processed enabled r = r\<lparr>er_delete := enabled\<rparr>"

definition reader_open :: "world \<Rightarrow> eve_reader \<Rightarrow> reader_error + eve_reader" where
  "reader_open w r =
     (case open_file w (er_filename r) of
        Inl e \<Rightarrow> Inl (Io_Error e)
      | Inr inode \<Rightarrow> Inr (r\<lparr>er_reader := Some (inode, 0), er_lineno := 0, er_offset := 0\<rparr>))"

text \<open>An operation that fails still leaves a reader behind.\<close>

type_synonym 'a reader_result = "(reader_error + 'a) \<times> eve_reader"

definition reopen :: "world \<Rightarrow> eve_reader \<Rightarrow> unit reader_result" where
  "reopen w r =
     (case reader_open w r of
        Inl e \<Rightarrow> (Inl e, r\<lparr>er_reader := None, er_lineno := 0, er_offset := 0\<rparr>)
      | Inr r' \<Rightarrow> (Inr (), r'))"

definition ensure_open :: "world \<Rightarrow> eve_reader \<Rightarrow> reader_error + eve_reader" where
  "ensure_open w r = (if er_reader r = None then reader_open w r else Inr r)"

text \<open>One line. Bytes that are not UTF-8 are consumed with the error, as \<open>read_line\<close> does.\<close>

definition next_line :: "bool \<Rightarrow> world \<Rightarrow> eve_reader \<Rightarrow> string option reader_result" where
  "next_line accept_unterminated w r0 =
     (let r = r0\<lparr>er_unterminated := False\<rparr>
      in case er_reader r of
           None \<Rightarrow> (Inr None, r)
         | Some (inode, pos) \<Rightarrow>
             (case wd_read_error w inode of
                Some e \<Rightarrow> (Inl (Io_Error e), r)
              | None \<Rightarrow>
                  (let line = take_line (drop pos (wd_data w inode)); n = length line;
                       seen = r\<lparr>er_reader := Some (inode, pos + n), er_offset := pos + n,
                                er_lineno := er_lineno r + 1\<rparr>
                   in if \<not> valid_utf8 line
                      then (Inl (Io_Error ''stream did not contain valid UTF-8''),
                            r\<lparr>er_reader := Some (inode, pos + n)\<rparr>)
                      else if n = 0 then (Inr None, r)
                      else if last line \<noteq> CHR 0x0A
                      then (if accept_unterminated
                            then (Inr (Some (trim line)), seen\<lparr>er_unterminated := True\<rparr>)
                            else (Inr None, r))
                      else (Inr (Some (trim line)), seen))))"

text \<open>The bytes not yet read bound the loops over lines.\<close>

definition unread :: "world \<Rightarrow> eve_reader \<Rightarrow> nat" where
  "unread w r = (case er_reader r of None \<Rightarrow> 0 | Some (inode, pos) \<Rightarrow> length (wd_data w inode) - pos)"

lemma take_line_prefix: "prefix (take_line s) s"
proof (cases "CHR 0x0A \<in> set s")
  case True
  then obtain a b where s: "s = a @ CHR 0x0A # b" "CHR 0x0A \<notin> set a" by (metis split_list_first)
  have "takeWhile (\<lambda>c. c \<noteq> CHR 0x0A) s = a"
    unfolding s(1) by (subst takeWhile_append2) (use s(2) in auto)
  with True s(1) show ?thesis by (simp add: take_line_def)
next
  case False
  then show ?thesis by (simp add: take_line_def takeWhile_is_prefix)
qed

lemma take_line_less: "take_line s \<noteq> [] \<Longrightarrow> length s - length (take_line s) < length s"
  using prefix_length_le [OF take_line_prefix [of s]] by (cases "take_line s") auto

lemma next_line_consumes:
  "next_line acc w r = (Inr (Some l), r') \<Longrightarrow> unread w r' < unread w r"
proof -
  assume n: "next_line acc w r = (Inr (Some l), r')"
  then obtain inode pos where r: "er_reader r = Some (inode, pos)"
    by (auto simp: next_line_def Let_def split: option.splits)
  let ?l = "take_line (drop pos (wd_data w inode))"
  have "?l \<noteq> []" "er_reader r' = Some (inode, pos + length ?l)"
    using n r by (auto simp: next_line_def Let_def split: option.splits if_splits)
  moreover have "length ?l \<le> length (drop pos (wd_data w inode))"
    using take_line_prefix by (rule prefix_length_le)
  moreover have "0 < length ?l" using \<open>?l \<noteq> []\<close> by simp
  ultimately show ?thesis
    using r by (simp only: unread_def option.case prod.case length_drop)
qed

function skip_lines :: "world \<Rightarrow> eve_reader \<Rightarrow> unit reader_result" where
  "skip_lines w r =
     (case next_line False w r of
        (Inl e, r') \<Rightarrow> (Inl e, r')
      | (Inr None, r') \<Rightarrow> (Inr (), r')
      | (Inr (Some l), r') \<Rightarrow> skip_lines w r')"
  by pat_completeness auto

termination
  by (relation "measure (\<lambda>(w, r). unread w r)") (auto simp: next_line_consumes eq_commute [of "(_, _)" "next_line _ _ _"])

declare skip_lines.simps [simp del]

fun goto_loop :: "world \<Rightarrow> nat \<Rightarrow> nat \<Rightarrow> eve_reader \<Rightarrow> nat reader_result" where
  "goto_loop w 0 skipped r = (Inr skipped, r)"
| "goto_loop w (Suc n) skipped r =
     (case next_line False w r of
        (Inl e, r') \<Rightarrow> (Inl e, r')
      | (Inr None, r') \<Rightarrow> (Inr skipped, r')
      | (Inr (Some l), r') \<Rightarrow> goto_loop w n (Suc skipped) r')"

definition goto_lineno :: "world \<Rightarrow> nat \<Rightarrow> eve_reader \<Rightarrow> nat reader_result" where
  "goto_lineno w lineno r =
     (case ensure_open w r of Inl e \<Rightarrow> (Inl e, r) | Inr r' \<Rightarrow> goto_loop w lineno 0 r')"

definition switch_spool_file :: "spool_file \<Rightarrow> eve_reader \<Rightarrow> eve_reader" where
  "switch_spool_file file r = r\<lparr>er_filename := sf_path file, er_reader := None, er_lineno := 0,
     er_offset := 0, er_unterminated := False, er_spool := Some file\<rparr>"

definition goto_end :: "world \<Rightarrow> eve_reader \<Rightarrow> nat reader_result" where
  "goto_end w r =
     (case (case er_spool r of None \<Rightarrow> Inr None | Some sf \<Rightarrow> spool_latest (read_dir w) sf) of
        Inl e \<Rightarrow> (Inl (Io_Error e), r)
      | Inr latest \<Rightarrow>
          (let r = (case latest of None \<Rightarrow> r | Some f \<Rightarrow> switch_spool_file f r)
           in case ensure_open w r of
                Inl e \<Rightarrow> (Inl e, r)
              | Inr r \<Rightarrow>
                  (case skip_lines w r of
                     (Inl e, r') \<Rightarrow> (Inl e, r')
                   | (Inr _, r') \<Rightarrow> (Inr (er_lineno r'), r'))))"

definition select_bookmark :: "path \<Rightarrow> eve_reader \<Rightarrow> reader_error + eve_reader" where
  "select_bookmark filename r =
     (case er_spool r of
        None \<Rightarrow> Inr r
      | Some current \<Rightarrow>
          (case spool_parse filename of
             None \<Rightarrow> Inl (Io_Error ''bookmark does not refer to an EVE spool file'')
           | Some bookmarked \<Rightarrow>
               (if sf_key bookmarked \<noteq> sf_key current
                then Inl (Io_Error ''bookmark refers to a different EVE spool stream'')
                else Inr (switch_spool_file bookmarked r))))"

definition stream_offset :: "eve_reader \<Rightarrow> nat" where
  "stream_offset r = (case er_reader r of None \<Rightarrow> 0 | Some (inode, pos) \<Rightarrow> pos)"

section \<open>Records\<close>

function record_loop ::
    "(string \<Rightarrow> string + json) \<Rightarrow> bool \<Rightarrow> world \<Rightarrow> eve_reader \<Rightarrow> json option reader_result" where
  "record_loop parse acc w r =
     (case next_line acc w r of
        (Inl e, r') \<Rightarrow> (Inl e, r')
      | (Inr None, r') \<Rightarrow> (Inr None, r')
      | (Inr (Some line), r') \<Rightarrow>
          (if line = [] then record_loop parse acc w r'
           else case parse line of
                  Inr v \<Rightarrow> (Inr (Some v), r')
                | Inl source \<Rightarrow>
                    (if er_unterminated r' then (Inr None, r')
                     else (Inl (Parse_Error (er_lineno r') source), r'))))"
  by pat_completeness auto

termination
  by (relation "measure (\<lambda>(parse, acc, w, r). unread w r)") (auto simp: next_line_consumes eq_commute [of "(_, _)" "next_line _ _ _"])

declare record_loop.simps [simp del]

definition next_record_inner ::
    "(string \<Rightarrow> string + json) \<Rightarrow> bool \<Rightarrow> world \<Rightarrow> eve_reader \<Rightarrow> json option reader_result" where
  "next_record_inner parse acc w r =
     (case ensure_open w r of Inl e \<Rightarrow> (Inl e, r) | Inr r' \<Rightarrow> record_loop parse acc w r')"

definition next_file_record ::
    "(string \<Rightarrow> string + json) \<Rightarrow> world \<Rightarrow> eve_reader \<Rightarrow> json option reader_result" where
  "next_file_record parse w r = next_record_inner parse True w r"

text \<open>What reading leaves alone: the file, the stream, what is completed.\<close>

definition same_file :: "eve_reader \<Rightarrow> eve_reader \<Rightarrow> bool" where
  "same_file r r' \<longleftrightarrow> er_filename r' = er_filename r \<and> er_spool r' = er_spool r
     \<and> er_delete r' = er_delete r \<and> er_completed r' = er_completed r"

lemma same_file_refl [simp]: "same_file r r"
  by (simp add: same_file_def)

lemma same_file_trans: "same_file a b \<Longrightarrow> same_file b c \<Longrightarrow> same_file a c"
  by (simp add: same_file_def)

lemma next_line_same: "next_line acc w r = (x, r') \<Longrightarrow> same_file r r'"
  by (auto simp: next_line_def Let_def same_file_def split: option.splits if_splits)

lemma reader_open_same: "reader_open w r = Inr r' \<Longrightarrow> same_file r r'"
  by (auto simp: reader_open_def same_file_def split: sum.splits)

lemma ensure_open_same: "ensure_open w r = Inr r' \<Longrightarrow> same_file r r'"
  by (auto simp: ensure_open_def reader_open_same split: if_splits)

lemma record_loop_same: "record_loop parse acc w r = (x, r') \<Longrightarrow> same_file r r'"
proof (induction parse acc w r rule: record_loop.induct)
  case (1 parse acc w r)
  obtain y r1 where n: "next_line acc w r = (y, r1)" by fastforce
  note s = next_line_same [OF n]
  show ?case
  proof (cases "y = Inr (Some [])")
    case True
    have l: "record_loop parse acc w r1 = (x, r')"
      using 1(2) n True by (subst (asm) record_loop.simps) simp
    show ?thesis using same_file_trans [OF s] 1(1) [OF n [unfolded True, symmetric] refl refl refl l] by simp
  next
    case False
    with 1(2) n have "r' = r1"
      by (subst (asm) record_loop.simps) (auto split: sum.splits option.splits if_splits)
    with s show ?thesis by simp
  qed
qed

lemma next_record_inner_same: "next_record_inner parse acc w r = (x, r') \<Longrightarrow> same_file r r'"
  by (auto simp: next_record_inner_def split: sum.splits dest: ensure_open_same record_loop_same
      intro: same_file_trans)

section \<open>Following the spool\<close>

text \<open>The number of files a stream can still move on to.\<close>

definition files_ahead :: "world \<Rightarrow> eve_reader \<Rightarrow> nat" where
  "files_ahead w r =
     (case er_spool r of
        None \<Rightarrow> 0
      | Some sf \<Rightarrow>
          (case read_dir w (parent_dir (sf_path sf)) of
             Inl _ \<Rightarrow> 0
           | Inr entries \<Rightarrow> card {f. newer_candidate sf (parent_dir (sf_path sf)) entries f}))"

lemma newer_candidate_dir:
  assumes "newer_candidate self d entries f" and "d \<noteq> []"
  shows "parent_dir (sf_path f) = d"
  using assms by (auto simp: newer_candidate_def spool_parse_Some parent_dir_def)

lemma finite_candidates: "finite {f. newer_candidate self d entries f}"
proof (rule finite_subset)
  show "{f. newer_candidate self d entries f} \<subseteq>
      (\<lambda>e. case e of Inr n \<Rightarrow> the (spool_parse (d @ [n])) | Inl _ \<Rightarrow> self) ` set entries"
    by (force simp: newer_candidate_def image_iff split: sum.splits)
qed simp

lemma spool_next_ahead:
  assumes "spool_next (read_dir w) sf = Inr (Some f)" and "er_spool r = Some sf" and "er_spool r' = Some f"
  shows "files_ahead w r' < files_ahead w r"
proof -
  let ?d = "parent_dir (sf_path sf)"
  obtain entries where e: "read_dir w ?d = Inr entries"
    using assms(1) by (auto simp: spool_next_def newer_file_def Let_def)
  have scan: "newer_scan sf False ?d entries None = Inr (Some f)"
    using assms(1) e by (simp add: spool_next_def newer_file_def)
  have c: "newer_candidate sf ?d entries f" using newer_scan_spec [OF scan] by simp
  have d: "parent_dir (sf_path f) = ?d" using newer_candidate_dir [OF c] by (simp add: parent_dir_def)
  have "{g. newer_candidate f ?d entries g} \<subset> {g. newer_candidate sf ?d entries g}"
    using c by (auto simp: newer_candidate_def)
  then have "card {g. newer_candidate f ?d entries g} < card {g. newer_candidate sf ?d entries g}"
    by (rule psubset_card_mono [OF finite_candidates])
  then show ?thesis using assms(2,3) d e by (simp add: files_ahead_def)
qed

definition advance :: "spool_file \<Rightarrow> eve_reader \<Rightarrow> eve_reader" where
  "advance next_file r =
     (let completed = er_filename r; r = switch_spool_file next_file r
      in if er_delete r then r\<lparr>er_completed := er_completed r @ [completed]\<rparr> else r)"

function next_record ::
    "(string \<Rightarrow> string + json) \<Rightarrow> world \<Rightarrow> eve_reader \<Rightarrow> json option reader_result" where
  "next_record parse w r =
     (case next_record_inner parse False w r of
        (Inl e, r') \<Rightarrow> (Inl e, r')
      | (Inr (Some record_), r') \<Rightarrow> (Inr (Some record_), r')
      | (Inr None, r') \<Rightarrow>
          (case er_spool r' of
             None \<Rightarrow> (Inr None, r')
           | Some sf \<Rightarrow>
               (case spool_next (read_dir w) sf of
                  Inl e \<Rightarrow> (Inl (Io_Error e), r')
                | Inr None \<Rightarrow> (Inr None, r')
                | Inr (Some f) \<Rightarrow> next_record parse w (advance f r'))))"
  by pat_completeness auto

termination
proof (relation "measure (\<lambda>(parse, w, r). files_ahead w r)", goal_cases)
  case (2 parse w r x r' y sf z f)
  then have "same_file r r'" using next_record_inner_same [of parse False w r "Inr None" r'] by simp
  then have "er_spool r = Some sf" using 2 by (simp add: same_file_def)
  then show ?case
    using spool_next_ahead [of w sf f r "advance f r'"] 2
    by (simp add: advance_def switch_spool_file_def Let_def)
qed simp

declare next_record.simps [simp del]

definition has_completed_spool_files :: "eve_reader \<Rightarrow> bool" where
  "has_completed_spool_files r \<longleftrightarrow> er_completed r \<noteq> []"

text \<open>Removing the completed files: an error other than a missing file is only logged.\<close>

definition delete_completed_spool_files ::
    "(path \<Rightarrow> string option) \<Rightarrow> world \<Rightarrow> eve_reader \<Rightarrow> world \<times> eve_reader" where
  "delete_completed_spool_files remove_error w r =
     (foldl (\<lambda>w p. case remove_error p of
                Some _ \<Rightarrow> w
              | None \<Rightarrow> w\<lparr>wd_names := (wd_names w)(p := None)\<rparr>) w (er_completed r),
      r\<lparr>er_completed := []\<rparr>)"

section \<open>Metadata\<close>

record file_metadata =
  fm_filename :: path
  fm_lineno :: nat
  fm_size :: nat
  fm_inode :: "nat option"

definition reader_metadata :: "world \<Rightarrow> eve_reader \<Rightarrow> file_metadata option" where
  "reader_metadata w r =
     (case er_reader r of
        None \<Rightarrow> None
      | Some (inode, pos) \<Rightarrow>
          Some \<lparr>fm_filename = er_filename r, fm_lineno = er_lineno r,
                fm_size = length (wd_data w inode), fm_inode = Some inode\<rparr>)"

definition is_file_changed :: "world \<Rightarrow> eve_reader \<Rightarrow> bool" where
  "is_file_changed w r =
     (let opened = map_option fst (er_reader r); disk = wd_names w (er_filename r)
      in if opened = None \<and> disk = None then False
         else if opened = None \<and> disk \<noteq> None then True
         else if opened \<noteq> None \<and> disk = None then False
         else if disk \<noteq> opened then True
         else if length (wd_data w (the disk)) < er_offset r then True
         else False)"

definition file_size :: "world \<Rightarrow> eve_reader \<Rightarrow> nat" where
  "file_size w r =
     (case wd_names w (er_filename r) of Some inode \<Rightarrow> length (wd_data w inode) | None \<Rightarrow> 0)"

section \<open>The stream reader\<close>

record stream_reader =
  sr_input :: string
  sr_lineno :: nat

definition stream_reader_new :: "string \<Rightarrow> stream_reader" where
  "stream_reader_new input = \<lparr>sr_input = input, sr_lineno = 0\<rparr>"

text \<open>One line off a stream: the line and what follows it.\<close>

definition stream_line :: "stream_reader \<Rightarrow> string \<times> stream_reader" where
  "stream_line r =
     (let line = take_line (sr_input r) in (line, r\<lparr>sr_input := drop (length line) (sr_input r)\<rparr>))"

function stream_next_record ::
    "(string \<Rightarrow> string + json) \<Rightarrow> stream_reader \<Rightarrow> (reader_error + json option) \<times> stream_reader" where
  "stream_next_record parse r =
     (let (raw, r) = stream_line r
      in if \<not> valid_utf8 raw then (Inl (Io_Error ''stream did not contain valid UTF-8''), r)
         else if raw = [] then (Inr None, r)
         else
           (let r = r\<lparr>sr_lineno := sr_lineno r + 1\<rparr>; line = trim raw
            in if line = [] then stream_next_record parse r
               else case parse line of
                      Inr v \<Rightarrow> (Inr (Some v), r)
                    | Inl source \<Rightarrow>
                        (if last raw \<noteq> CHR 0x0A then (Inr None, r)
                         else (Inl (Parse_Error (sr_lineno r) source), r))))"
  by pat_completeness auto

termination
  by (relation "measure (\<lambda>(parse, r). length (sr_input r))") (auto simp: stream_line_def Let_def take_line_less)

declare stream_next_record.simps [simp del]

section \<open>Lemmas: positions\<close>

abbreviation newline :: char where "newline \<equiv> CHR 0x0A"

text \<open>The offset \<open>p\<close> is the start of line \<open>n\<close>: what lies before is \<open>n\<close> terminated lines.\<close>

definition at_line :: "string \<Rightarrow> nat \<Rightarrow> nat \<Rightarrow> bool" where
  "at_line s n p \<longleftrightarrow> p \<le> length s \<and> count_list (take p s) newline = n \<and> (p = 0 \<or> s ! (p - 1) = newline)"

lemma at_line_0 [simp]: "at_line s 0 0"
  by (simp add: at_line_def)

lemma take_line_terminated:
  "newline \<in> set s \<Longrightarrow> \<exists>a. take_line s = a @ [newline] \<and> newline \<notin> set a \<and> prefix (a @ [newline]) s"
  using take_line_prefix [of s] set_takeWhileD [of newline "\<lambda>c. c \<noteq> newline" s]
  by (auto simp: take_line_def)

lemma take_line_open: "newline \<notin> set s \<Longrightarrow> take_line s = s"
  by (simp add: take_line_def takeWhile_eq_all_conv) blast

lemma at_line_step:
  assumes "at_line s n p" and "newline \<in> set (drop p s)"
  shows "at_line s (Suc n) (p + length (take_line (drop p s)))"
proof -
  obtain a where a: "take_line (drop p s) = a @ [newline]" "newline \<notin> set a" "prefix (a @ [newline]) (drop p s)"
    using take_line_terminated [OF assms(2)] by blast
  then obtain rest where rest: "drop p s = a @ newline # rest" by (auto simp: prefix_def)
  have s: "s = take p s @ a @ newline # rest" using append_take_drop_id [of p s] rest by simp
  have lp: "length (take p s) = p" using assms(1) by (simp add: at_line_def)
  have t: "take (p + length (a @ [newline])) s = take p s @ a @ [newline]"
    using lp by (subst s) simp
  have "count_list a newline = 0" using a(2) by (simp add: count_list_0_iff)
  moreover have "s ! (p + length a) = newline"
    using lp by (subst s) (simp add: nth_append)
  moreover have "p + length (a @ [newline]) \<le> length s"
    using arg_cong [OF s, of length] lp by simp
  ultimately show ?thesis
    using assms(1) t unfolding a(1) by (simp add: at_line_def)
qed

text \<open>Going on from an earlier line start never passes a later one.\<close>

lemma at_line_next_le:
  assumes "at_line s n p" and "at_line s m q" and "m < n"
  shows "newline \<in> set (drop q s)" and "q + length (take_line (drop q s)) \<le> p"
proof -
  have qp: "q < p"
  proof (rule ccontr)
    assume "\<not> q < p"
    then have "take p s = take p (take q s)" by simp
    then have "count_list (take p s) newline \<le> count_list (take q s) newline"
      by (metis append_take_drop_id count_list_append le_add1)
    with assms show False by (simp add: at_line_def)
  qed
  have p: "p \<le> length s" "s ! (p - 1) = newline" using assms(1) qp by (auto simp: at_line_def)
  have sp: "drop q s = take (p - q) (drop q s) @ drop p s"
    using qp by (metis append_take_drop_id drop_drop le_add_diff_inverse2 less_imp_le_nat)
  let ?mid = "take (p - q) (drop q s)"
  have len: "length ?mid = p - q" using p qp by simp
  have lastm: "?mid ! (p - q - 1) = newline" using p qp by (simp add: nth_drop)
  have nm: "newline \<in> set ?mid"
    using lastm len qp by (metis diff_less nth_mem zero_less_diff zero_less_one)
  then show nl: "newline \<in> set (drop q s)" by (metis in_set_takeD)
  obtain a where a: "take_line (drop q s) = a @ [newline]" "newline \<notin> set a" "prefix (a @ [newline]) (drop q s)"
    using take_line_terminated [OF nl] by blast
  have "length (a @ [newline]) \<le> p - q"
  proof (rule ccontr)
    assume "\<not> length (a @ [newline]) \<le> p - q"
    then have "p - q \<le> length a" by simp
    moreover have "prefix a (drop q s)" using a(3) by (metis prefix_snocD prefix_order.less_imp_le)
    ultimately have "prefix ?mid a"
      by (metis len length_take prefix_length_prefix sp prefixI)
    with nm a(2) show False by (metis in_mono set_mono_prefix)
  qed
  then show "q + length (take_line (drop q s)) \<le> p" unfolding a(1) using qp by simp
qed

lemma at_line_unique:
  assumes "at_line s n p" and "at_line s n q"
  shows "p = q"
proof -
  have "p \<le> q" if "at_line s n p" "at_line s n q" for p q
  proof (rule ccontr)
    assume "\<not> p \<le> q"
    then have qp: "q < p" by simp
    have p: "p \<le> length s" "s ! (p - 1) = newline" "count_list (take p s) newline = count_list (take q s) newline"
      using that qp by (auto simp: at_line_def)
    have "take p s = take q s @ take (p - q) (drop q s)"
      using qp by (metis add.commute le_add_diff_inverse less_imp_le_nat take_add)
    then have "count_list (take (p - q) (drop q s)) newline = 0" using p(3) by (metis add_diff_cancel_left' count_list_append diff_self_eq_0)
    moreover have "take (p - q) (drop q s) ! (p - q - 1) = newline" "p - q - 1 < length (take (p - q) (drop q s))"
      using p qp by (auto simp: nth_drop)
    ultimately show False by (metis count_list_0_iff nth_mem)
  qed
  with assms show ?thesis by (simp add: order_antisym)
qed

text \<open>A reader of text: no read errors, every line UTF-8.\<close>

definition text_inode :: "world \<Rightarrow> nat \<Rightarrow> bool" where
  "text_inode w inode \<longleftrightarrow> wd_read_error w inode = None
     \<and> (\<forall>n p. at_line (wd_data w inode) n p \<longrightarrow> valid_utf8 (take_line (drop p (wd_data w inode))))"

definition reader_at :: "world \<Rightarrow> nat \<Rightarrow> eve_reader \<Rightarrow> bool" where
  "reader_at w inode r \<longleftrightarrow>
     (\<exists>p. er_reader r = Some (inode, p) \<and> at_line (wd_data w inode) (er_lineno r) p)"

lemma next_line_text:
  assumes "text_inode w inode" and "er_reader r = Some (inode, p)" and "at_line (wd_data w inode) (er_lineno r) p"
  shows "next_line False w r =
    (if newline \<in> set (drop p (wd_data w inode))
     then (let q = p + length (take_line (drop p (wd_data w inode)))
           in (Inr (Some (trim (take_line (drop p (wd_data w inode))))),
               r\<lparr>er_unterminated := False, er_reader := Some (inode, q), er_offset := q,
                 er_lineno := er_lineno r + 1\<rparr>))
     else (Inr None, r\<lparr>er_unterminated := False\<rparr>))"
proof -
  let ?s = "drop p (wd_data w inode)"
  have utf: "valid_utf8 (take_line ?s)" and err: "wd_read_error w inode = None"
    using assms(1,3) by (auto simp: text_inode_def)
  show ?thesis
  proof (cases "newline \<in> set ?s")
    case True
    from take_line_terminated [OF True] obtain a where a: "take_line ?s = a @ [newline]" by blast
    then show ?thesis using utf err assms(2) True by (simp add: next_line_def Let_def)
  next
    case False
    then have l: "take_line ?s = ?s" by (rule take_line_open)
    have "?s \<noteq> [] \<Longrightarrow> last ?s \<noteq> newline" using False by (metis last_in_set)
    then show ?thesis using utf err assms(2) False unfolding next_line_def by (auto simp: Let_def l)
  qed
qed

lemma next_line_at:
  assumes "text_inode w inode" and "reader_at w inode r" and "next_line False w r = (x, r')"
  shows "reader_at w inode r'" and "\<exists>v. x = Inr v"
    and "er_lineno r' = er_lineno r + (if \<exists>l. x = Inr (Some l) then 1 else 0)"
proof -
  from assms(2) obtain p where p: "er_reader r = Some (inode, p)" "at_line (wd_data w inode) (er_lineno r) p"
    by (auto simp: reader_at_def)
  note n = next_line_text [OF assms(1) p]
  have "reader_at w inode r' \<and> (\<exists>v. x = Inr v)
      \<and> er_lineno r' = er_lineno r + (if \<exists>l. x = Inr (Some l) then 1 else 0)"
  proof (cases "newline \<in> set (drop p (wd_data w inode))")
    case True
    with n assms(3) at_line_step [OF p(2) True] show ?thesis by (auto simp: Let_def reader_at_def)
  next
    case False
    with n assms(3) p show ?thesis by (auto simp: reader_at_def)
  qed
  then show "reader_at w inode r'" "\<exists>v. x = Inr v"
    "er_lineno r' = er_lineno r + (if \<exists>l. x = Inr (Some l) then 1 else 0)" by auto
qed

section \<open>Lemmas: seeking\<close>

lemma goto_loop_at:
  assumes "text_inode w inode" and "at_line (wd_data w inode) (m + n) p"
    and "er_reader r = Some (inode, q)" and "er_lineno r = m" and "at_line (wd_data w inode) m q"
  shows "\<exists>r'. goto_loop w n skipped r = (Inr (skipped + n), r') \<and> er_reader r' = Some (inode, p)
    \<and> er_lineno r' = m + n \<and> same_file r r'"
  using assms(2-)
proof (induction n arbitrary: m q r skipped)
  case 0
  then show ?case using at_line_unique [of _ m p q] by auto
next
  case (Suc n)
  let ?s = "wd_data w inode"
  note nxt = at_line_next_le [OF Suc.prems(1) Suc.prems(4)]
  have nl: "newline \<in> set (drop q ?s)" using nxt(1) by simp
  have at: "at_line ?s (Suc m) (q + length (take_line (drop q ?s)))"
    by (rule at_line_step [OF Suc.prems(4) nl])
  have n: "next_line False w r = (Inr (Some (trim (take_line (drop q ?s)))),
      r\<lparr>er_unterminated := False, er_reader := Some (inode, q + length (take_line (drop q ?s))),
        er_offset := q + length (take_line (drop q ?s)), er_lineno := Suc m\<rparr>)"
    using next_line_text [OF assms(1) Suc.prems(2)] Suc.prems(3,4) nl by (simp add: Let_def)
  obtain r' where "goto_loop w n (Suc skipped) (snd (next_line False w r)) = (Inr (Suc skipped + n), r')"
      "er_reader r' = Some (inode, p)" "er_lineno r' = Suc m + n" "same_file (snd (next_line False w r)) r'"
    using Suc.IH [of "Suc m" "snd (next_line False w r)" "q + length (take_line (drop q ?s))" "Suc skipped"]
      Suc.prems(1) at n by auto
  moreover have "same_file r (snd (next_line False w r))" using next_line_same [OF n] n by simp
  ultimately show ?case using n same_file_trans by auto
qed

lemma prefix_at_line: "at_line s n p \<Longrightarrow> prefix s t \<Longrightarrow> at_line t n p"
  by (cases "p = 0") (auto simp: at_line_def prefix_def nth_append)

section \<open>Lemmas: records of a file\<close>

text \<open>The specification of tailing: the complete lines ahead of the reader, the blank ones
  skipped, the first other one parsed. What follows the last newline is not there yet.\<close>

function complete_lines :: "string \<Rightarrow> string list" where
  "complete_lines s =
     (if newline \<in> set s then take_line s # complete_lines (drop (length (take_line s)) s) else [])"
  by pat_completeness auto

termination
proof (relation "measure length", goal_cases)
  case (2 s)
  then have "take_line s \<noteq> []" using take_line_terminated [of s] by auto
  then show ?case using take_line_less [of s] by simp
qed simp

declare complete_lines.simps [simp del]

definition lines_ahead :: "world \<Rightarrow> eve_reader \<Rightarrow> string list" where
  "lines_ahead w r = (case er_reader r of None \<Rightarrow> [] | Some (inode, p) \<Rightarrow> complete_lines (drop p (wd_data w inode)))"

definition blank :: "string \<Rightarrow> bool" where "blank l \<longleftrightarrow> trim l = []"

definition next_spec :: "(string \<Rightarrow> string + json) \<Rightarrow> nat \<Rightarrow> string list \<Rightarrow> (reader_error + json option) \<times> string list" where
  "next_spec parse lineno ls =
     (case dropWhile blank ls of
        [] \<Rightarrow> (Inr None, [])
      | l # rest \<Rightarrow>
          (case parse (trim l) of
             Inr v \<Rightarrow> (Inr (Some v), rest)
           | Inl e \<Rightarrow> (Inl (Parse_Error (lineno + length (takeWhile blank ls) + 1) e), rest)))"

lemma next_spec_blank: "trim l = [] \<Longrightarrow> next_spec parse n (l # ls) = next_spec parse (n + 1) ls"
proof -
  assume "trim l = []"
  then have d: "dropWhile blank (l # ls) = dropWhile blank ls" "takeWhile blank (l # ls) = l # takeWhile blank ls"
    by (simp_all add: blank_def)
  show ?thesis
    unfolding next_spec_def d by (cases "dropWhile blank ls"; simp only: list.case list.size add_Suc_right add_Suc add_0_right Suc_eq_plus1 [symmetric])
qed

lemma next_spec_nonblank:
  "trim l \<noteq> [] \<Longrightarrow> next_spec parse n (l # ls) =
     (case parse (trim l) of Inr v \<Rightarrow> (Inr (Some v), ls) | Inl e \<Rightarrow> (Inl (Parse_Error (n + 1) e), ls))"
proof -
  assume "trim l \<noteq> []"
  then have d: "dropWhile blank (l # ls) = l # ls" "takeWhile blank (l # ls) = []"
    by (simp_all add: blank_def)
  show ?thesis unfolding next_spec_def d by (simp split: sum.split)
qed

lemma record_loop_refines:
  assumes "text_inode w inode" and "reader_at w inode r"
  shows "case record_loop parse False w r of (x, r') \<Rightarrow>
    reader_at w inode r' \<and> next_spec parse (er_lineno r) (lines_ahead w r) = (x, lines_ahead w r')"
  using assms
proof (induction parse "False" w r rule: record_loop.induct)
  case (1 parse w r)
  let ?s = "wd_data w inode"
  from 1(3) obtain p where p: "er_reader r = Some (inode, p)" "at_line ?s (er_lineno r) p"
    by (auto simp: reader_at_def)
  show ?case
  proof (cases "newline \<in> set (drop p ?s)")
    case False
    then have n: "next_line False w r = (Inr None, r\<lparr>er_unterminated := False\<rparr>)"
      using next_line_text [OF 1(2) p] by simp
    have "lines_ahead w r = []" "lines_ahead w (r\<lparr>er_unterminated := False\<rparr>) = []"
      using False p by (simp_all add: lines_ahead_def complete_lines.simps)
    with n p show ?thesis
      by (subst record_loop.simps) (simp add: next_spec_def reader_at_def)
  next
    case True
    let ?l = "take_line (drop p ?s)" and ?q = "p + length (take_line (drop p ?s))"
    let ?r = "r\<lparr>er_unterminated := False, er_reader := Some (inode, ?q), er_offset := ?q,
      er_lineno := er_lineno r + 1\<rparr>"
    have n: "next_line False w r = (Inr (Some (trim ?l)), ?r)"
      using next_line_text [OF 1(2) p] True by (simp add: Let_def)
    have at: "reader_at w inode ?r" using at_line_step [OF p(2) True] by (simp add: reader_at_def)
    have ahead: "lines_ahead w r = ?l # lines_ahead w ?r"
      using True p by (simp add: lines_ahead_def complete_lines.simps [of "drop p ?s"] add.commute)
    show ?thesis
    proof (cases "trim ?l = []")
      case blank: True
      have "record_loop parse False w r = record_loop parse False w ?r"
        using n blank by (subst record_loop.simps) simp
      moreover have "next_spec parse (er_lineno r) (lines_ahead w r)
          = next_spec parse (er_lineno ?r) (lines_ahead w ?r)"
        using next_spec_blank [OF blank] unfolding ahead by simp
      ultimately show ?thesis
        using 1(1) [OF n [symmetric] refl refl blank 1(2) at] by simp
    next
      case nonblank: False
      note next_spec_nonblank [OF nonblank, of parse "er_lineno r" "lines_ahead w ?r", folded ahead]
      with n nonblank at show ?thesis
        by (subst record_loop.simps) (auto split: sum.splits)
    qed
  qed
qed

section \<open>Lemmas: the stream reader reads as the file reader\<close>

text \<open>A stream reader beside a file reader: the same bytes ahead, the same line number.\<close>

definition beside :: "world \<Rightarrow> nat \<Rightarrow> eve_reader \<Rightarrow> stream_reader \<Rightarrow> bool" where
  "beside w inode r sr \<longleftrightarrow> (\<exists>p. er_reader r = Some (inode, p) \<and> sr_input sr = drop p (wd_data w inode))
     \<and> er_lineno r = sr_lineno sr"

lemma stream_next_record_file:
  assumes "wd_read_error w inode = None" and "beside w inode r sr"
  shows "fst (record_loop parse True w r) = fst (stream_next_record parse sr)
    \<and> beside w inode (snd (record_loop parse True w r)) (snd (stream_next_record parse sr))"
  using assms(2)
proof (induction parse sr arbitrary: r rule: stream_next_record.induct)
  case (1 parse sr)
  let ?s = "wd_data w inode"
  from 1(2) obtain p where p: "er_reader r = Some (inode, p)" "sr_input sr = drop p ?s" "er_lineno r = sr_lineno sr"
    by (auto simp: beside_def)
  let ?l = "take_line (drop p ?s)"
  let ?sr = "sr\<lparr>sr_input := drop (length ?l) (sr_input sr)\<rparr>"
  have sl: "stream_line sr = (?l, ?sr)" using p by (simp add: stream_line_def Let_def)
  let ?r0 = "r\<lparr>er_unterminated := False\<rparr>"
  let ?r1 = "?r0\<lparr>er_reader := Some (inode, p + length ?l), er_offset := p + length ?l, er_lineno := er_lineno r + 1\<rparr>"
  have ahead: "drop (length ?l) (sr_input sr) = drop (p + length ?l) ?s"
    using p(2) by (simp add: add.commute)
  consider (bad) "\<not> valid_utf8 ?l" | (eof) "valid_utf8 ?l" "?l = []" | (line) "valid_utf8 ?l" "?l \<noteq> []" by blast
  then show ?case
  proof cases
    case bad
    then have "next_line True w r = (Inl (Io_Error ''stream did not contain valid UTF-8''),
        ?r0\<lparr>er_reader := Some (inode, p + length ?l)\<rparr>)"
      using p assms(1) by (simp add: next_line_def Let_def)
    then show ?thesis
      using bad sl p ahead
      by (subst record_loop.simps, subst stream_next_record.simps)
        (subst (2) record_loop.simps, subst (2) stream_next_record.simps, simp add: beside_def)
  next
    case eof
    then have "next_line True w r = (Inr None, ?r0)"
      using p assms(1) by (simp add: next_line_def Let_def)
    then show ?thesis
      using eof sl p ahead
      by (simp add: record_loop.simps [of parse True w r] stream_next_record.simps [of parse sr] beside_def)
  next
    case line
    let ?r2 = "?r1\<lparr>er_unterminated := (last ?l \<noteq> newline)\<rparr>" and ?sr1 = "?sr\<lparr>sr_lineno := sr_lineno ?sr + 1\<rparr>"
    have n: "next_line True w r = (Inr (Some (trim ?l)), ?r2)"
      using line p assms(1) by (simp add: next_line_def Let_def)
    have b: "beside w inode ?r2 ?sr1" using p ahead by (simp add: beside_def)
    show ?thesis
    proof (cases "trim ?l = []")
      case True
      have "record_loop parse True w r = record_loop parse True w ?r2"
        using n True by (simp add: record_loop.simps [of parse True w r])
      moreover have "stream_next_record parse sr = stream_next_record parse ?sr1"
        using sl line True by (simp add: stream_next_record.simps [of parse sr])
      moreover have "fst (record_loop parse True w ?r2) = fst (stream_next_record parse ?sr1)
          \<and> beside w inode (snd (record_loop parse True w ?r2)) (snd (stream_next_record parse ?sr1))"
        using 1(1) [OF sl [symmetric] refl _ _ refl refl _ b] line True by simp
      ultimately show ?thesis by simp
    next
      case False
      then show ?thesis
        using n sl line b p
        by (auto simp: record_loop.simps [of parse True w r] stream_next_record.simps [of parse sr]
            split: sum.splits)
    qed
  qed
qed

section \<open>Lemmas: completed files\<close>

text \<open>The completed files of a spool reader are older files of its own stream.\<close>

definition reader_ok :: "eve_reader \<Rightarrow> bool" where
  "reader_ok r \<longleftrightarrow>
     (case er_spool r of
        None \<Rightarrow> er_completed r = []
      | Some sf \<Rightarrow> er_filename r = sf_path sf \<and> spool_parse (sf_path sf) = Some sf
          \<and> (\<forall>p \<in> set (er_completed r). \<exists>f. spool_parse p = Some f \<and> sf_path f = p
               \<and> sf_key f = sf_key sf \<and> sf_timestamp f < sf_timestamp sf))"

lemma reader_ok_same: "same_file r r' \<Longrightarrow> reader_ok r' = reader_ok r"
  by (cases "er_spool r") (simp_all add: reader_ok_def same_file_def)

lemma spool_parse_path:
  assumes "spool_parse p = Some f"
  shows "spool_parse (sf_path f) = Some f"
proof -
  obtain pre t where f: "file_name p = Some (pre @ ''.'' @ t)" "valid_utf8 (pre @ ''.'' @ t)" "pre \<noteq> []"
    "stamp_ok t" "f = \<lparr>sf_path = parent_dir p @ [pre @ ''.'' @ t], sf_key = parent_dir p @ [pre @ ''.''],
       sf_timestamp = digits_val t\<rparr>"
    using assms unfolding spool_parse_Some by blast
  have "parent_dir (sf_path f) = parent_dir p" using f(5) by (simp add: parent_dir_def)
  moreover have "file_name (sf_path f) = Some (pre @ ''.'' @ t)"
    using f(1,5) by (auto simp: file_name_def split: if_splits)
  ultimately show ?thesis unfolding spool_parse_Some using f by auto
qed

lemma advance_ok:
  assumes "reader_ok r" and "er_spool r = Some sf" and "spool_next (read_dir w) sf = Inr (Some f)"
  shows "reader_ok (advance f r)" "er_spool (advance f r) = Some f"
    "sf_key f = sf_key sf" "sf_timestamp sf < sf_timestamp f"
proof -
  obtain entries where c: "newer_candidate sf (parent_dir (sf_path sf)) entries f"
  proof -
    obtain entries where "newer_scan sf False (parent_dir (sf_path sf)) entries None = Inr (Some f)"
      using assms(3) by (auto simp: spool_next_def newer_file_def Let_def)
    from newer_scan_spec [OF this] that show ?thesis by auto
  qed
  then show key: "sf_key f = sf_key sf" "sf_timestamp sf < sf_timestamp f" by (auto simp: newer_candidate_def)
  have "spool_parse (sf_path f) = Some f"
    using c spool_parse_path by (auto simp: newer_candidate_def)
  with assms(1,2) key show "reader_ok (advance f r)" "er_spool (advance f r) = Some f"
    by (auto simp: reader_ok_def advance_def switch_spool_file_def Let_def)
qed

text \<open>Following goes forward only: the stream stays, the timestamp does not fall.\<close>

definition follows :: "eve_reader \<Rightarrow> eve_reader \<Rightarrow> bool" where
  "follows r r' \<longleftrightarrow>
     (case er_spool r of
        None \<Rightarrow> er_spool r' = None \<and> er_filename r' = er_filename r
      | Some sf \<Rightarrow> (\<exists>sf'. er_spool r' = Some sf' \<and> sf_key sf' = sf_key sf \<and> sf_timestamp sf \<le> sf_timestamp sf'))"

lemma follows_same: "same_file r r' \<Longrightarrow> follows r r'"
  by (auto simp: same_file_def follows_def split: option.splits)

lemma follows_trans: "follows a b \<Longrightarrow> follows b c \<Longrightarrow> follows a c"
  by (auto simp: follows_def split: option.splits)

lemma next_record_ok:
  assumes "next_record parse w r = (x, r')" and "reader_ok r"
  shows "reader_ok r' \<and> follows r r'"
  using assms
proof (induction parse w r rule: next_record.induct)
  case (1 parse w r)
  obtain y r1 where n: "next_record_inner parse False w r = (y, r1)" by fastforce
  have same: "same_file r r1" using next_record_inner_same [OF n] .
  have ok1: "reader_ok r1" using 1(3) reader_ok_same [OF same] by simp
  show ?case
  proof (cases "y = Inr None \<and> (\<exists>sf f. er_spool r1 = Some sf \<and> spool_next (read_dir w) sf = Inr (Some f))")
    case True
    then obtain sf f where y: "y = Inr None" and sf: "er_spool r1 = Some sf" "spool_next (read_dir w) sf = Inr (Some f)"
      by blast
    have rec: "next_record parse w (advance f r1) = (x, r')"
      using 1(2) n y sf by (simp add: next_record.simps [of parse w r])
    note adv = advance_ok [OF ok1 sf]
    have "reader_ok r' \<and> follows (advance f r1) r'"
      using 1(1) [OF n [symmetric] y refl sf(1) sf(2) refl rec adv(1)] by simp
    moreover have "follows r1 (advance f r1)" using adv sf by (simp add: follows_def)
    ultimately show ?thesis using follows_same [OF same] follows_trans by blast
  next
    case False
    then have "r' = r1"
      using 1(2) n by (auto simp: next_record.simps [of parse w r] split: sum.splits option.splits)
    then show ?thesis using ok1 follows_same [OF same] by simp
  qed
qed

section \<open>Properties\<close>

text \<open>A bookmark resumes exactly where reading stopped: if a reader stands at line \<open>n\<close> of a
  log, and the log has since only grown (under whatever name and inode), a fresh reader of it
  that skips \<open>n\<close> lines stands at the same byte and the same line, and reports \<open>n\<close> lines
  skipped; no record is read twice and none is lost.\<close>

theorem bookmark_resumes:
  assumes "reader_at w inode r" and "er_reader r = Some (inode, p)"
    and "prefix (wd_data w inode) (wd_data w' inode')"
    and "open_file w' filename = Inr inode'" and "text_inode w' inode'"
  shows "\<exists>r'. goto_lineno w' (er_lineno r) (reader_new filename) = (Inr (er_lineno r), r')
    \<and> er_reader r' = Some (inode', p) \<and> er_lineno r' = er_lineno r"
proof -
  have "at_line (wd_data w inode) (er_lineno r) p" using assms(1,2) by (auto simp: reader_at_def)
  then have at: "at_line (wd_data w' inode') (0 + er_lineno r) p" using prefix_at_line [OF _ assms(3)] by simp
  let ?r0 = "(reader_new filename)\<lparr>er_reader := Some (inode', 0), er_lineno := 0, er_offset := 0\<rparr>"
  have o: "ensure_open w' (reader_new filename) = Inr ?r0"
    using assms(4) by (simp add: ensure_open_def reader_open_def reader_new_def)
  obtain r' where "goto_loop w' (er_lineno r) 0 ?r0 = (Inr (0 + er_lineno r), r')"
      "er_reader r' = Some (inode', p)" "er_lineno r' = 0 + er_lineno r"
    using goto_loop_at [OF assms(5) at, of ?r0 0 0] by auto
  with o show ?thesis by (simp add: goto_lineno_def)
qed

text \<open>C35. Tailing refines its specification: on a log of text, a call delivers the first complete
  line ahead that is not blank, parsed, or its parse error with its line number, and nothing
  when there is none; afterwards exactly the lines behind it are ahead. In particular the
  bytes after the last newline, a record still being written, are never consumed.\<close>

theorem tailing_refines:
  assumes "text_inode w inode" and "reader_at w inode r"
    and "next_record_inner parse False w r = (x, r')"
  shows "next_spec parse (er_lineno r) (lines_ahead w r) = (x, lines_ahead w r') \<and> reader_at w inode r'"
proof -
  have "record_loop parse False w r = (x, r')"
    using assms(2,3) by (auto simp: next_record_inner_def ensure_open_def reader_at_def)
  then show ?thesis
    using record_loop_refines [OF assms(1,2), of parse] by auto
qed

text \<open>Reading a stream and reading a static file are the same: over the same bytes the two
  readers give the same record, end or error with the same line number, and stay in step,
  blank lines, an unterminated last line and invalid UTF-8 included.\<close>

theorem stream_reads_as_file:
  assumes "wd_read_error w inode = None" and "beside w inode r sr"
  shows "fst (next_file_record parse w r) = fst (stream_next_record parse sr)
    \<and> beside w inode (snd (next_file_record parse w r)) (snd (stream_next_record parse sr))"
proof -
  have "next_file_record parse w r = record_loop parse True w r"
    using assms(2) by (auto simp: next_file_record_def next_record_inner_def ensure_open_def beside_def)
  with stream_next_record_file [OF assms, of parse]
  show ?thesis by auto
qed

text \<open>Following a spool goes forward only: whatever a call returns, the stream is the same,
  its timestamp has not fallen, and every file waiting to be deleted is a file of that very
  stream strictly older than the one being read, so deletion never hits the current file.\<close>

theorem spool_follows_forward:
  assumes "next_record parse w r = (x, r')" and "reader_ok r"
  shows "reader_ok r' \<and> follows r r' \<and> er_filename r' \<notin> set (er_completed r')"
proof (intro conjI)
  show ok: "reader_ok r'" and "follows r r'" using next_record_ok [OF assms] by auto
  show "er_filename r' \<notin> set (er_completed r')"
  proof (cases "er_spool r'")
    case None
    then show ?thesis using ok by (simp add: reader_ok_def)
  next
    case (Some sf)
    show ?thesis
    proof
      assume "er_filename r' \<in> set (er_completed r')"
      then obtain f where "spool_parse (sf_path sf) = Some f" "sf_timestamp f < sf_timestamp sf"
        using ok Some by (auto simp: reader_ok_def)
      then show False using ok Some by (auto simp: reader_ok_def)
    qed
  qed
qed

section \<open>Witnesses\<close>

text \<open>A log of two lines and the beginning of a third.\<close>

definition demo_log :: string where
  "demo_log = ''1'' @ [CHR 0x0A] @ [CHR 0x0A] @ ''2'' @ [CHR 0x0A] @ ''3''"

definition demo_world :: world where
  "demo_world = \<lparr>wd_names = (\<lambda>p. if p = [''eve.json''] then Some 7 else None), wd_data = (\<lambda>_. demo_log),
     wd_open_error = (\<lambda>_. None), wd_read_error = (\<lambda>_. None), wd_listing = (\<lambda>_. Inr [])\<rparr>"

definition demo_parse :: "string \<Rightarrow> string + json" where
  "demo_parse s = (if s = ''1'' then Inr (JInt 1) else Inr (JInt 2))"

definition demo_reader :: eve_reader where
  "demo_reader = (reader_new [''eve.json''])\<lparr>er_reader := Some (7, 0)\<rparr>"

lemma text_ascii:
  assumes "list_all (\<lambda>c. of_char c < (128 :: nat)) (wd_data w inode)" and "wd_read_error w inode = None"
  shows "text_inode w inode"
proof -
  have "valid_utf8 (take_line (drop p (wd_data w inode)))" for p
  proof -
    have "set (take_line (drop p (wd_data w inode))) \<subseteq> set (wd_data w inode)"
      using set_mono_prefix [OF take_line_prefix] set_drop_subset by fastforce
    then have "list_all (\<lambda>b. b < 128) (map of_char (take_line (drop p (wd_data w inode))) :: nat list)"
      using assms(1) by (auto simp: list_all_iff)
    then show ?thesis unfolding valid_utf8_def by (rule utf8_bytes_ascii)
  qed
  with assms(2) show ?thesis by (simp add: text_inode_def)
qed

lemma demo_text: "text_inode demo_world 7"
  by (rule text_ascii) (simp_all add: demo_world_def demo_log_def)

lemma demo_at: "reader_at demo_world 7 (demo_reader\<lparr>er_reader := Some (7, 3), er_lineno := 2\<rparr>)"
  by (simp add: reader_at_def at_line_def demo_world_def demo_log_def)

theorem bookmark_resumes_witness:
  "\<exists>r'. goto_lineno demo_world 2 (reader_new [''eve.json'']) = (Inr 2, r') \<and> er_reader r' = Some (7, 3)"
  using bookmark_resumes [OF demo_at, of 3 demo_world 7 "[''eve.json'']"] demo_text
  by (auto simp: open_file_def demo_world_def)

theorem tailing_refines_witness:
  "\<exists>x r'. next_record_inner demo_parse False demo_world demo_reader = (x, r')
    \<and> next_spec demo_parse 0 (lines_ahead demo_world demo_reader) = (x, lines_ahead demo_world r')"
proof -
  have at: "reader_at demo_world 7 demo_reader"
    by (simp add: reader_at_def demo_reader_def reader_new_def)
  obtain x r' where n: "next_record_inner demo_parse False demo_world demo_reader = (x, r')" by fastforce
  from tailing_refines [OF demo_text at n] n show ?thesis by (auto simp: demo_reader_def reader_new_def)
qed

theorem stream_reads_as_file_witness:
  "fst (next_file_record demo_parse demo_world demo_reader)
     = fst (stream_next_record demo_parse (stream_reader_new demo_log))"
  using stream_reads_as_file [of demo_world 7 demo_reader "stream_reader_new demo_log" demo_parse]
  by (simp add: beside_def demo_reader_def reader_new_def stream_reader_new_def demo_world_def)

text \<open>A spool of two files, the older one empty.\<close>

definition demo_spool_world :: world where
  "demo_spool_world = \<lparr>
     wd_names = (\<lambda>p. if p = [''d'', ''e.1700000001''] then Some 1
                     else if p = [''d'', ''e.1700000002''] then Some 2 else None),
     wd_data = (\<lambda>n. if n = 2 then demo_log else []),
     wd_open_error = (\<lambda>_. None), wd_read_error = (\<lambda>_. None),
     wd_listing = (\<lambda>_. Inr [Inr ''e.1700000002'', Inr ''x'', Inr ''e.1700000001''])\<rparr>"

definition demo_spool_reader :: eve_reader where
  "demo_spool_reader =
     set_delete_processed True (reader_from_input (input_from_path [''d'', ''e.1700000001'']))"

lemma demo_spool_next:
  "spool_next (read_dir demo_spool_world) (demo_spool ''e.1700000001'' 1700000001) =
     Inr (Some (demo_spool ''e.1700000002'' 1700000002))"
  by (simp add: spool_next_def newer_file_def demo_spool_world_def read_dir_def demo_spool_parse
      parent_dir_def)

theorem spool_follows_forward_witness:
  "\<exists>r'. next_record demo_parse demo_spool_world demo_spool_reader = (Inr (Some (JInt 1)), r')
     \<and> er_filename r' = [''d'', ''e.1700000002''] \<and> er_completed r' = [[''d'', ''e.1700000001'']] \<and> reader_ok r'"
proof -
  have ok: "reader_ok demo_spool_reader"
    by (simp add: reader_ok_def demo_spool_reader_def set_delete_processed_def reader_from_input_def
        demo_spool_parse reader_new_def)
  let ?r1 = "demo_spool_reader\<lparr>er_reader := Some (1, 0)\<rparr>"
  let ?r2 = "advance (demo_spool ''e.1700000002'' 1700000002) ?r1"
  let ?r3 = "?r2\<lparr>er_reader := Some (2, 2), er_offset := 2, er_lineno := 1\<rparr>"
  have one: "next_record_inner demo_parse False demo_spool_world demo_spool_reader = (Inr None, ?r1)"
    by (simp add: demo_spool_reader_def set_delete_processed_def reader_from_input_def reader_new_def
        demo_spool_parse next_record_inner_def ensure_open_def reader_open_def open_file_def
        record_loop.simps next_line_def demo_spool_world_def take_line_def string_eval)
  have two: "next_record_inner demo_parse False demo_spool_world ?r2 = (Inr (Some (JInt 1)), ?r3)"
    by (simp add: demo_spool_reader_def set_delete_processed_def reader_from_input_def reader_new_def
        demo_spool_parse next_record_inner_def ensure_open_def reader_open_def open_file_def
        record_loop.simps next_line_def demo_spool_world_def take_line_def string_eval
        advance_def switch_spool_file_def demo_log_def trim_def trim_start_def trim_end_def white_space_def demo_parse_def)
  have spool: "er_spool ?r1 = Some (demo_spool ''e.1700000001'' 1700000001)"
    by (simp add: demo_spool_reader_def set_delete_processed_def reader_from_input_def demo_spool_parse)
  have n2: "next_record demo_parse demo_spool_world ?r2 = (Inr (Some (JInt 1)), ?r3)"
    by (subst next_record.simps) (simp only: two prod.case sum.case option.case)
  have n: "next_record demo_parse demo_spool_world demo_spool_reader = (Inr (Some (JInt 1)), ?r3)"
    by (subst next_record.simps) (simp only: one spool demo_spool_next n2 prod.case sum.case option.case)
  have f: "er_filename ?r3 = [''d'', ''e.1700000002'']" "er_completed ?r3 = [[''d'', ''e.1700000001'']]"
    by (simp_all add: advance_def switch_spool_file_def demo_spool_reader_def set_delete_processed_def
        reader_from_input_def reader_new_def demo_spool_parse)
  from spool_follows_forward [OF n ok] n f show ?thesis by (intro exI [of _ ?r3]) simp
qed

end
