(* ===== verification/Eve_Event.thy ===== *)
theory Eve_Event
  imports Json
begin

text \<open>
  Events and what the ingest pipeline does to them (\<open>src/src/eve/eve.rs\<close>,
  \<open>src/src/eve/filters.rs\<close>, \<open>src/src/server/autoarchive.rs\<close>, the history entries of
  \<open>src/src/elastic/mod.rs\<close> and the enrichment of \<open>src/src/geoip.rs\<close>). An event is a JSON
  value. Every operation that assigns through an index can panic, so it returns an option.
  The clock and the GeoIP database are parameters: the timestamp a history entry gets, and
  what a lookup of an address gives.
\<close>

section \<open>Tags, the evebox object, the history\<close>

definition has_tag :: "json \<Rightarrow> string \<Rightarrow> bool" where
  "has_tag event tag = (case json_index event ''tags'' of JArr tags \<Rightarrow> JStr tag \<in> set tags | _ \<Rightarrow> False)"

definition ensure_has_tags :: "json \<Rightarrow> json option" where
  "ensure_has_tags event =
     (if as_array (json_index event ''tags'') = None then json_set [''tags''] (JArr []) event else Some event)"

definition ensure_has_evebox :: "json \<Rightarrow> json option" where
  "ensure_has_evebox event =
     (if as_object (json_index event ''evebox'') = None then json_set [''evebox''] (JObj []) event
      else Some event)"

definition ensure_has_history :: "json \<Rightarrow> json option" where
  "ensure_has_history event =
     Option.bind (ensure_has_evebox event) (\<lambda>event.
       if as_array (json_index (json_index event ''evebox'') ''history'') = None
       then json_set [''evebox'', ''history''] (JArr []) event
       else Some event)"

definition ensure_filter :: "json \<Rightarrow> json option" where
  "ensure_filter event =
     Option.bind (Option.bind (ensure_has_history event) ensure_has_tags) ensure_has_evebox"

section \<open>History entries\<close>

datatype history_type = Archived | AutoArchived | Escalated | Deescalated | Comment

fun history_type_show :: "history_type \<Rightarrow> string" where
  "history_type_show Archived = ''archived''"
| "history_type_show AutoArchived = ''auto-archived''"
| "history_type_show Escalated = ''escalated''"
| "history_type_show Deescalated = ''de-escalated''"
| "history_type_show Comment = ''comment''"

record history_entry =
  he_username :: "string option"
  he_timestamp :: string
  he_action :: string
  he_cause :: "string option"
  he_comment :: "string option"

definition history_new :: "string \<Rightarrow> history_type \<Rightarrow> history_entry" where
  "history_new now action = \<lparr>he_username = None, he_timestamp = now,
     he_action = history_type_show action, he_cause = None, he_comment = None\<rparr>"

definition new_auto_archived :: "string \<Rightarrow> string \<Rightarrow> history_entry" where
  "new_auto_archived now cause = (history_new now AutoArchived)\<lparr>he_cause := Some cause\<rparr>"

definition history_username :: "string option \<Rightarrow> history_entry \<Rightarrow> history_entry" where
  "history_username u h = h\<lparr>he_username := u\<rparr>"

definition history_comment :: "string \<Rightarrow> history_entry \<Rightarrow> history_entry" where
  "history_comment c h = h\<lparr>he_comment := Some c\<rparr>"

text \<open>The serialization, absent fields skipped.\<close>

definition opt_field :: "string \<Rightarrow> string option \<Rightarrow> (string \<times> json) list" where
  "opt_field k v = (case v of None \<Rightarrow> [] | Some s \<Rightarrow> [(k, JStr s)])"

definition history_json :: "history_entry \<Rightarrow> json" where
  "history_json h = JObj (opt_field ''username'' (he_username h)
     @ [(''timestamp'', JStr (he_timestamp h)), (''action'', JStr (he_action h))]
     @ opt_field ''cause'' (he_cause h) @ opt_field ''comment'' (he_comment h))"

section \<open>Automatic archiving\<close>

definition mark_auto_archived :: "string \<Rightarrow> string \<Rightarrow> json \<Rightarrow> json option" where
  "mark_auto_archived now cause event =
     Option.bind (Option.bind (Option.bind (ensure_has_tags event) ensure_has_evebox) ensure_has_history)
       (\<lambda>event.
         case as_array (json_index event ''tags'') of
           None \<Rightarrow> None
         | Some tags \<Rightarrow>
             Option.bind
               (json_set [''tags''] (JArr (tags @ [JStr ''evebox.archived'', JStr ''evebox.auto-archived''])) event)
               (\<lambda>event.
                 case as_array (json_index (json_index event ''evebox'') ''history'') of
                   None \<Rightarrow> None
                 | Some history \<Rightarrow>
                     json_set [''evebox'', ''history'']
                       (JArr (history @ [history_json (new_auto_archived now cause)])) event))"

lemma size_nth: "i < length xs \<Longrightarrow> f (xs ! i) \<le> size_list f xs"
  by (induction xs arbitrary: i) (force simp: nth_Cons split: nat.splits)+

lemma size_snd_nth:
  "i < length xs \<Longrightarrow> size (snd (xs ! i)) \<le> size_list (size_prod (\<lambda>_. 0) size) xs"
  using size_nth [of i xs "size_prod (\<lambda>_. 0) size"] by (cases "xs ! i") simp

lemma size_map_of: "map_of kvs k = Some v \<Longrightarrow> size v \<le> size_list (size_prod (\<lambda>_. 0) size) kvs"
  by (induction kvs) (auto split: if_splits)

text \<open>Equality of values: an object is a map, its order does not count.\<close>

function (sequential) json_eq :: "json \<Rightarrow> json \<Rightarrow> bool" where
  "json_eq (JArr xs) (JArr ys) \<longleftrightarrow>
     length xs = length ys \<and> list_all (\<lambda>i. json_eq (xs ! i) (ys ! i)) [0..<length xs]"
| "json_eq (JObj xs) (JObj ys) \<longleftrightarrow>
     length xs = length ys \<and>
     list_all (\<lambda>i. case map_of ys (fst (xs ! i)) of None \<Rightarrow> False | Some y \<Rightarrow> json_eq (snd (xs ! i)) y)
       [0..<length xs]"
| "json_eq x y \<longleftrightarrow> x = y"
  by pat_completeness auto

termination
  by (relation "measure (\<lambda>(x, y). size x)") (auto simp: less_Suc_eq_le size_nth size_snd_nth)

datatype filter_operator = Eq

record filter_condition =
  fc_field :: string
  fc_op :: filter_operator
  fc_value :: json

datatype filter_action = Archive

record event_filter =
  ef_action :: filter_action
  ef_conditions :: "filter_condition list"

function value_matches :: "json \<Rightarrow> string list \<Rightarrow> json \<Rightarrow> bool" where
  "value_matches val path expected =
     (case val of
        JArr values \<Rightarrow> list_ex (\<lambda>i. value_matches (values ! i) path expected) [0..<length values]
      | _ \<Rightarrow>
          (case path of
             [] \<Rightarrow> json_eq val expected
           | key # path' \<Rightarrow>
               (case val of
                  JObj kvs \<Rightarrow>
                    (case map_of kvs key of None \<Rightarrow> False | Some v \<Rightarrow> value_matches v path' expected)
                | _ \<Rightarrow> False)))"
  by pat_completeness auto

termination
  by (relation "measure (\<lambda>(v, path, expected). size v)") (auto simp: less_Suc_eq_le size_nth size_map_of)

declare value_matches.simps [simp del]

fun condition_matches :: "json \<Rightarrow> filter_condition \<Rightarrow> bool" where
  "condition_matches event c =
     (case fc_op c of Eq \<Rightarrow> value_matches event (split_char (CHR ''.'') (fc_field c)) (fc_value c))"

section \<open>The set of filters\<close>

text \<open>The derived equality of conditions and filters.\<close>

definition condition_eq :: "filter_condition \<Rightarrow> filter_condition \<Rightarrow> bool" where
  "condition_eq a b \<longleftrightarrow> fc_field a = fc_field b \<and> fc_op a = fc_op b \<and> json_eq (fc_value a) (fc_value b)"

definition filter_eq :: "event_filter \<Rightarrow> event_filter \<Rightarrow> bool" where
  "filter_eq f g \<longleftrightarrow> ef_action f = ef_action g \<and> list_all2 condition_eq (ef_conditions f) (ef_conditions g)"

type_synonym auto_archive = "event_filter list"

definition archive_contains :: "event_filter \<Rightarrow> auto_archive \<Rightarrow> bool" where
  "archive_contains f filters \<longleftrightarrow> list_ex (\<lambda>g. filter_eq g f) filters"

definition archive_add :: "event_filter \<Rightarrow> auto_archive \<Rightarrow> auto_archive" where
  "archive_add f filters =
     (if ef_conditions f \<noteq> [] \<and> \<not> archive_contains f filters then filters @ [f] else filters)"

definition archive_remove :: "event_filter \<Rightarrow> auto_archive \<Rightarrow> auto_archive" where
  "archive_remove f filters = filter (\<lambda>g. \<not> filter_eq g f) filters"

definition matching_filter :: "auto_archive \<Rightarrow> json \<Rightarrow> event_filter option" where
  "matching_filter filters event =
     find (\<lambda>f. list_all (condition_matches event) (ef_conditions f)) filters"

definition is_match :: "auto_archive \<Rightarrow> json \<Rightarrow> bool" where
  "is_match filters event \<longleftrightarrow> matching_filter filters event \<noteq> None"

section \<open>GeoIP enrichment\<close>

text \<open>What the database says of a city: names in English where the map of names is not empty.\<close>

record geo_city =
  gc_city :: "string option"
  gc_country :: "string option"
  gc_country_iso :: "string option"
  gc_subdivision :: "(string option \<times> string option) option"
  gc_latitude :: "string option"
  gc_longitude :: "string option"
  gc_continent :: "string option"

definition geo_location :: "geo_city \<Rightarrow> (string \<times> json) list" where
  "geo_location c =
     (case gc_latitude c of None \<Rightarrow> [] | Some lat \<Rightarrow> [(''lat'', JFloat lat)])
     @ (case gc_longitude c of None \<Rightarrow> [] | Some lon \<Rightarrow> [(''lon'', JFloat lon)])"

definition geo_as_json :: "geo_city \<Rightarrow> json" where
  "geo_as_json c = JObj (opt_field ''city_name'' (gc_city c)
     @ opt_field ''country_name'' (gc_country c)
     @ opt_field ''country_iso_code'' (gc_country_iso c)
     @ (case gc_subdivision c of None \<Rightarrow> []
        | Some (name, code) \<Rightarrow> opt_field ''region_name'' name @ opt_field ''region_iso_code'' code)
     @ (if geo_location c = [] then [] else [(''location'', JObj (geo_location c))])
     @ opt_field ''continent_name'' (gc_continent c))"

definition add_geo :: "(string \<Rightarrow> geo_city option) \<Rightarrow> string \<Rightarrow> string \<Rightarrow> json \<Rightarrow> json option" where
  "add_geo lookup addr_key geo_key eve =
     (case as_str (json_index eve addr_key) of
        None \<Rightarrow> Some eve
      | Some addr \<Rightarrow>
          (case lookup addr of None \<Rightarrow> Some eve | Some city \<Rightarrow> json_set [geo_key] (geo_as_json city) eve))"

definition add_geoip_to_eve :: "(string \<Rightarrow> geo_city option) \<Rightarrow> json \<Rightarrow> json option" where
  "add_geoip_to_eve lookup eve =
     Option.bind (add_geo lookup ''dest_ip'' ''geoip_destination'' eve)
       (add_geo lookup ''src_ip'' ''geoip_source'')"

section \<open>The filter chain\<close>

text \<open>The filters, with what each holds. The rule map is its lookup by signature id.\<close>

datatype eve_filter =
    Ensure
  | Geo_Ip "string \<Rightarrow> geo_city option"
  | Add_Agent_Filename string
  | Add_Agent_Hostname string
  | Add_Agent_Id string
  | Add_Field string json
  | Add_Rule "u64 \<Rightarrow> string option"
  | Alert_Metadata_Action
  | Auto_Archive auto_archive

definition add_rule :: "(u64 \<Rightarrow> string option) \<Rightarrow> json \<Rightarrow> json option" where
  "add_rule find_by_sid event =
     (if as_str (json_index (json_index event ''alert'') ''rule'') \<noteq> None then Some event
      else case as_u64 (json_index (json_index event ''alert'') ''signature_id'') of
             None \<Rightarrow> Some event
           | Some sid \<Rightarrow>
               (case find_by_sid sid of
                  None \<Rightarrow> Some event
                | Some rule \<Rightarrow> json_set [''alert'', ''rule''] (JStr rule) event))"

definition metadata_action :: "string \<Rightarrow> json \<Rightarrow> json option" where
  "metadata_action now event =
     (if has_tag event ''evebox.archived'' then Some event
      else case as_array (json_index (json_index (json_index event ''alert'') ''metadata'') ''evebox-action'') of
             None \<Rightarrow> Some event
           | Some action \<Rightarrow>
               (if JStr ''archive'' \<in> set action then mark_auto_archived now ''metadata'' event
                else Some event))"

definition auto_archive_filter :: "string \<Rightarrow> auto_archive \<Rightarrow> json \<Rightarrow> json option" where
  "auto_archive_filter now filters event =
     (if json_index event ''event_type'' \<noteq> JStr ''alert'' \<or> has_tag event ''evebox.archived''
      then Some event
      else if is_match filters event then mark_auto_archived now ''filter'' event
      else Some event)"

fun filter_run :: "string \<Rightarrow> eve_filter \<Rightarrow> json \<Rightarrow> json option" where
  "filter_run now Ensure event = ensure_filter event"
| "filter_run now (Geo_Ip lookup) event = add_geoip_to_eve lookup event"
| "filter_run now (Add_Agent_Filename n) event = json_set [''evebox'', ''agent'', ''filename''] (JStr n) event"
| "filter_run now (Add_Agent_Hostname n) event = json_set [''evebox'', ''agent'', ''hostname''] (JStr n) event"
| "filter_run now (Add_Agent_Id n) event = json_set [''evebox'', ''agent'', ''id''] (JStr n) event"
| "filter_run now (Add_Field field v) event = json_set [field] v event"
| "filter_run now (Add_Rule m) event = add_rule m event"
| "filter_run now Alert_Metadata_Action event = metadata_action now event"
| "filter_run now (Auto_Archive filters) event = auto_archive_filter now filters event"

fun chain_run :: "string \<Rightarrow> eve_filter list \<Rightarrow> json \<Rightarrow> json option" where
  "chain_run now [] event = Some event"
| "chain_run now (f # fs) event = Option.bind (filter_run now f event) (chain_run now fs)"

definition chain_with_defaults :: "eve_filter list" where
  "chain_with_defaults = [Ensure, Alert_Metadata_Action]"

definition chain_add :: "eve_filter \<Rightarrow> eve_filter list \<Rightarrow> eve_filter list" where
  "chain_add f fs = fs @ [f]"

section \<open>Lemmas: the shape of an event\<close>

text \<open>The shape the chain establishes.\<close>

definition event_shape :: "json \<Rightarrow> bool" where
  "event_shape e \<longleftrightarrow> as_object e \<noteq> None \<and> as_array (json_index e ''tags'') \<noteq> None
     \<and> as_array (json_index (json_index e ''evebox'') ''history'') \<noteq> None"

definition tags_of :: "json \<Rightarrow> json list" where
  "tags_of e = (case as_array (json_index e ''tags'') of None \<Rightarrow> [] | Some ts \<Rightarrow> ts)"

definition history_of :: "json \<Rightarrow> json list" where
  "history_of e = (case as_array (json_index (json_index e ''evebox'') ''history'') of None \<Rightarrow> [] | Some hs \<Rightarrow> hs)"

lemma has_tag_tags_of: "has_tag e tag \<longleftrightarrow> JStr tag \<in> set (tags_of e)"
  by (auto simp: has_tag_def tags_of_def split: json.splits option.splits)

text \<open>What each \<open>ensure\<close> keeps: the tags, the history, every other key; and when it succeeds.\<close>

definition same_content :: "json \<Rightarrow> json \<Rightarrow> bool" where
  "same_content e e' \<longleftrightarrow> tags_of e' = tags_of e \<and> history_of e' = history_of e
     \<and> (\<forall>k. k \<noteq> ''tags'' \<longrightarrow> k \<noteq> ''evebox'' \<longrightarrow> json_index e' k = json_index e k)"

lemma same_content_trans: "same_content a b \<Longrightarrow> same_content b c \<Longrightarrow> same_content a c"
  by (simp add: same_content_def)

lemma same_content_refl [simp]: "same_content a a"
  by (simp add: same_content_def)

lemma ensure_has_tags_spec:
  assumes "ensure_has_tags e = Some e'"
  shows "same_content e e'" "as_array (json_index e' ''tags'') \<noteq> None"
    and "json_index e' ''evebox'' = json_index e ''evebox''"
  using assms
  by (auto simp: ensure_has_tags_def same_content_def tags_of_def history_of_def json_set_one_index
      split: if_splits option.splits)

lemma ensure_has_evebox_spec:
  assumes "ensure_has_evebox e = Some e'"
  shows "same_content e e'" "as_object (json_index e' ''evebox'') \<noteq> None"
    and "json_index e' ''tags'' = json_index e ''tags''"
    and "json_index (json_index e' ''evebox'') k = json_index (json_index e ''evebox'') k"
proof -
  have "as_object (json_index e ''evebox'') = None \<Longrightarrow> json_index (json_index e ''evebox'') j = JNull" for j
    by simp
  with assms show "same_content e e'" "as_object (json_index e' ''evebox'') \<noteq> None"
      "json_index e' ''tags'' = json_index e ''tags''"
      "json_index (json_index e' ''evebox'') k = json_index (json_index e ''evebox'') k"
    by (auto simp: ensure_has_evebox_def same_content_def tags_of_def history_of_def json_set_one_index
        split: if_splits option.splits)
qed

lemma ensure_has_history_spec:
  assumes "ensure_has_history e = Some e'"
  shows "same_content e e'" "as_array (json_index (json_index e' ''evebox'') ''history'') \<noteq> None"
    and "json_index e' ''tags'' = json_index e ''tags''"
proof -
  obtain e1 where e1: "ensure_has_evebox e = Some e1"
    using assms by (auto simp: ensure_has_history_def bind_eq_Some_conv)
  note s = ensure_has_evebox_spec [OF e1]
  have "same_content e1 e' \<and> as_array (json_index (json_index e' ''evebox'') ''history'') \<noteq> None
      \<and> json_index e' ''tags'' = json_index e1 ''tags''"
  proof (cases "as_array (json_index (json_index e1 ''evebox'') ''history'')")
    case None
    then have set: "json_set [''evebox'', ''history''] (JArr []) e1 = Some e'"
      using assms e1 by (simp add: ensure_has_history_def)
    note i = json_set_two [OF set]
    have other: "json_index e' k = json_index e1 k" if "k \<noteq> ''evebox''" for k
      using i(1) [of k] that by simp
    have "json_index (json_index e' ''evebox'') ''history'' = JArr []" using i(2) [of "''history''"] by simp
    then show ?thesis
      using None other [of "''tags''"] other by (simp add: same_content_def tags_of_def history_of_def)
  next
    case (Some hs)
    then show ?thesis using assms e1 by (simp add: ensure_has_history_def)
  qed
  then show "as_array (json_index (json_index e' ''evebox'') ''history'') \<noteq> None"
      "json_index e' ''tags'' = json_index e ''tags''" "same_content e e'"
    using s(3) same_content_trans [OF s(1)] by simp_all
qed

lemma indexable_index: "as_object (json_index e k) \<noteq> None \<Longrightarrow> indexable e"
  by (cases e) (auto simp: indexable_def)

lemma indexable_array: "as_array (json_index e k) \<noteq> None \<Longrightarrow> indexable e"
  by (cases e) (auto simp: indexable_def)

lemma indexable_set: "json_set (k # ks) x e = Some e' \<Longrightarrow> indexable e'"
  by (drule json_set_object) (auto simp: indexable_def)

lemma ensure_has_tags_total: "ensure_has_tags e \<noteq> None \<longleftrightarrow> indexable e"
  using indexable_array [of e "''tags''"] json_set_indexable [of "''tags''" "JArr []" e]
  by (auto simp: ensure_has_tags_def)

lemma ensure_has_evebox_total: "ensure_has_evebox e \<noteq> None \<longleftrightarrow> indexable e"
  using indexable_index [of e "''evebox''"] json_set_indexable [of "''evebox''" "JObj []" e]
  by (auto simp: ensure_has_evebox_def)

lemma ensure_keeps_indexable:
  "ensure_has_tags e = Some e' \<Longrightarrow> indexable e'"
  "ensure_has_evebox e = Some e' \<Longrightarrow> indexable e'"
  using ensure_has_tags_spec(2) [of e e'] indexable_array [of e' "''tags''"]
    ensure_has_evebox_spec(2) [of e e'] indexable_index [of e' "''evebox''"] by blast+

lemma ensure_has_history_total: "ensure_has_history e \<noteq> None \<longleftrightarrow> indexable e"
proof (cases "ensure_has_evebox e")
  case None
  then show ?thesis using ensure_has_evebox_total [of e] by (simp add: ensure_has_history_def)
next
  case (Some e1)
  have "indexable e1" "as_object (json_index e1 ''evebox'') \<noteq> None"
    using ensure_keeps_indexable(2) [OF Some] ensure_has_evebox_spec(2) [OF Some] by auto
  then have "\<exists>v. json_set [''evebox'', ''history''] (JArr []) e1 = Some v"
    unfolding json_set_two_indexable by (auto simp: indexable_def)
  then show ?thesis using Some ensure_has_evebox_total [of e] by (auto simp: ensure_has_history_def)
qed

text \<open>The three together, in either order of use.\<close>

lemma shape_index:
  "event_shape e \<longleftrightarrow> as_array (json_index e ''tags'') \<noteq> None
     \<and> as_array (json_index (json_index e ''evebox'') ''history'') \<noteq> None"
  by (cases e) (auto simp: event_shape_def)

lemma ensure_filter_spec:
  assumes "ensure_filter e = Some e'"
  shows "event_shape e'" "same_content e e'"
proof -
  obtain e1 e2 where e: "ensure_has_history e = Some e1" "ensure_has_tags e1 = Some e2" "ensure_has_evebox e2 = Some e'"
    using assms by (auto simp: ensure_filter_def bind_eq_Some_conv)
  note s = ensure_has_history_spec [OF e(1)] ensure_has_tags_spec [OF e(2)] ensure_has_evebox_spec [OF e(3)]
  show "event_shape e'" using s by (auto simp: shape_index)
  show "same_content e e'" using s same_content_trans by blast
qed

lemma ensure_filter_total: "ensure_filter e \<noteq> None \<longleftrightarrow> indexable e"
proof (cases "ensure_has_history e")
  case None
  then show ?thesis using ensure_has_history_total [of e] by (simp add: ensure_filter_def)
next
  case (Some e1)
  have i1: "indexable e1"
    using ensure_has_history_spec(2) [OF Some] by (intro indexable_index [of _ "''evebox''"]) (cases "json_index e1 ''evebox''"; auto)
  then obtain e2 where e2: "ensure_has_tags e1 = Some e2" using ensure_has_tags_total [of e1] by auto
  then have "ensure_has_evebox e2 \<noteq> None"
    using ensure_has_evebox_total [of e2] ensure_keeps_indexable(1) [OF e2] by simp
  then show ?thesis using Some e2 ensure_has_history_total [of e] by (auto simp: ensure_filter_def)
qed

text \<open>Marking appends the two tags and one history entry, and nothing else.\<close>

definition marked :: "string \<Rightarrow> string \<Rightarrow> json \<Rightarrow> json \<Rightarrow> bool" where
  "marked now cause e e' \<longleftrightarrow> event_shape e'
     \<and> tags_of e' = tags_of e @ [JStr ''evebox.archived'', JStr ''evebox.auto-archived'']
     \<and> history_of e' = history_of e @ [history_json (new_auto_archived now cause)]
     \<and> (\<forall>k. k \<noteq> ''tags'' \<longrightarrow> k \<noteq> ''evebox'' \<longrightarrow> json_index e' k = json_index e k)"

lemma mark_auto_archived_spec:
  assumes "mark_auto_archived now cause e = Some e'"
  shows "marked now cause e e'"
proof -
  obtain e1 e2 e3 tags e4 hs where
    e: "ensure_has_tags e = Some e1" "ensure_has_evebox e1 = Some e2" "ensure_has_history e2 = Some e3"
    and tags: "json_index e3 ''tags'' = JArr tags"
    and e4: "json_set [''tags''] (JArr (tags @ [JStr ''evebox.archived'', JStr ''evebox.auto-archived''])) e3 = Some e4"
    and hs: "json_index (json_index e4 ''evebox'') ''history'' = JArr hs"
    and e': "json_set [''evebox'', ''history''] (JArr (hs @ [history_json (new_auto_archived now cause)])) e4 = Some e'"
    using assms by (auto simp: mark_auto_archived_def bind_eq_Some_conv split: option.splits)
  have s: "same_content e e3"
    using ensure_has_tags_spec(1) [OF e(1)] ensure_has_evebox_spec(1) [OF e(2)] ensure_has_history_spec(1) [OF e(3)]
      same_content_trans by blast
  have t: "tags_of e3 = tags" using tags by (simp add: tags_of_def)
  have h: "history_of e3 = hs"
    using hs json_set_one_index [OF e4, of "''evebox''"] by (simp add: history_of_def)
  note i4 = json_set_one_index [OF e4] and i5 = json_set_two [OF e']
  have "tags_of e' = tags @ [JStr ''evebox.archived'', JStr ''evebox.auto-archived'']"
    "history_of e' = hs @ [history_json (new_auto_archived now cause)]" "event_shape e'"
    using i4 [of "''tags''"] i5(1) [of "''tags''"] i5(2) [of "''history''"]
    by (auto simp: tags_of_def history_of_def shape_index)
  moreover have "json_index e' k = json_index e k" if "k \<noteq> ''tags''" "k \<noteq> ''evebox''" for k
    using i4 [of k] i5(1) [of k] that s by (simp add: same_content_def)
  ultimately show ?thesis using s t h by (simp add: marked_def same_content_def)
qed

lemma mark_auto_archived_total: "mark_auto_archived now cause e \<noteq> None \<longleftrightarrow> indexable e"
proof (cases "indexable e")
  case False
  then show ?thesis using ensure_has_tags_total [of e] by (simp add: mark_auto_archived_def)
next
  case True
  then obtain e1 where e1: "ensure_has_tags e = Some e1" using ensure_has_tags_total [of e] by auto
  then obtain e2 where e2: "ensure_has_evebox e1 = Some e2"
    using ensure_has_evebox_total [of e1] ensure_keeps_indexable(1) [OF e1] by auto
  then obtain e3 where e3: "ensure_has_history e2 = Some e3"
    using ensure_has_history_total [of e2] ensure_keeps_indexable(2) [OF e2] by auto
  note s = ensure_has_history_spec [OF e3] ensure_has_evebox_spec [OF e2] ensure_has_tags_spec [OF e1]
  obtain tags where tags: "json_index e3 ''tags'' = JArr tags" using s by auto
  obtain hs where hs: "json_index (json_index e3 ''evebox'') ''history'' = JArr hs" using s by auto
  have "indexable e3" using tags by (intro indexable_array [of _ "''tags''"]) simp
  then obtain e4 where e4:
    "json_set [''tags''] (JArr (tags @ [JStr ''evebox.archived'', JStr ''evebox.auto-archived''])) e3 = Some e4"
    using json_set_indexable [of "''tags''" _ e3] by metis
  have ev: "json_index e4 ''evebox'' = json_index e3 ''evebox''" using json_set_one_index [OF e4] by simp
  have "indexable (json_index e4 ''evebox'')"
    unfolding ev using hs by (cases "json_index e3 ''evebox''") (auto simp: indexable_def)
  then have "\<exists>v. json_set [''evebox'', ''history''] (JArr (hs @ [history_json (new_auto_archived now cause)])) e4 = Some v"
    unfolding json_set_two_indexable using indexable_set [OF e4] by simp
  with e1 e2 e3 tags e4 ev hs show ?thesis using True by (simp add: mark_auto_archived_def)
qed

section \<open>Lemmas: conditions\<close>

text \<open>The values a dotted path denotes: arrays fan out wherever they stand, an object is
  entered through the next key.\<close>

inductive denotes :: "json \<Rightarrow> string list \<Rightarrow> json \<Rightarrow> bool" where
  here: "as_array v = None \<Longrightarrow> denotes v [] v"
| element: "x \<in> set xs \<Longrightarrow> denotes x path w \<Longrightarrow> denotes (JArr xs) path w"
| member: "map_of kvs k = Some v \<Longrightarrow> denotes v path w \<Longrightarrow> denotes (JObj kvs) (k # path) w"

inductive_cases denotes_elims:
  "denotes (JArr xs) path w" "denotes (JObj kvs) (k # path) w" "denotes v [] w" "denotes v (k # path) w"

lemma list_ex_nth: "list_ex (\<lambda>i. P (xs ! i)) [0..<length xs] \<longleftrightarrow> (\<exists>x \<in> set xs. P x)"
proof -
  have "set xs = (\<lambda>i. xs ! i) ` {0..<length xs}" by (auto simp: in_set_conv_nth)
  then show ?thesis by (simp add: list_ex_iff)
qed

lemma value_matches_array: "value_matches (JArr vs) path x \<longleftrightarrow> (\<exists>u \<in> set vs. value_matches u path x)"
proof -
  have "value_matches (JArr vs) path x \<longleftrightarrow> list_ex (\<lambda>i. value_matches (vs ! i) path x) [0..<length vs]"
    by (rule trans [OF value_matches.simps]) simp
  also have "\<dots> \<longleftrightarrow> (\<exists>u \<in> set vs. value_matches u path x)" by (rule list_ex_nth)
  finally show ?thesis .
qed

lemma value_matches_leaf: "as_array v = None \<Longrightarrow> value_matches v [] x \<longleftrightarrow> json_eq v x"
  by (rule trans [OF value_matches.simps]) (cases v; simp)

lemma value_matches_member:
  "as_array v = None \<Longrightarrow> value_matches v (k # path) x \<longleftrightarrow> (\<exists>u. json_get v k = Some u \<and> value_matches u path x)"
  by (rule trans [OF value_matches.simps]) (cases v; auto split: option.splits)

lemma value_matches_scalar:
  "value_matches v path x \<Longrightarrow> as_array v = None \<Longrightarrow> as_object v = None \<Longrightarrow> \<exists>w. denotes v path w \<and> json_eq w x"
proof (cases path)
  case Nil
  assume "value_matches v path x" and "as_array v = None"
  then show ?thesis using Nil by (auto simp: value_matches_leaf intro: denotes.here)
next
  case (Cons k path')
  assume "value_matches v path x" and "as_array v = None" and "as_object v = None"
  then show ?thesis using Cons by (cases v) (auto simp: value_matches_member)
qed

lemma value_matches_denotes: "value_matches v path x \<Longrightarrow> \<exists>w. denotes v path w \<and> json_eq w x"
proof (induction v arbitrary: path)
  case (JArr vs)
  then show ?case by (auto simp: value_matches_array intro: denotes.element) (metis denotes.element)
next
  case (JObj kvs)
  show ?case
  proof (cases path)
    case Nil
    then show ?thesis
      using JObj.prems by (auto simp: value_matches_leaf intro!: exI [of _ "JObj kvs"] denotes.here)
  next
    case (Cons k path')
    then obtain u where u: "map_of kvs k = Some u" "value_matches u path' x"
      using JObj.prems by (auto simp: value_matches_member)
    have "\<exists>w. denotes u path' w \<and> json_eq w x"
      using map_of_SomeD [OF u(1)] u(2) by (intro JObj.IH) (auto simp: snds.simps)
    then show ?thesis using u(1) Cons by (auto intro: denotes.member)
  qed
qed (rule value_matches_scalar, assumption, simp, simp)+

lemma denotes_value_matches: "denotes v path w \<Longrightarrow> json_eq w x \<Longrightarrow> value_matches v path x"
  by (induction rule: denotes.induct) (auto simp: value_matches_leaf value_matches_array value_matches_member)

section \<open>Lemmas: the filter set\<close>

datatype archive_op = Add_Filter event_filter | Remove_Filter event_filter

fun archive_step :: "auto_archive \<Rightarrow> archive_op \<Rightarrow> auto_archive" where
  "archive_step filters (Add_Filter f) = archive_add f filters"
| "archive_step filters (Remove_Filter f) = archive_remove f filters"

text \<open>No filter is listed twice and none is without conditions, so none matches everything
  for want of conditions.\<close>

definition archive_ok :: "auto_archive \<Rightarrow> bool" where
  "archive_ok filters \<longleftrightarrow> sorted_wrt (\<lambda>f g. \<not> filter_eq f g) filters \<and> (\<forall>f \<in> set filters. ef_conditions f \<noteq> [])"

interpretation archive: invariant_machine archive_step archive_ok
proof unfold_locales
  fix filters op
  assume "archive_ok filters"
  then show "archive_ok (archive_step filters op)"
    by (cases op)
      (auto simp: archive_ok_def archive_add_def archive_remove_def archive_contains_def sorted_wrt_append
        list_ex_iff sorted_wrt_filter)
qed

section \<open>Properties\<close>

text \<open>The default filter chain panics exactly on an event that is neither an object nor
  null: every object comes through, whatever its \<open>tags\<close>, \<open>evebox\<close> and \<open>alert\<close> members are, and
  a line of the log holding any other JSON value stops the ingest task.\<close>

theorem default_chain_total:
  "chain_run now chain_with_defaults e = None \<longleftrightarrow> e \<noteq> JNull \<and> as_object e = None"
proof -
  have i: "indexable e \<longleftrightarrow> e = JNull \<or> as_object e \<noteq> None" by (auto simp: indexable_def)
  show ?thesis
  proof (cases "ensure_filter e")
    case None
    then show ?thesis using ensure_filter_total [of e] i by (cases e) (auto simp: chain_with_defaults_def)
  next
    case (Some e1)
    have "indexable e1"
      using ensure_filter_spec(1) [OF Some] by (intro indexable_array [of _ "''tags''"]) (simp add: event_shape_def)
    then have "metadata_action now e1 \<noteq> None"
      using mark_auto_archived_total [of now "''metadata''" e1]
      by (auto simp: metadata_action_def split: option.splits)
    then show ?thesis using Some ensure_filter_total [of e] i by (auto simp: chain_with_defaults_def)
  qed
qed

text \<open>C34. Whatever the auto-archive rules say and however many filters run, an event is
  auto-archived at most once: the chain leaves tags and history as they were, or it appends
  exactly the two archive tags and one history entry, the latter only to an event that was
  not archived before; and the event has its tags array and history array either way.\<close>

theorem archived_at_most_once:
  assumes "chain_run now (chain_with_defaults @ map Auto_Archive rules) e = Some e'"
  shows "event_shape e' \<and>
      ((tags_of e' = tags_of e \<and> history_of e' = history_of e)
      \<or> \<not> has_tag e ''evebox.archived''
        \<and> tags_of e' = tags_of e @ [JStr ''evebox.archived'', JStr ''evebox.auto-archived'']
        \<and> (\<exists>cause. history_of e' = history_of e @ [history_json (new_auto_archived now cause)]))"
proof -
  obtain e1 e2 where e1: "ensure_filter e = Some e1" and e2: "metadata_action now e1 = Some e2"
    and rest: "chain_run now (map Auto_Archive rules) e2 = Some e'"
    using assms by (auto simp: chain_with_defaults_def bind_eq_Some_conv)
  note s = ensure_filter_spec [OF e1]
  have same: "tags_of e1 = tags_of e" "history_of e1 = history_of e" using s(2) by (auto simp: same_content_def)
  have t1: "has_tag e1 t = has_tag e t" for t using same by (simp add: has_tag_tags_of)
  have one: "e'' = e0 \<or> \<not> has_tag e0 ''evebox.archived'' \<and> (\<exists>cause. marked now cause e0 e'')"
    if "metadata_action now e0 = Some e'' \<or> auto_archive_filter now f e0 = Some e''" for e0 e'' f
    using that by (auto simp: metadata_action_def auto_archive_filter_def dest!: mark_auto_archived_spec
        split: if_splits option.splits)
  have done_: "e'' = e0" if "chain_run now (map Auto_Archive fs) e0 = Some e''" "has_tag e0 ''evebox.archived''" for fs e0 e''
    using that by (induction fs arbitrary: e0) (auto simp: auto_archive_filter_def)
  have marked_tag: "has_tag e'' ''evebox.archived''" if "marked now cause e0 e''" for cause e0 e''
    using that by (simp add: marked_def has_tag_tags_of)
  have chain: "e'' = e0 \<or> \<not> has_tag e0 ''evebox.archived'' \<and> (\<exists>cause. marked now cause e0 e'')"
    if "chain_run now (map Auto_Archive fs) e0 = Some e''" for fs e0 e''
    using that
  proof (induction fs arbitrary: e0)
    case (Cons f fs)
    then obtain e3 where e3: "auto_archive_filter now f e0 = Some e3" "chain_run now (map Auto_Archive fs) e3 = Some e''"
      by (auto simp: bind_eq_Some_conv)
    from one [of e0 e3 f] e3(1) show ?case
      using Cons.IH [of e3] e3(2) done_ [OF e3(2)] marked_tag by blast
  qed simp
  have "e' = e1 \<or> \<not> has_tag e1 ''evebox.archived'' \<and> (\<exists>cause. marked now cause e1 e')"
    using one [of e1 e2] e2 chain [OF rest] done_ [OF rest] marked_tag by blast
  then show ?thesis
    using s(1) same t1 by (auto simp: marked_def)
qed

theorem archived_at_most_once_witness:
  "let e = JObj [(''alert'', JObj [(''metadata'', JObj [(''evebox-action'', JArr [JStr ''archive''])])])]
   in \<exists>e'. chain_run ''now'' (chain_with_defaults @ map Auto_Archive []) e = Some e' \<and> event_shape e'
     \<and> tags_of e' = [JStr ''evebox.archived'', JStr ''evebox.auto-archived'']"
proof -
  let ?e = "JObj [(''alert'', JObj [(''metadata'', JObj [(''evebox-action'', JArr [JStr ''archive''])])])]"
  obtain e' where r: "chain_run ''now'' (chain_with_defaults @ map Auto_Archive []) ?e = Some e'"
    and t: "tags_of e' = [JStr ''evebox.archived'', JStr ''evebox.auto-archived'']"
    by (auto simp: chain_with_defaults_def ensure_filter_def ensure_has_history_def ensure_has_tags_def
        ensure_has_evebox_def metadata_action_def has_tag_def mark_auto_archived_def tags_of_def)
  from archived_at_most_once [OF r] r t show ?thesis by auto
qed

text \<open>Enrichment is idempotent: an event that has been through the ensure filter is left
  exactly as it is by running it again.\<close>

theorem ensure_filter_idempotent:
  "Option.bind (ensure_filter e) ensure_filter = ensure_filter e"
proof (cases "ensure_filter e")
  case (Some e1)
  then have "event_shape e1" by (rule ensure_filter_spec)
  then show ?thesis
    using Some
    by (auto simp: event_shape_def ensure_filter_def ensure_has_history_def ensure_has_tags_def
        ensure_has_evebox_def)
qed simp

text \<open>A filter condition matches an event exactly when one of the values its dotted path
  denotes equals the expected value, an array anywhere on the path standing for any of its
  elements.\<close>

theorem condition_matches_denotes:
  "condition_matches event c \<longleftrightarrow>
     (\<exists>w. denotes event (split_char (CHR ''.'') (fc_field c)) w \<and> json_eq w (fc_value c))"
  using value_matches_denotes [of event _ "fc_value c"] denotes_value_matches [of event _ _ "fc_value c"]
  by (cases "fc_op c") auto

text \<open>Starting empty, any sequence of adding and removing filters keeps the set free of
  duplicates and of filters without conditions, so no event is archived by an empty filter.\<close>

theorem archive_set_ok:
  "archive_ok (run_steps archive_step [] ops)"
  by (rule archive.run_inv) (simp add: archive_ok_def)

end
