(* ===== verification/Event_Sink.thy ===== *)
theory Event_Sink
  imports Eve_Event
begin

text \<open>
  Where events go (\<open>src/src/importer.rs\<close>): the three sinks with their queues, an EveBox server
  (\<open>src/src/agent/importer.rs\<close>), Elasticsearch (\<open>src/src/elastic/importer.rs\<close> and the bulk
  response of \<open>src/src/elastic/client.rs\<close>) and SQLite (\<open>src/src/sqlite/importer.rs\<close>). A queued
  string is kept as the value it is rendered from. Parameters: the rendering of JSON, the
  operations of a timestamp, the ULID given to an event, the HTTP server's answer to a body
  and the outcome of each try of a transaction. The locale \<open>sink_contract\<close> is the contract a
  client of the sinks relies on; it is interpreted on the three sinks at the end.
\<close>

section \<open>Parameters\<close>

record 'ts sink_env =
  se_parse :: "string \<Rightarrow> 'ts option"
  se_nanos :: "'ts \<Rightarrow> int"
  se_yyyymmdd :: "'ts \<Rightarrow> string"
  se_elastic :: "'ts \<Rightarrow> string"
  se_rfc3339 :: "'ts \<Rightarrow> string"
  se_ulid :: "'ts \<Rightarrow> string"
  se_show :: "json \<Rightarrow> string"

text \<open>The answer to a post: a transport error, or a status with a body that may fail to read.\<close>

type_synonym http_answer = "string + (nat \<times> (string + string))"

datatype sql_outcome = Sql_Ok | Sql_Locked string | Sql_Failed string

record sink_world =
  sw_post :: "string \<Rightarrow> http_answer"
  sw_try :: "nat \<Rightarrow> sql_outcome"
  sw_parse_json :: "string \<Rightarrow> string + json"

definition event_datetime :: "'ts sink_env \<Rightarrow> json \<Rightarrow> 'ts option" where
  "event_datetime env event =
     (case json_index event ''timestamp'' of JStr s \<Rightarrow> se_parse env s | _ \<Rightarrow> None)"

fun join_lines :: "string list \<Rightarrow> string" where
  "join_lines [] = []"
| "join_lines [x] = x"
| "join_lines (x # xs) = x @ [CHR 0x0A] @ join_lines xs"

section \<open>The EveBox server\<close>

definition LIMIT :: nat where "LIMIT = 1024 * 1024 * 16"

record evebox_sink =
  eb_queue :: "json list"
  eb_size :: nat

definition evebox_new :: evebox_sink where "evebox_new = \<lparr>eb_queue = [], eb_size = 0\<rparr>"

definition evebox_submit :: "'ts sink_env \<Rightarrow> json \<Rightarrow> evebox_sink \<Rightarrow> bool \<times> evebox_sink" where
  "evebox_submit env event s =
     (let s = s\<lparr>eb_size := eb_size s + length (se_show env event), eb_queue := eb_queue s @ [event]\<rparr>
      in (eb_size s > LIMIT, s))"

definition evebox_truncate :: "evebox_sink \<Rightarrow> evebox_sink" where
  "evebox_truncate s = s\<lparr>eb_queue := [], eb_size := 0\<rparr>"

definition evebox_commit ::
    "'ts sink_env \<Rightarrow> sink_world \<Rightarrow> evebox_sink \<Rightarrow> (string + nat) \<times> evebox_sink" where
  "evebox_commit env w s =
     (case sw_post w (join_lines (map (se_show env) (eb_queue s))) of
        Inl e \<Rightarrow> (Inl e, s)
      | Inr (status, body) \<Rightarrow>
          (if status \<noteq> 200 then
             (case body of
                Inl e \<Rightarrow> (Inl e, s)
              | Inr t \<Rightarrow>
                  (if t \<noteq> [] then
                     (case sw_parse_json w t of
                        Inr v \<Rightarrow> (case json_index v ''error'' of JStr e \<Rightarrow> (Inl e, s) | _ \<Rightarrow> (Inl t, s))
                      | Inl _ \<Rightarrow> (Inl t, s))
                   else (Inl (''Server returned status code '' @ show_nat status), s)))
           else (Inr (length (eb_queue s)), evebox_truncate s)))"

section \<open>Elasticsearch\<close>

text \<open>What the queue holds: action and document lines, and the empty line each commit adds.\<close>

datatype bulk_line = Create string string | Document json | Empty_Line

record elastic_sink =
  es_index :: string
  es_queue :: "bulk_line list"
  es_no_index_suffix :: bool
  es_opensearch :: bool

definition elastic_new :: "string \<Rightarrow> bool \<Rightarrow> bool \<Rightarrow> elastic_sink" where
  "elastic_new index no_suffix opensearch = \<lparr>es_index = index, es_queue = [],
     es_no_index_suffix = no_suffix, es_opensearch = opensearch\<rparr>"

definition elastic_pending :: "elastic_sink \<Rightarrow> nat" where
  "elastic_pending s = length (es_queue s) div 2"

definition select_index :: "string \<Rightarrow> bool \<Rightarrow> bool \<Rightarrow> string option \<Rightarrow> string \<Rightarrow> string" where
  "select_index base no_suffix opensearch event_type date =
     (if no_suffix then base
      else if opensearch \<and> event_type = Some ''stats'' then base @ ''-stats-'' @ date
      else base @ ''-'' @ date)"

text \<open>\<open>None\<close> is the panic on an event without a timestamp.\<close>

definition elastic_submit :: "'ts sink_env \<Rightarrow> json \<Rightarrow> elastic_sink \<Rightarrow> elastic_sink option" where
  "elastic_submit env event s =
     (case event_datetime env event of
        None \<Rightarrow> None
      | Some ts \<Rightarrow>
          (let index = select_index (es_index s) (es_no_index_suffix s) (es_opensearch s)
                         (as_str (json_index event ''event_type'')) (se_yyyymmdd env ts)
           in case json_set [''@timestamp''] (JStr (se_elastic env ts)) event of
                None \<Rightarrow> None
              | Some event \<Rightarrow>
                  Some (s\<lparr>es_queue := es_queue s @ [Create index (se_ulid env ts), Document event]\<rparr>)))"

fun bulk_line_show :: "'ts sink_env \<Rightarrow> bulk_line \<Rightarrow> string" where
  "bulk_line_show env (Create index ulid) =
     se_show env (JObj [(''create'', JObj [(''_id'', JStr ulid), (''_index'', JStr index)])])"
| "bulk_line_show env (Document v) = se_show env v"
| "bulk_line_show env Empty_Line = []"

text \<open>The typed part of a bulk response; a field of another type fails to deserialize.\<close>

record bulk_response =
  br_errors :: "bool option"
  br_items :: "json list option"
  br_error :: "json option"

definition bulk_opt :: "json \<Rightarrow> string \<Rightarrow> json option" where
  "bulk_opt v k = (case json_get v k of None \<Rightarrow> None | Some JNull \<Rightarrow> None | Some x \<Rightarrow> Some x)"

definition bulk_parse :: "json \<Rightarrow> string + bulk_response" where
  "bulk_parse v =
     (if as_object v = None then Inl ''invalid type''
      else case bulk_opt v ''errors'' of
        Some (JBool b) \<Rightarrow>
          (case bulk_opt v ''items'' of
             Some (JArr xs) \<Rightarrow> Inr \<lparr>br_errors = Some b, br_items = Some xs, br_error = bulk_opt v ''error''\<rparr>
           | None \<Rightarrow> Inr \<lparr>br_errors = Some b, br_items = None, br_error = bulk_opt v ''error''\<rparr>
           | _ \<Rightarrow> Inl ''invalid type'')
      | None \<Rightarrow>
          (case bulk_opt v ''items'' of
             Some (JArr xs) \<Rightarrow> Inr \<lparr>br_errors = None, br_items = Some xs, br_error = bulk_opt v ''error''\<rparr>
           | None \<Rightarrow> Inr \<lparr>br_errors = None, br_items = None, br_error = bulk_opt v ''error''\<rparr>
           | _ \<Rightarrow> Inl ''invalid type'')
      | _ \<Rightarrow> Inl ''invalid type'')"

definition has_error :: "bulk_response \<Rightarrow> bool" where
  "has_error r = (case br_errors r of Some b \<Rightarrow> b | None \<Rightarrow> br_error r \<noteq> None)"

fun first_reason :: "json list \<Rightarrow> string option" where
  "first_reason [] = None"
| "first_reason (item # items) =
     (case json_path item [''index'', ''error'', ''reason''] of JStr e \<Rightarrow> Some e | _ \<Rightarrow> first_reason items)"

definition first_error :: "'ts sink_env \<Rightarrow> bulk_response \<Rightarrow> string option" where
  "first_error env r =
     (if \<not> has_error r then None
      else case br_error r of
             Some e \<Rightarrow> Some (se_show env e)
           | None \<Rightarrow> (case br_items r of None \<Rightarrow> None | Some items \<Rightarrow> first_reason items))"

definition elastic_body :: "'ts sink_env \<Rightarrow> bulk_line list \<Rightarrow> string" where
  "elastic_body env queue = join_lines (map (bulk_line_show env) queue) @ [CHR 0x0A]"

definition elastic_commit ::
    "'ts sink_env \<Rightarrow> sink_world \<Rightarrow> elastic_sink \<Rightarrow> (string + nat) \<times> elastic_sink" where
  "elastic_commit env w s0 =
     (let n = elastic_pending s0;
          s = s0\<lparr>es_queue := es_queue s0 @ [Empty_Line]\<rparr>
      in case sw_post w (elastic_body env (es_queue s)) of
           Inl e \<Rightarrow> (Inl e, s)
         | Inr (_, Inl e) \<Rightarrow> (Inl e, s)
         | Inr (_, Inr body_text) \<Rightarrow>
             (case sw_parse_json w body_text of
                Inl e \<Rightarrow> (Inl e, s)
              | Inr v \<Rightarrow>
                  (case bulk_parse v of
                     Inl e \<Rightarrow> (Inl e, s)
                   | Inr r \<Rightarrow>
                       (if has_error r then
                          (case first_error env r of
                             Some e \<Rightarrow> (Inl (''elasticsearch commit error: '' @ e), s)
                           | None \<Rightarrow> (Inl (''elasticsearch commit error: '' @ body_text), s))
                        else (Inr n, s\<lparr>es_queue := []\<rparr>)))))"

section \<open>SQLite: what is stored of an event\<close>

definition reformat_timestamp :: "'ts sink_env \<Rightarrow> string \<Rightarrow> string" where
  "reformat_timestamp env ts = (case se_parse env ts of Some dt \<Rightarrow> se_rfc3339 env dt | None \<Rightarrow> ts)"

definition reformat_at :: "'ts sink_env \<Rightarrow> string list \<Rightarrow> json \<Rightarrow> json option" where
  "reformat_at env ks eve =
     (case json_path eve ks of
        JStr ts \<Rightarrow> json_set ks (JStr (reformat_timestamp env ts)) eve
      | _ \<Rightarrow> Some eve)"

definition reformat_timestamps :: "'ts sink_env \<Rightarrow> json \<Rightarrow> json option" where
  "reformat_timestamps env eve =
     Option.bind (Option.bind (reformat_at env [''timestamp''] eve) (reformat_at env [''flow'', ''start'']))
       (reformat_at env [''flow'', ''end''])"

definition show_int :: "int \<Rightarrow> string" where
  "show_int i = (if i < 0 then CHR ''-'' # show_nat (nat (- i)) else show_nat (nat i))"

text \<open>Appending a text to the output, a space between.\<close>

definition push_text :: "string \<Rightarrow> string \<Rightarrow> string" where
  "push_text output t = (if output = [] then t else output @ '' '' @ t)"

definition is_alnum :: "char \<Rightarrow> bool" where
  "is_alnum c \<longleftrightarrow> is_digit c \<or> (CHR ''A'' \<le> c \<and> c \<le> CHR ''Z'') \<or> (CHR ''a'' \<le> c \<and> c \<le> CHR ''z'')"

definition push_word :: "string \<Rightarrow> string \<Rightarrow> string" where
  "push_word output bytes = (if length bytes < 2 then output else push_text output bytes)"

text \<open>The scan for words: the word being read, if any, and the output.\<close>

fun printable_words :: "string \<Rightarrow> string option \<Rightarrow> string \<Rightarrow> string" where
  "printable_words [] start output =
     (case start of None \<Rightarrow> output | Some word \<Rightarrow> push_word output word)"
| "printable_words (b # bs) start output =
     (if is_alnum b
      then printable_words bs (Some (case start of None \<Rightarrow> [b] | Some word \<Rightarrow> word @ [b])) output
      else printable_words bs None (case start of None \<Rightarrow> output | Some word \<Rightarrow> push_word output word))"

definition extract_printable_words :: "string \<Rightarrow> string \<Rightarrow> string" where
  "extract_printable_words input output = printable_words input None output"

definition printable_field :: "string list \<Rightarrow> bool" where
  "printable_field path \<longleftrightarrow> path = [''payload_printable''] \<or> path = [''http'', ''http_response_body_printable'']"

definition skipped_key :: "string \<Rightarrow> bool" where
  "skipped_key k \<longleftrightarrow> k = ''packet'' \<or> k = ''payload'' \<or> k = ''rule''"

definition skipped_path :: "string list \<Rightarrow> bool" where
  "skipped_path path \<longleftrightarrow> path = [''http'', ''http_response_body''] \<or> path = [''evebox'', ''history'']"

function extract_inner :: "json \<Rightarrow> string \<Rightarrow> string list \<Rightarrow> string"
  and extract_elements :: "json list \<Rightarrow> string \<Rightarrow> string list \<Rightarrow> string"
  and extract_members :: "(string \<times> json) list \<Rightarrow> string \<Rightarrow> string list \<Rightarrow> string" where
  "extract_inner JNull output path = output"
| "extract_inner (JBool b) output path = output"
| "extract_inner (JInt i) output path = push_text output (show_int i)"
| "extract_inner (JFloat f) output path = push_text output f"
| "extract_inner (JStr s) output path =
     (if printable_field path then extract_printable_words s output else push_text output s)"
| "extract_inner (JArr xs) output path = extract_elements xs output path"
| "extract_inner (JObj kvs) output path = extract_members kvs output path"
| "extract_elements [] output path = output"
| "extract_elements (x # xs) output path = extract_elements xs (extract_inner x output path) path"
| "extract_members [] output path = output"
| "extract_members ((k, v) # kvs) output path =
     extract_members kvs
       (if skipped_key k \<or> skipped_path (path @ [k]) then output
        else extract_inner v output (path @ [k])) path"
  by pat_completeness auto

termination
  by (relation "measure (\<lambda>x. case x of Inl (v, _, _) \<Rightarrow> size v
      | Inr (Inl (vs, _, _)) \<Rightarrow> size_list size vs
      | Inr (Inr (kvs, _, _)) \<Rightarrow> size_list (size_prod (\<lambda>_. 0) size) kvs)") auto

definition extract_values :: "json \<Rightarrow> string" where
  "extract_values input = extract_inner input [] []"

section \<open>SQLite: the sink\<close>

record prepared_event =
  pe_ts :: int
  pe_archived :: nat
  pe_history :: json
  pe_source_values :: string
  pe_event :: json

record sqlite_metrics =
  sm_total_duration :: nat
  sm_occurrences :: nat
  sm_events :: nat
  sm_min :: nat
  sm_max :: nat
  sm_lock_errors :: nat

definition metrics_update :: "nat \<Rightarrow> nat \<Rightarrow> sqlite_metrics \<Rightarrow> sqlite_metrics" where
  "metrics_update duration events m =
     m\<lparr>sm_max := (if duration > sm_max m then duration else sm_max m),
       sm_min := (if sm_occurrences m = 0 \<or> duration < sm_min m then duration else sm_min m),
       sm_total_duration := sm_total_duration m + duration,
       sm_occurrences := sm_occurrences m + 1,
       sm_events := sm_events m + events\<rparr>"

text \<open>The sink with the tables it writes: events, and the full text index when it exists, whose
  rows name the event rows by number.\<close>

record sqlite_sink =
  sq_queue :: "prepared_event list"
  sq_rows :: "prepared_event list"
  sq_fts :: "(nat \<times> int \<times> string) list option"
  sq_metrics :: sqlite_metrics

text \<open>\<open>Inl\<close> is the missing timestamp; \<open>None\<close> would be a panic.\<close>

definition sqlite_prep :: "'ts sink_env \<Rightarrow> json \<Rightarrow> (string + prepared_event) option" where
  "sqlite_prep env event =
     (case event_datetime env event of
        None \<Rightarrow> Some (Inl ''event has no timestamp field'')
      | Some ts \<Rightarrow>
          (case reformat_timestamps env event of
             None \<Rightarrow> None
           | Some event \<Rightarrow>
               Some (Inr \<lparr>pe_ts = se_nanos env ts,
                 pe_archived = (if has_tag event ''evebox.archived'' then 1 else 0),
                 pe_history = JArr (case as_array (json_path event [''evebox'', ''history'']) of
                                      None \<Rightarrow> [] | Some hs \<Rightarrow> hs),
                 pe_source_values = extract_values event,
                 pe_event = event\<rparr>)))"

definition sqlite_submit :: "'ts sink_env \<Rightarrow> json \<Rightarrow> sqlite_sink \<Rightarrow> ((string + bool) \<times> sqlite_sink) option" where
  "sqlite_submit env event s =
     (case sqlite_prep env event of
        None \<Rightarrow> None
      | Some (Inl e) \<Rightarrow> Some (Inl e, s)
      | Some (Inr p) \<Rightarrow> Some (Inr False, s\<lparr>sq_queue := sq_queue s @ [p]\<rparr>))"

text \<open>A transaction that commits inserts every queued event, in order, each with its full text
  row; one that does not leaves the tables as they were.\<close>

definition sqlite_insert :: "prepared_event \<Rightarrow> sqlite_sink \<Rightarrow> sqlite_sink" where
  "sqlite_insert p s =
     (let rowid = length (sq_rows s) + 1
      in s\<lparr>sq_rows := sq_rows s @ [p],
           sq_fts := map_option (\<lambda>rows. rows @ [(rowid, pe_ts p, pe_source_values p)]) (sq_fts s)\<rparr>)"

definition commit_with_sqlx :: "sql_outcome \<Rightarrow> nat \<Rightarrow> sqlite_sink \<Rightarrow> (sql_outcome + nat) \<times> sqlite_sink" where
  "commit_with_sqlx outcome duration s =
     (case outcome of
        Sql_Ok \<Rightarrow>
          (let n = length (sq_queue s); s = foldl (\<lambda>s p. sqlite_insert p s) s (sq_queue s)
           in (Inr n, s\<lparr>sq_metrics := metrics_update duration n (sq_metrics s), sq_queue := []\<rparr>))
      | err \<Rightarrow> (Inl err, s))"

text \<open>The tries: a locked database is tried again, up to 35 times.\<close>

function sqlite_commit_loop :: "sink_world \<Rightarrow> nat \<Rightarrow> sqlite_sink \<Rightarrow> (string + nat) \<times> sqlite_sink" where
  "sqlite_commit_loop w tries s =
     (let tries = tries + 1
      in case commit_with_sqlx (sw_try w tries) 0 s of
           (Inr n, s) \<Rightarrow> (Inr n, s)
         | (Inl (Sql_Locked e), s) \<Rightarrow>
             (if tries < 35
              then sqlite_commit_loop w tries
                     (s\<lparr>sq_metrics := (sq_metrics s)\<lparr>sm_lock_errors := sm_lock_errors (sq_metrics s) + 1\<rparr>\<rparr>)
              else (Inl e, s))
         | (Inl (Sql_Failed e), s) \<Rightarrow> (Inl e, s)
         | (Inl Sql_Ok, s) \<Rightarrow> (Inl [], s))"
  by pat_completeness auto

termination
  by (relation "measure (\<lambda>(w, tries, s). 35 - tries)") auto

declare sqlite_commit_loop.simps [simp del]

definition sqlite_commit :: "sink_world \<Rightarrow> sqlite_sink \<Rightarrow> (string + nat) \<times> sqlite_sink" where
  "sqlite_commit w s = sqlite_commit_loop w 0 s"

section \<open>The sinks as one\<close>

datatype event_sink = Sink_EveBox evebox_sink | Sink_Elastic elastic_sink | Sink_SQLite sqlite_sink

definition sink_submit :: "'ts sink_env \<Rightarrow> json \<Rightarrow> event_sink \<Rightarrow> ((string + bool) \<times> event_sink) option" where
  "sink_submit env event sink =
     (case sink of
        Sink_EveBox s \<Rightarrow> (let (c, s) = evebox_submit env event s in Some (Inr c, Sink_EveBox s))
      | Sink_Elastic s \<Rightarrow> map_option (\<lambda>s. (Inr False, Sink_Elastic s)) (elastic_submit env event s)
      | Sink_SQLite s \<Rightarrow> map_option (\<lambda>(r, s). (r, Sink_SQLite s)) (sqlite_submit env event s))"

definition sink_commit :: "'ts sink_env \<Rightarrow> sink_world \<Rightarrow> event_sink \<Rightarrow> (string + nat) \<times> event_sink" where
  "sink_commit env w sink =
     (case sink of
        Sink_EveBox s \<Rightarrow> map_prod id Sink_EveBox (evebox_commit env w s)
      | Sink_Elastic s \<Rightarrow> map_prod id Sink_Elastic (elastic_commit env w s)
      | Sink_SQLite s \<Rightarrow> map_prod id Sink_SQLite (sqlite_commit w s))"

definition sink_pending :: "event_sink \<Rightarrow> nat" where
  "sink_pending sink =
     (case sink of
        Sink_EveBox s \<Rightarrow> length (eb_queue s)
      | Sink_Elastic s \<Rightarrow> elastic_pending s
      | Sink_SQLite s \<Rightarrow> length (sq_queue s))"


section \<open>What is searched of an event\<close>

text \<open>The texts of an event in order, without an accumulator: the words of a run of bytes, and
  the texts of a value under its path.\<close>

fun alnum_runs :: "string \<Rightarrow> string \<Rightarrow> string list" where
  "alnum_runs word [] = [word]"
| "alnum_runs word (b # bs) = (if is_alnum b then alnum_runs (word @ [b]) bs else word # alnum_runs [] bs)"

definition words :: "string \<Rightarrow> string list" where
  "words s = filter (\<lambda>w. 2 \<le> length w) (alnum_runs [] s)"

fun searchable :: "string list \<Rightarrow> json \<Rightarrow> string list" where
  "searchable path (JInt i) = [show_int i]"
| "searchable path (JFloat f) = [f]"
| "searchable path (JStr s) = (if printable_field path then words s else [s])"
| "searchable path (JArr xs) = concat (map (searchable path) xs)"
| "searchable path (JObj kvs) =
     concat (map (\<lambda>(k, v). if skipped_key k \<or> skipped_path (path @ [k]) then []
                          else searchable (path @ [k]) v) kvs)"
| "searchable path _ = []"

lemma push_word_short: "length w < 2 \<Longrightarrow> push_word output w = output"
  by (simp add: push_word_def)

lemma printable_words_runs:
  "printable_words bs start output =
     foldl push_text output
       (filter (\<lambda>w. 2 \<le> length w) (alnum_runs (case start of None \<Rightarrow> [] | Some w \<Rightarrow> w) bs))"
proof (induction bs start "output" rule: printable_words.induct)
  case (1 start out)
  then show ?case by (auto simp: push_word_def split: option.splits)
next
  case (2 b bs start out)
  then show ?case by (auto simp: push_word_def split: option.splits)
qed

lemma extract_printable_words_words:
  "extract_printable_words s output = foldl push_text output (words s)"
  by (simp add: extract_printable_words_def printable_words_runs words_def)

lemma extract_inner_searchable:
  "extract_inner v output path = foldl push_text output (searchable path v)"
  "extract_elements vs output path = foldl push_text output (concat (map (searchable path) vs))"
  "extract_members kvs output path = foldl push_text output
     (concat (map (\<lambda>(k, v). if skipped_key k \<or> skipped_path (path @ [k]) then []
                          else searchable (path @ [k]) v) kvs))"
  by (induction v "output" path and vs "output" path and kvs "output" path
      rule: extract_inner_extract_elements_extract_members.induct)
    (simp_all add: extract_printable_words_words)

section \<open>Bodies of lines\<close>

lemma split_char_no: "c \<notin> set s \<Longrightarrow> split_char c s = [s]"
  by (induction s) auto

lemma split_char_append: "c \<notin> set s \<Longrightarrow> split_char c (s @ c # t) = s # split_char c t"
  by (induction s) auto

lemma join_lines_Cons: "xs \<noteq> [] \<Longrightarrow> join_lines (x # xs) = x @ CHR 0x0A # join_lines xs"
  by (cases xs) auto

text \<open>Reading lines back, blank ones dropped, as the receivers do.\<close>

lemma nonblank_lines_body:
  "list_all (\<lambda>x. CHR 0x0A \<notin> set x) xs \<Longrightarrow>
     filter (\<lambda>l. l \<noteq> []) (split_char (CHR 0x0A) (join_lines xs @ [CHR 0x0A])) = filter (\<lambda>l. l \<noteq> []) xs"
proof (induction xs)
  case Nil
  then show ?case by simp
next
  case (Cons x xs)
  then show ?case
    by (cases "xs = []") (auto simp: join_lines_Cons split_char_append)
qed

lemma split_join_lines:
  "list_all (\<lambda>x. CHR 0x0A \<notin> set x) xs \<Longrightarrow> xs \<noteq> [] \<Longrightarrow> split_char (CHR 0x0A) (join_lines xs) = xs"
proof (induction xs)
  case Nil
  then show ?case by simp
next
  case (Cons x xs)
  then show ?case
    by (cases "xs = []") (auto simp: join_lines_Cons split_char_append split_char_no)
qed

section \<open>The contract of a sink\<close>

text \<open>A sink keeps a queue: a submitted event is appended as one entry, which depends on the
  event and the sink's configuration only; a commit that succeeds empties the queue, one that
  fails keeps it. The client's view is the entries handed to the backend, in order.\<close>

datatype ('e, 'w) sink_op = Submit 'e | Commit 'w

text \<open>A run of a client, with the entries the backend has accepted; an event that is rejected
  is not queued.\<close>

fun drive :: "('e \<Rightarrow> 's \<Rightarrow> 's option) \<Rightarrow> ('w \<Rightarrow> 's \<Rightarrow> bool \<times> 's) \<Rightarrow> ('s \<Rightarrow> 'q list) \<Rightarrow>
    ('e, 'w) sink_op list \<Rightarrow> 's \<times> 'q list \<Rightarrow> 's \<times> 'q list" where
  "drive submit commit queued [] st = st"
| "drive submit commit queued (Submit e # ops) (s, log) =
     drive submit commit queued ops (case submit e s of Some s' \<Rightarrow> (s', log) | None \<Rightarrow> (s, log))"
| "drive submit commit queued (Commit w # ops) (s, log) =
     drive submit commit queued ops
       (case commit w s of (ok, s') \<Rightarrow> (s', if ok then log @ queued s else log))"

fun accepted :: "('e \<Rightarrow> 's \<Rightarrow> 's option) \<Rightarrow> ('w \<Rightarrow> 's \<Rightarrow> bool \<times> 's) \<Rightarrow>
    ('e, 'w) sink_op list \<Rightarrow> 's \<Rightarrow> 'e list" where
  "accepted submit commit [] s = []"
| "accepted submit commit (Submit e # ops) s =
     (case submit e s of Some s' \<Rightarrow> e # accepted submit commit ops s' | None \<Rightarrow> accepted submit commit ops s)"
| "accepted submit commit (Commit w # ops) s = accepted submit commit ops (snd (commit w s))"

locale sink_contract =
  fixes submit :: "'e \<Rightarrow> 's \<Rightarrow> 's option"
    and commit :: "'w \<Rightarrow> 's \<Rightarrow> bool \<times> 's"
    and queued :: "'s \<Rightarrow> 'q list"
    and conf :: "'s \<Rightarrow> 'c"
    and entry :: "'c \<Rightarrow> 'e \<Rightarrow> 'q"
    and inv :: "'s \<Rightarrow> bool"
  assumes submit_queued:
      "inv s \<Longrightarrow> submit e s = Some s' \<Longrightarrow> inv s' \<and> conf s' = conf s \<and> queued s' = queued s @ [entry (conf s) e]"
    and commit_queued:
      "inv s \<Longrightarrow> commit w s = (ok, s') \<Longrightarrow> inv s' \<and> conf s' = conf s \<and> queued s' = (if ok then [] else queued s)"
begin

lemma exactly_once:
  "inv s \<Longrightarrow> drive submit commit queued ops (s, log) = (s', log') \<Longrightarrow>
     log' @ queued s' = log @ queued s @ map (entry (conf s)) (accepted submit commit ops s)
     \<and> conf s' = conf s \<and> inv s'"
proof (induction ops arbitrary: s log)
  case Nil
  then show ?case by simp
next
  case (Cons p ops)
  show ?case
  proof (cases p)
    case (Submit e)
    show ?thesis
    proof (cases "submit e s")
      case None
      then show ?thesis using Cons Submit by simp
    next
      case (Some t)
      then show ?thesis
        using Cons.IH [of t log] Cons.prems Submit submit_queued [OF Cons.prems(1) Some] by simp
    qed
  next
    case (Commit w)
    obtain ok t where c: "commit w s = (ok, t)" by fastforce
    then show ?thesis
      using Cons.IH [of t "if ok then log @ queued s else log"] Cons.prems Commit
        commit_queued [OF Cons.prems(1) c] by (auto split: if_splits)
  qed
qed

end

text \<open>The three sinks meet it. What an entry is: for the server the event itself, for
  Elasticsearch the action line and the document, for SQLite the prepared row.\<close>

datatype sink_entry =
    Posted json
  | Bulk bulk_line bulk_line
  | Row prepared_event

datatype sink_kind = Kind_EveBox | Kind_Elastic string bool bool | Kind_SQLite

fun kind_of_sink :: "event_sink \<Rightarrow> sink_kind" where
  "kind_of_sink (Sink_EveBox s) = Kind_EveBox"
| "kind_of_sink (Sink_Elastic s) = Kind_Elastic (es_index s) (es_no_index_suffix s) (es_opensearch s)"
| "kind_of_sink (Sink_SQLite s) = Kind_SQLite"

fun bulk_pairs :: "bulk_line list \<Rightarrow> sink_entry list" where
  "bulk_pairs (a # b # ls) = Bulk a b # bulk_pairs ls"
| "bulk_pairs _ = []"

definition entry_lines :: "bulk_line list \<Rightarrow> bulk_line list" where
  "entry_lines ls = filter (\<lambda>l. l \<noteq> Empty_Line) ls"

fun sink_queued :: "event_sink \<Rightarrow> sink_entry list" where
  "sink_queued (Sink_EveBox s) = map Posted (eb_queue s)"
| "sink_queued (Sink_Elastic s) = bulk_pairs (entry_lines (es_queue s))"
| "sink_queued (Sink_SQLite s) = map Row (sq_queue s)"

fun sink_entry_of :: "'ts sink_env \<Rightarrow> sink_kind \<Rightarrow> json \<Rightarrow> sink_entry" where
  "sink_entry_of env Kind_EveBox event = Posted event"
| "sink_entry_of env (Kind_Elastic index no_suffix opensearch) event =
     (let ts = the (event_datetime env event)
      in Bulk (Create (select_index index no_suffix opensearch
                 (as_str (json_index event ''event_type'')) (se_yyyymmdd env ts)) (se_ulid env ts))
           (Document (the (json_set [''@timestamp''] (JStr (se_elastic env ts)) event))))"
| "sink_entry_of env Kind_SQLite event =
     (case sqlite_prep env event of Some (Inr p) \<Rightarrow> Row p | _ \<Rightarrow> Posted event)"

text \<open>The invariant: the lines come in pairs; the byte count is that of the queue.\<close>

fun sink_inv :: "'ts sink_env \<Rightarrow> event_sink \<Rightarrow> bool" where
  "sink_inv env (Sink_EveBox s) \<longleftrightarrow> eb_size s = sum_list (map (\<lambda>v. length (se_show env v)) (eb_queue s))"
| "sink_inv env (Sink_Elastic s) \<longleftrightarrow> even (length (entry_lines (es_queue s)))"
| "sink_inv env (Sink_SQLite s) \<longleftrightarrow> True"

text \<open>A submit whose result is an error or a panic queues nothing.\<close>

definition sink_push :: "'ts sink_env \<Rightarrow> json \<Rightarrow> event_sink \<Rightarrow> event_sink option" where
  "sink_push env event sink =
     (case sink_submit env event sink of Some (Inr _, s) \<Rightarrow> Some s | _ \<Rightarrow> None)"

definition sink_flush :: "'ts sink_env \<Rightarrow> sink_world \<Rightarrow> event_sink \<Rightarrow> bool \<times> event_sink" where
  "sink_flush env w sink = (case sink_commit env w sink of (r, s) \<Rightarrow> (\<not> isl r, s))"

lemma bulk_pairs_append: "even (length ls) \<Longrightarrow> bulk_pairs (ls @ [a, b]) = bulk_pairs ls @ [Bulk a b]"
  by (induction ls rule: bulk_pairs.induct) auto

lemma evebox_commit_cases:
  "evebox_commit env w s = (r, s') \<Longrightarrow> s' = (if isl r then s else evebox_truncate s)"
  by (auto simp: evebox_commit_def split: sum.splits prod.splits if_splits json.splits)

lemma elastic_commit_cases:
  "elastic_commit env w s = (r, s') \<Longrightarrow>
     s' = s\<lparr>es_queue := (if isl r then es_queue s @ [Empty_Line] else [])\<rparr>"
  by (auto simp: elastic_commit_def Let_def split: sum.splits prod.splits if_splits option.splits)


text \<open>SQLite: the tries of a commit, up to the first that is not locked out.\<close>

fun is_locked :: "sql_outcome \<Rightarrow> bool" where
  "is_locked (Sql_Locked e) = True"
| "is_locked _ = False"

definition fts_rows :: "nat \<Rightarrow> prepared_event list \<Rightarrow> (nat \<times> int \<times> string) list" where
  "fts_rows n ps = map (\<lambda>(i, p). (i, pe_ts p, pe_source_values p)) (enumerate (Suc n) ps)"

lemma fts_rows_Cons [simp]:
  "fts_rows n [] = []"
  "fts_rows n (p # ps) = (Suc n, pe_ts p, pe_source_values p) # fts_rows (Suc n) ps"
  by (simp_all add: fts_rows_def)

lemma sqlite_inserts:
  "foldl (\<lambda>s p. sqlite_insert p s) s ps =
     s\<lparr>sq_rows := sq_rows s @ ps, sq_fts := map_option (\<lambda>rows. rows @ fts_rows (length (sq_rows s)) ps) (sq_fts s)\<rparr>"
  by (induction ps arbitrary: s) (auto simp: sqlite_insert_def Let_def option.map_comp comp_def option.map_ident)

definition sqlite_done :: "sql_outcome \<Rightarrow> nat \<Rightarrow> nat \<Rightarrow> sqlite_sink \<Rightarrow> string + nat \<Rightarrow> sqlite_sink \<Rightarrow> bool" where
  "sqlite_done outcome k tries s r s' \<longleftrightarrow>
     (case outcome of
        Sql_Ok \<Rightarrow> r = Inr (length (sq_queue s)) \<and> sq_queue s' = []
          \<and> sq_rows s' = sq_rows s @ sq_queue s
          \<and> sq_fts s' = map_option (\<lambda>rows. rows @ fts_rows (length (sq_rows s)) (sq_queue s)) (sq_fts s)
          \<and> sm_events (sq_metrics s') = sm_events (sq_metrics s) + length (sq_queue s)
      | Sql_Locked e \<Rightarrow> k = 35 \<and> r = Inl e \<and> s' = s\<lparr>sq_metrics := sq_metrics s'\<rparr>
      | Sql_Failed e \<Rightarrow> r = Inl e \<and> s' = s\<lparr>sq_metrics := sq_metrics s'\<rparr>)
     \<and> sm_lock_errors (sq_metrics s') = sm_lock_errors (sq_metrics s) + (k - tries - 1)"

lemma sqlite_commit_loop_done:
  "tries < 35 \<Longrightarrow> sqlite_commit_loop w tries s = (r, s') \<Longrightarrow>
     \<exists>k. tries < k \<and> k \<le> 35 \<and> list_all (\<lambda>j. is_locked (sw_try w j)) [Suc tries..<k]
       \<and> sqlite_done (sw_try w k) k tries s r s'"
proof (induction w tries s rule: sqlite_commit_loop.induct)
  case (1 w tries s)
  show ?case
  proof (cases "sw_try w (Suc tries)")
    case Sql_Ok
    then have "r = Inr (length (sq_queue s))"
      "s' = (foldl (\<lambda>s p. sqlite_insert p s) s (sq_queue s))
             \<lparr>sq_metrics := metrics_update 0 (length (sq_queue s)) (sq_metrics s), sq_queue := []\<rparr>"
      using "1.prems" by (auto simp: sqlite_commit_loop.simps [of w tries s] commit_with_sqlx_def Let_def sqlite_inserts)
    then show ?thesis
      using "1.prems" Sql_Ok
      by (intro exI [of _ "Suc tries"]) (simp add: sqlite_done_def sqlite_inserts metrics_update_def)
  next
    case (Sql_Failed e)
    then show ?thesis
      using "1.prems"
      by (intro exI [of _ "Suc tries"])
        (auto simp: sqlite_commit_loop.simps [of w tries s] commit_with_sqlx_def sqlite_done_def)
  next
    case (Sql_Locked e)
    let ?s = "s\<lparr>sq_metrics := (sq_metrics s)\<lparr>sm_lock_errors := sm_lock_errors (sq_metrics s) + 1\<rparr>\<rparr>"
    show ?thesis
    proof (cases "Suc tries < 35")
      case True
      have "sqlite_commit_loop w (Suc tries) ?s = (r, s')"
        using "1.prems" Sql_Locked True
        by (simp add: sqlite_commit_loop.simps [of w tries s] commit_with_sqlx_def)
      then obtain k where k: "Suc tries < k" "k \<le> 35" "list_all (\<lambda>j. is_locked (sw_try w j)) [Suc (Suc tries)..<k]"
          "sqlite_done (sw_try w k) k (Suc tries) ?s r s'"
        using "1.IH" [OF refl, of "Inl (Sql_Locked e)" s "Sql_Locked e" e] Sql_Locked True
        by (auto simp: commit_with_sqlx_def)
      have "[Suc tries..<k] = Suc tries # [Suc (Suc tries)..<k]" using k(1) by (simp add: upt_rec)
      moreover have "sqlite_done (sw_try w k) k tries s r s'"
        using k(1,2,4) by (auto simp: sqlite_done_def split: sql_outcome.splits)
      ultimately show ?thesis using k(1,2,3) Sql_Locked by (intro exI [of _ k]) simp
    next
      case False
      then show ?thesis
        using "1.prems" Sql_Locked
        by (intro exI [of _ "Suc tries"])
          (auto simp: sqlite_commit_loop.simps [of w tries s] commit_with_sqlx_def sqlite_done_def)
    qed
  qed
qed


lemma sqlite_done_queue:
  assumes "sqlite_done x k tries s r s'"
  shows "sq_queue s' = (if isl r then sq_queue s else [])"
proof (cases x)
  case Sql_Ok
  then show ?thesis using assms by (simp add: sqlite_done_def)
next
  case (Sql_Locked e)
  then have "r = Inl e" "s' = s\<lparr>sq_metrics := sq_metrics s'\<rparr>"
    using assms by (simp_all add: sqlite_done_def)
  then show ?thesis by (metis isl_def sqlite_sink.select_convs(1) sqlite_sink.surjective sqlite_sink.update_convs(4))
next
  case (Sql_Failed e)
  then have "r = Inl e" "s' = s\<lparr>sq_metrics := sq_metrics s'\<rparr>"
    using assms by (simp_all add: sqlite_done_def)
  then show ?thesis by (metis isl_def sqlite_sink.select_convs(1) sqlite_sink.surjective sqlite_sink.update_convs(4))
qed

lemma sqlite_commit_cases:
  "sqlite_commit w s = (r, s') \<Longrightarrow> sq_queue s' = (if isl r then sq_queue s else [])"
  by (metis sqlite_commit_def sqlite_commit_loop_done [of 0] sqlite_done_queue zero_less_numeral)

lemma sink_push_queued:
  assumes "sink_inv env s" and "sink_push env e s = Some s'"
  shows "sink_inv env s' \<and> kind_of_sink s' = kind_of_sink s
    \<and> sink_queued s' = sink_queued s @ [sink_entry_of env (kind_of_sink s) e]"
proof (cases s)
  case (Sink_EveBox x)
  then show ?thesis
    using assms by (auto simp: sink_push_def sink_submit_def evebox_submit_def Let_def)
next
  case (Sink_Elastic x)
  then show ?thesis
    using assms bulk_pairs_append [of "entry_lines (es_queue x)"]
    by (auto simp: sink_push_def sink_submit_def elastic_submit_def entry_lines_def Let_def split: option.splits)
next
  case (Sink_SQLite x)
  then show ?thesis
    using assms by (auto simp: sink_push_def sink_submit_def sqlite_submit_def split: option.splits sum.splits)
qed

lemma sink_flush_queued:
  assumes "sink_inv env s" and "sink_flush env w s = (ok, s')"
  shows "sink_inv env s' \<and> kind_of_sink s' = kind_of_sink s \<and> sink_queued s' = (if ok then [] else sink_queued s)"
proof (cases s)
  case (Sink_EveBox x)
  then show ?thesis
    using assms evebox_commit_cases [of env w x]
    by (cases "evebox_commit env w x") (auto simp: sink_flush_def sink_commit_def evebox_truncate_def)
next
  case (Sink_Elastic x)
  then show ?thesis
    using assms elastic_commit_cases [of env w x]
    by (cases "elastic_commit env w x") (auto simp: sink_flush_def sink_commit_def entry_lines_def)
next
  case (Sink_SQLite x)
  then show ?thesis
    using assms sqlite_commit_cases [of w x]
    by (cases "sqlite_commit w x") (auto simp: sink_flush_def sink_commit_def)
qed

interpretation sinks: sink_contract "sink_push env" "sink_flush env" sink_queued kind_of_sink
    "sink_entry_of env" "sink_inv env" for env :: "'ts sink_env"
  by unfold_locales (blast dest: sink_push_queued, blast dest: sink_flush_queued)

text \<open>A single submit or commit, in terms of the queue.\<close>

lemma sink_commit_queued:
  assumes "sink_inv env s" and "sink_commit env w s = (r, s')"
  shows "sink_inv env s' \<and> kind_of_sink s' = kind_of_sink s \<and> sink_queued s' = (if isl r then sink_queued s else [])"
  using sink_flush_queued [of env s w "\<not> isl r" s'] assms by (simp add: sink_flush_def)

lemma sink_submit_queued:
  assumes "sink_inv env s" and "sink_submit env e s = Some (Inr c, s')"
  shows "sink_inv env s' \<and> kind_of_sink s' = kind_of_sink s
    \<and> sink_queued s' = sink_queued s @ [sink_entry_of env (kind_of_sink s) e]"
  using sink_push_queued [of env s e s'] assms by (simp add: sink_push_def)

lemma bulk_pairs_empty: "bulk_pairs ls = [] \<longleftrightarrow> length ls < 2"
  by (induction ls rule: bulk_pairs.induct) auto

lemma sink_pending_0: "sink_inv env s \<Longrightarrow> sink_pending s = 0 \<Longrightarrow> sink_queued s = []"
proof (cases s)
  case (Sink_Elastic x)
  assume "sink_pending s = 0"
  then have "length (es_queue x) < 2" using Sink_Elastic by (simp add: sink_pending_def elastic_pending_def)
  then have "length (entry_lines (es_queue x)) < 2"
    unfolding entry_lines_def using length_filter_le le_less_trans by blast
  then show ?thesis using Sink_Elastic by (simp add: bulk_pairs_empty)
qed (simp_all add: sink_pending_def)

section \<open>Properties\<close>


text \<open>C37. A SQLite commit ends after the first try that is not locked out, at most 35: a
  transaction that commits adds exactly the queued events to the table, in order, each with its
  row in the full text index, and empties the queue; otherwise tables and queue are untouched.\<close>

theorem sqlite_commit_exact:
  assumes "sqlite_commit w s = (r, s')"
  shows "\<exists>k. 1 \<le> k \<and> k \<le> 35 \<and> list_all (\<lambda>j. is_locked (sw_try w j)) [1..<k]
      \<and> sqlite_done (sw_try w k) k 0 s r s'"
  using sqlite_commit_loop_done [of 0 w s r s'] assms by (auto simp: sqlite_commit_def Suc_le_eq)

text \<open>The body of a bulk request read line by line, blank lines dropped, is exactly the queued
  action and document lines: the blank lines that failed commits leave do no harm.\<close>

theorem bulk_body_reads_back:
  assumes "\<And>v. se_show env v \<noteq> []" and "\<And>v. CHR 0x0A \<notin> set (se_show env v)"
  shows "filter (\<lambda>l. l \<noteq> []) (split_char (CHR 0x0A) (elastic_body env queue)) =
      map (bulk_line_show env) (entry_lines queue)"
proof -
  have shown: "bulk_line_show env l \<noteq> [] \<longleftrightarrow> l \<noteq> Empty_Line" "CHR 0x0A \<notin> set (bulk_line_show env l)" for l
    using assms by (cases l; simp)+
  have "filter (\<lambda>l. l \<noteq> []) (split_char (CHR 0x0A) (elastic_body env queue)) =
      filter (\<lambda>l. l \<noteq> []) (map (bulk_line_show env) queue)"
    unfolding elastic_body_def by (rule nonblank_lines_body) (simp add: list_all_iff shown)
  also have "\<dots> = map (bulk_line_show env) (entry_lines queue)"
    by (simp add: filter_map entry_lines_def comp_def shown)
  finally show ?thesis .
qed

text \<open>The text indexed for an event is the space separated list of its searchable texts: every
  number and string outside the payload, packet, rule, response body and history, the printable
  payloads as their words.\<close>

theorem extract_values_searchable: "extract_values v = foldl push_text [] (searchable [] v)"
  by (simp add: extract_values_def extract_inner_searchable)


text \<open>A small instance: two events, a commit the server refuses, a third event, a commit.\<close>

definition demo_env :: "nat sink_env" where
  "demo_env = \<lparr>se_parse = (\<lambda>s. if s = [] then None else Some (length s)), se_nanos = int,
     se_yyyymmdd = (\<lambda>_. ''2024.01.01''), se_elastic = (\<lambda>_. ''t''), se_rfc3339 = (\<lambda>_. ''t''),
     se_ulid = (\<lambda>n. ''u''), se_show = (\<lambda>v. ''v'')\<rparr>"

definition demo_sink_world :: "bool \<Rightarrow> sink_world" where
  "demo_sink_world up = \<lparr>sw_post = (\<lambda>body. if up then Inr (200, Inr ''x'') else Inl ''refused''),
     sw_try = (\<lambda>n. if n < 3 then Sql_Locked ''locked'' else if up then Sql_Ok else Sql_Failed ''disk full''),
     sw_parse_json = (\<lambda>s. Inr (JObj [(''errors'', JBool False)]))\<rparr>"

definition demo_event :: "int \<Rightarrow> json" where
  "demo_event n = JObj [(''timestamp'', JStr ''2024''), (''n'', JInt n)]"

definition demo_ops :: "(json, sink_world) sink_op list" where
  "demo_ops = [Submit (demo_event 1), Submit (JObj []), Commit (demo_sink_world False),
     Submit (demo_event 2), Commit (demo_sink_world True), Submit (demo_event 3)]"

definition demo_server :: event_sink where
  "demo_server = Sink_EveBox evebox_new"

lemmas demo_sink_eval = demo_server_def demo_ops_def demo_sink_world_def demo_event_def demo_env_def
  sink_push_def sink_flush_def sink_submit_def sink_commit_def


definition demo_prepared :: prepared_event where
  "demo_prepared = \<lparr>pe_ts = 5, pe_archived = 0, pe_history = JArr [], pe_source_values = ''a b'', pe_event = JNull\<rparr>"

definition demo_sqlite :: sqlite_sink where
  "demo_sqlite = \<lparr>sq_queue = [demo_prepared], sq_rows = [], sq_fts = Some [], sq_metrics = \<lparr>sm_total_duration = 0,
     sm_occurrences = 0, sm_events = 0, sm_min = 0, sm_max = 0, sm_lock_errors = 0\<rparr>\<rparr>"

theorem sqlite_commit_exact_witness:
  "\<exists>s' k. sqlite_commit (demo_sink_world True) demo_sqlite = (Inr 1, s') \<and> sq_rows s' = [demo_prepared]
     \<and> sqlite_done (sw_try (demo_sink_world True) k) k 0 demo_sqlite (Inr 1) s'"
proof -
  obtain r s' where c: "sqlite_commit (demo_sink_world True) demo_sqlite = (r, s')" by fastforce
  then have "r = Inr 1 \<and> sq_rows s' = [demo_prepared]"
    by (auto simp: sqlite_commit_def sqlite_commit_loop.simps [of _ 0] sqlite_commit_loop.simps [of _ "Suc 0"]
        sqlite_commit_loop.simps [of _ "Suc (Suc 0)"] commit_with_sqlx_def demo_sink_world_def demo_sqlite_def
        sqlite_insert_def Let_def)
  then show ?thesis using sqlite_commit_exact [OF c] c by blast
qed

theorem bulk_body_reads_back_witness:
  "filter (\<lambda>l. l \<noteq> []) (split_char (CHR 0x0A)
     (elastic_body demo_env [Create ''i'' ''u'', Document JNull, Empty_Line, Create ''i'' ''u'', Document JNull, Empty_Line]))
     = [''v'', ''v'', ''v'', ''v'']"
proof -
  have "\<And>v. se_show demo_env v \<noteq> []" "\<And>v. CHR 0x0A \<notin> set (se_show demo_env v)"
    by (simp_all add: demo_env_def)
  from bulk_body_reads_back [OF this] show ?thesis by (simp add: entry_lines_def demo_env_def)
qed

end
