(* ===== verification/Eve_Processor.thy ===== *)
theory Eve_Processor
  imports Eve_Reader Event_Sink
begin

text \<open>
  Bookmarks (\<open>src/src/bookmark.rs\<close>) and the ingest loop (\<open>src/src/eve/processor.rs\<close>): reader,
  filters and sink put together. A pass of the loop is the function \<open>turn\<close>; between two passes
  the logs may change in any way. What the outside contributes to a pass, the tries of a commit,
  the outcome of writing the bookmark and of removing files, is the record \<open>turn_env\<close>; the
  rendering and parsing of JSON and of paths are parameters. Sleeping, reporting and counters
  that are only logged are left out. Two history variables record the submitted events and what
  the sink's backend has accepted.
\<close>

section \<open>Bookmarks\<close>

record bookmark =
  bm_path :: string
  bm_offset :: nat
  bm_size :: nat
  bm_inode :: "nat option"

record bookmark_env =
  be_display :: "path \<Rightarrow> string"
  be_path :: "string \<Rightarrow> path"
  be_show :: "json \<Rightarrow> string"
  be_parse :: "string \<Rightarrow> string + json"

definition bookmark_from_metadata :: "bookmark_env \<Rightarrow> file_metadata \<Rightarrow> bookmark" where
  "bookmark_from_metadata be meta = \<lparr>bm_path = be_display be (fm_filename meta),
     bm_offset = fm_lineno meta, bm_size = fm_size meta, bm_inode = fm_inode meta\<rparr>"

definition bookmark_json :: "bookmark \<Rightarrow> json" where
  "bookmark_json b = JObj [(''path'', JStr (bm_path b)), (''offset'', JInt (int (bm_offset b))),
     (''size'', JInt (int (bm_size b))),
     (''sys'', JObj [(''inode'', case bm_inode b of None \<Rightarrow> JNull | Some i \<Rightarrow> JInt (int i))])]"

text \<open>The derived reader: an object, or an array of the fields in order; an absent or null
  \<open>inode\<close> is none.\<close>

definition opt_u64 :: "json option \<Rightarrow> string + nat option" where
  "opt_u64 v =
     (case v of
        None \<Rightarrow> Inr None
      | Some JNull \<Rightarrow> Inr None
      | Some x \<Rightarrow> (case as_u64 x of None \<Rightarrow> Inl ''invalid inode'' | Some i \<Rightarrow> Inr (Some (unat i))))"

definition sys_of_json :: "json \<Rightarrow> string + nat option" where
  "sys_of_json v =
     (case v of
        JObj kvs \<Rightarrow> opt_u64 (map_of kvs ''inode'')
      | JArr [x] \<Rightarrow> opt_u64 (Some x)
      | _ \<Rightarrow> Inl ''invalid sys'')"

definition bookmark_fields :: "json option \<Rightarrow> json option \<Rightarrow> json option \<Rightarrow> json option \<Rightarrow> string + bookmark" where
  "bookmark_fields p off sz sys =
     (case (Option.bind p as_str, Option.bind off as_u64, Option.bind sz as_u64, sys) of
        (Some path, Some offset, Some size_, Some s) \<Rightarrow>
          try_then (sys_of_json s)
            (\<lambda>inode. Inr \<lparr>bm_path = path, bm_offset = unat offset, bm_size = unat size_, bm_inode = inode\<rparr>)
      | _ \<Rightarrow> Inl ''invalid bookmark'')"

definition bookmark_of_json :: "json \<Rightarrow> string + bookmark" where
  "bookmark_of_json v =
     (case v of
        JObj kvs \<Rightarrow> bookmark_fields (map_of kvs ''path'') (map_of kvs ''offset'') (map_of kvs ''size'') (map_of kvs ''sys'')
      | JArr [p, off, sz, sys] \<Rightarrow> bookmark_fields (Some p) (Some off) (Some sz) (Some sys)
      | _ \<Rightarrow> Inl ''invalid type'')"

type_synonym bookmark_files = "path \<Rightarrow> string option"

definition bookmark_from_file :: "bookmark_env \<Rightarrow> bookmark_files \<Rightarrow> path \<Rightarrow> string + bookmark" where
  "bookmark_from_file be files filename =
     (case files filename of
        None \<Rightarrow> Inl ''No such file or directory''
      | Some body \<Rightarrow>
          (if \<not> valid_utf8 body then Inl ''stream did not contain valid UTF-8''
           else try_then (be_parse be body) bookmark_of_json))"

text \<open>Writing truncates the file first: a write that fails leaves what got out.\<close>

datatype write_outcome = Write_Ok | Create_Failed string | Write_Failed nat string

definition bookmark_write ::
    "bookmark_env \<Rightarrow> write_outcome \<Rightarrow> bookmark \<Rightarrow> path \<Rightarrow> bookmark_files \<Rightarrow> (string + unit) \<times> bookmark_files" where
  "bookmark_write be outcome b filename files =
     (let body = be_show be (bookmark_json b) @ [CHR 0x0A]
      in case outcome of
           Create_Failed e \<Rightarrow> (Inl e, files)
         | Write_Failed n e \<Rightarrow> (Inl e, files(filename \<mapsto> take n body))
         | Write_Ok \<Rightarrow> (Inr (), files(filename \<mapsto> body)))"

definition check_inode :: "nat \<Rightarrow> bookmark \<Rightarrow> bool" where
  "check_inode inode b = (case bm_inode b of Some i \<Rightarrow> i = inode | None \<Rightarrow> True)"

definition bookmark_is_valid :: "bookmark_env \<Rightarrow> world \<Rightarrow> bookmark \<Rightarrow> string + unit" where
  "bookmark_is_valid be w b =
     (case wd_names w (be_path be (bm_path b)) of
        None \<Rightarrow> Inl ''No such file or directory''
      | Some inode \<Rightarrow>
          (if \<not> check_inode inode b then Inl ''inode mismatch''
           else if length (wd_data w inode) < bm_size b then Inl ''current file size less than bookmark''
           else Inr ()))"

definition bookmark_filename ::
    "(path \<Rightarrow> string + path) \<Rightarrow> (string \<Rightarrow> string) \<Rightarrow> bookmark_env \<Rightarrow> path \<Rightarrow> path \<Rightarrow> path" where
  "bookmark_filename canonicalize md5_hex be input_filename bookmark_dir =
     (let directory = (case canonicalize bookmark_dir of Inr d \<Rightarrow> d | Inl e \<Rightarrow> bookmark_dir)
      in directory @ [md5_hex (be_display be input_filename) @ ''.bookmark''])"

section \<open>The processor\<close>

definition DEFAULT_BATCH_SIZE :: nat where "DEFAULT_BATCH_SIZE = 100"

record processor =
  pr_reader :: eve_reader
  pr_sink :: event_sink
  pr_filters :: "eve_filter list option"
  pr_bookmark :: "path option"
  pr_end :: bool
  pr_oneshot :: bool
  pr_world :: world
  pr_files :: bookmark_files
  pr_submitted :: "json list"
  pr_stored :: "sink_entry list"

definition processor_new :: "eve_reader \<Rightarrow> event_sink \<Rightarrow> world \<Rightarrow> bookmark_files \<Rightarrow> processor" where
  "processor_new r sink w files = \<lparr>pr_reader = r, pr_sink = sink, pr_filters = None, pr_bookmark = None,
     pr_end = False, pr_oneshot = False, pr_world = w, pr_files = files, pr_submitted = [], pr_stored = []\<rparr>"

definition init_from_bookmark :: "bookmark_env \<Rightarrow> processor \<Rightarrow> bool \<times> processor" where
  "init_from_bookmark be p =
     (case pr_bookmark p of
        None \<Rightarrow> (False, p)
      | Some filename \<Rightarrow>
          (if pr_files p filename = Some [] then (False, p)
           else case bookmark_from_file be (pr_files p) filename of
                  Inl e \<Rightarrow> (False, p)
                | Inr b \<Rightarrow>
                    (case bookmark_is_valid be (pr_world p) b of
                       Inl e \<Rightarrow> (False, p)
                     | Inr _ \<Rightarrow>
                         (case select_bookmark (be_path be (bm_path b)) (pr_reader p) of
                            Inl e \<Rightarrow> (False, p)
                          | Inr r \<Rightarrow>
                              (case goto_lineno (pr_world p) (bm_offset b) r of
                                 (Inl e, r) \<Rightarrow> (False, p\<lparr>pr_reader := r\<rparr>)
                               | (Inr _, r) \<Rightarrow> (True, p\<lparr>pr_reader := r\<rparr>))))))"

definition processor_start :: "bookmark_env \<Rightarrow> processor \<Rightarrow> processor" where
  "processor_start be p =
     (case init_from_bookmark be p of
        (ok, p) \<Rightarrow>
          (if \<not> ok \<and> pr_end p
           then p\<lparr>pr_reader := snd (goto_end (pr_world p) (pr_reader p))\<rparr> else p))"

definition write_bookmark :: "bookmark_env \<Rightarrow> write_outcome \<Rightarrow> processor \<Rightarrow> bool \<times> processor" where
  "write_bookmark be outcome p =
     (case pr_bookmark p of
        None \<Rightarrow> (False, p)
      | Some filename \<Rightarrow>
          (case reader_metadata (pr_world p) (pr_reader p) of
             None \<Rightarrow> (False, p)
           | Some meta \<Rightarrow>
               (case bookmark_write be outcome (bookmark_from_metadata be meta) filename (pr_files p) of
                  (Inl e, files) \<Rightarrow> (False, p\<lparr>pr_files := files\<rparr>)
                | (Inr _, files) \<Rightarrow> (True, p\<lparr>pr_files := files\<rparr>))))"

record turn_env =
  te_now :: string
  te_commits :: "sink_world list"
  te_write :: write_outcome
  te_remove :: "path \<Rightarrow> string option"

definition checkpoint :: "bookmark_env \<Rightarrow> turn_env \<Rightarrow> processor \<Rightarrow> processor" where
  "checkpoint be te p =
     (case write_bookmark be (te_write te) p of
        (False, p) \<Rightarrow> p
      | (True, p) \<Rightarrow>
          (let (w, r) = delete_completed_spool_files (te_remove te) (pr_world p) (pr_reader p)
           in p\<lparr>pr_world := w, pr_reader := r\<rparr>))"

text \<open>A commit is tried until it succeeds; \<open>False\<close>: none of the given tries did.\<close>

fun processor_commit ::
    "'ts sink_env \<Rightarrow> bookmark_env \<Rightarrow> turn_env \<Rightarrow> sink_world list \<Rightarrow> processor \<Rightarrow> bool \<times> processor" where
  "processor_commit env be te [] p = (False, p)"
| "processor_commit env be te (w # ws) p =
     (case sink_commit env w (pr_sink p) of
        (Inr n, sink) \<Rightarrow>
          (True, checkpoint be te (p\<lparr>pr_sink := sink, pr_stored := pr_stored p @ sink_queued (pr_sink p)\<rparr>))
      | (Inl e, sink) \<Rightarrow> processor_commit env be te ws (p\<lparr>pr_sink := sink\<rparr>))"

datatype outcome = Continue | Stop | Panic | Retrying

definition commit_turn ::
    "'ts sink_env \<Rightarrow> bookmark_env \<Rightarrow> turn_env \<Rightarrow> outcome \<Rightarrow> processor \<Rightarrow> outcome \<times> processor" where
  "commit_turn env be te next_outcome p =
     (case processor_commit env be te (te_commits te) p of
        (committed, p) \<Rightarrow> (if committed then next_outcome else Retrying, p))"

definition eof_turn ::
    "'ts sink_env \<Rightarrow> bookmark_env \<Rightarrow> turn_env \<Rightarrow> processor \<Rightarrow> outcome \<times> processor" where
  "eof_turn env be te p =
     (let next_outcome = (if pr_oneshot p then Stop else Continue)
      in if sink_pending (pr_sink p) > 0 then commit_turn env be te next_outcome p
         else
           (let p = (if has_completed_spool_files (pr_reader p) then checkpoint be te p else p);
                p = (if \<not> pr_oneshot p \<and> is_file_changed (pr_world p) (pr_reader p)
                     then p\<lparr>pr_reader := snd (reopen (pr_world p) (pr_reader p))\<rparr> else p)
            in (next_outcome, p)))"

definition filter_event :: "turn_env \<Rightarrow> processor \<Rightarrow> json \<Rightarrow> json option" where
  "filter_event te p event =
     (case pr_filters p of None \<Rightarrow> Some event | Some fs \<Rightarrow> chain_run (te_now te) fs event)"

definition event_turn ::
    "'ts sink_env \<Rightarrow> bookmark_env \<Rightarrow> turn_env \<Rightarrow> json \<Rightarrow> processor \<Rightarrow> outcome \<times> processor" where
  "event_turn env be te event p =
     (case filter_event te p event of
        None \<Rightarrow> (Panic, p)
      | Some event \<Rightarrow>
          (case sink_submit env event (pr_sink p) of
             None \<Rightarrow> (Panic, p)
           | Some (Inl e, sink) \<Rightarrow> (Panic, p)
           | Some (Inr commit, sink) \<Rightarrow>
               (let p = p\<lparr>pr_sink := sink, pr_submitted := pr_submitted p @ [event]\<rparr>
                in if commit \<or> sink_pending sink \<ge> DEFAULT_BATCH_SIZE
                   then commit_turn env be te Continue p else (Continue, p))))"

definition turn ::
    "'ts sink_env \<Rightarrow> bookmark_env \<Rightarrow> (string \<Rightarrow> string + json) \<Rightarrow> turn_env \<Rightarrow> processor \<Rightarrow> outcome \<times> processor" where
  "turn env be parse te p =
     (case next_record parse (pr_world p) (pr_reader p) of
        (Inl e, r) \<Rightarrow> (Continue, p\<lparr>pr_reader := r\<rparr>)
      | (Inr None, r) \<Rightarrow> eof_turn env be te (p\<lparr>pr_reader := r\<rparr>)
      | (Inr (Some event), r) \<Rightarrow> event_turn env be te event (p\<lparr>pr_reader := r\<rparr>))"


section \<open>Lemmas: the invariant\<close>

definition processor_inv :: "'ts sink_env \<Rightarrow> sink_kind \<Rightarrow> processor \<Rightarrow> bool" where
  "processor_inv env kind p \<longleftrightarrow> sink_inv env (pr_sink p) \<and> kind_of_sink (pr_sink p) = kind
     \<and> pr_stored p @ sink_queued (pr_sink p) = map (sink_entry_of env kind) (pr_submitted p)
     \<and> reader_ok (pr_reader p)"

text \<open>What a checkpoint leaves alone, and what it takes to remove a file.\<close>

definition gone :: "processor \<Rightarrow> processor \<Rightarrow> path \<Rightarrow> bool" where
  "gone p p' q \<longleftrightarrow> wd_names (pr_world p) q \<noteq> None \<and> wd_names (pr_world p') q = None"

lemma reader_ok_completed: "reader_ok r \<Longrightarrow> reader_ok (r\<lparr>er_completed := []\<rparr>)"
  by (auto simp: reader_ok_def split: option.splits)

lemma write_bookmark_frame:
  assumes "write_bookmark be out p = (ok, p')"
  shows "p' = p\<lparr>pr_files := pr_files p'\<rparr>"
    and "ok \<Longrightarrow> \<exists>filename meta. pr_bookmark p = Some filename \<and> reader_metadata (pr_world p) (pr_reader p) = Some meta
      \<and> pr_files p' filename = Some (be_show be (bookmark_json (bookmark_from_metadata be meta)) @ [CHR 0x0A])"
  using assms
  by (auto simp: write_bookmark_def bookmark_write_def Let_def
      split: option.splits prod.splits sum.splits write_outcome.splits)

lemma removed_names:
  "wd_names (foldl (\<lambda>w q. case rm q of Some e \<Rightarrow> w | None \<Rightarrow> w\<lparr>wd_names := (wd_names w)(q := None)\<rparr>) w qs) q =
     (if q \<in> set qs \<and> rm q = None then None else wd_names w q)"
  by (induction qs arbitrary: w) (auto split: option.splits)

lemma checkpoint_frame:
  assumes "reader_ok (pr_reader p)"
  shows "pr_sink (checkpoint be te p) = pr_sink p" "pr_stored (checkpoint be te p) = pr_stored p"
    "pr_submitted (checkpoint be te p) = pr_submitted p" "reader_ok (pr_reader (checkpoint be te p))"
    "er_filename (pr_reader (checkpoint be te p)) = er_filename (pr_reader p)"
    "er_spool (pr_reader (checkpoint be te p)) = er_spool (pr_reader p)"
proof -
  obtain ok p1 where w: "write_bookmark be (te_write te) p = (ok, p1)" by fastforce
  note f = write_bookmark_frame(1) [OF w]
  have "checkpoint be te p = (if ok then let (w, r) = delete_completed_spool_files (te_remove te) (pr_world p1) (pr_reader p1)
      in p1\<lparr>pr_world := w, pr_reader := r\<rparr> else p1)"
    using w by (simp add: checkpoint_def split: bool.splits)
  moreover have "pr_reader p1 = pr_reader p" "pr_sink p1 = pr_sink p" "pr_stored p1 = pr_stored p"
    "pr_submitted p1 = pr_submitted p" by (subst f, simp)+
  ultimately show "pr_sink (checkpoint be te p) = pr_sink p" "pr_stored (checkpoint be te p) = pr_stored p"
    "pr_submitted (checkpoint be te p) = pr_submitted p" "reader_ok (pr_reader (checkpoint be te p))"
    "er_filename (pr_reader (checkpoint be te p)) = er_filename (pr_reader p)"
    "er_spool (pr_reader (checkpoint be te p)) = er_spool (pr_reader p)"
    using assms by (auto simp: delete_completed_spool_files_def reader_ok_completed)
qed


text \<open>The bookmark file of a processor holds the bookmark of its own file.\<close>

definition bookmarked :: "bookmark_env \<Rightarrow> processor \<Rightarrow> bool" where
  "bookmarked be p \<longleftrightarrow>
     (\<exists>filename meta. pr_bookmark p = Some filename \<and> fm_filename meta = er_filename (pr_reader p)
        \<and> pr_files p filename = Some (be_show be (bookmark_json (bookmark_from_metadata be meta)) @ [CHR 0x0A]))"

text \<open>A file that may be removed: one of the same spool, older than the one being read.\<close>

definition left_behind :: "processor \<Rightarrow> path \<Rightarrow> bool" where
  "left_behind p q \<longleftrightarrow>
     (\<exists>f sf. spool_parse q = Some f \<and> er_spool (pr_reader p) = Some sf \<and> sf_key f = sf_key sf
        \<and> sf_timestamp f < sf_timestamp sf)"

lemma checkpoint_gone:
  assumes "reader_ok (pr_reader p)" and "gone p (checkpoint be te p) q"
  shows "bookmarked be (checkpoint be te p) \<and> left_behind (checkpoint be te p) q"
proof -
  obtain ok p1 where w: "write_bookmark be (te_write te) p = (ok, p1)" by fastforce
  note f = write_bookmark_frame(1) [OF w]
  have same: "pr_reader p1 = pr_reader p" "pr_world p1 = pr_world p" "pr_bookmark p1 = pr_bookmark p" by (subst f, simp)+
  obtain w' r' where d: "delete_completed_spool_files (te_remove te) (pr_world p1) (pr_reader p1) = (w', r')" by fastforce
  have ok: ok
    using assms(2) w same by (cases ok) (auto simp: checkpoint_def gone_def)
  have c: "checkpoint be te p = p1\<lparr>pr_world := w', pr_reader := r'\<rparr>" using w ok d by (simp add: checkpoint_def)
  have r': "r' = (pr_reader p)\<lparr>er_completed := []\<rparr>" using d same by (simp add: delete_completed_spool_files_def)
  have "q \<in> set (er_completed (pr_reader p))"
    using assms(2) d same removed_names [of "te_remove te" "pr_world p" "er_completed (pr_reader p)" q]
    by (auto simp: gone_def c delete_completed_spool_files_def split: if_splits)
  then have l: "left_behind (checkpoint be te p) q"
    using assms(1) by (auto simp: c r' left_behind_def reader_ok_def split: option.splits)
  from write_bookmark_frame(2) [OF w ok] obtain filename meta where
    "pr_bookmark p = Some filename" "reader_metadata (pr_world p) (pr_reader p) = Some meta"
    "pr_files p1 filename = Some (be_show be (bookmark_json (bookmark_from_metadata be meta)) @ [CHR 0x0A])"
    by blast
  then have "bookmarked be (checkpoint be te p)"
    unfolding bookmarked_def c r' using same(3)
    by (intro exI [of _ filename] exI [of _ meta]) (auto simp: reader_metadata_def split: option.splits)
  with l show ?thesis by blast
qed

lemma processor_commit_spec:
  assumes "sink_inv env (pr_sink p)" and "reader_ok (pr_reader p)"
    and "processor_commit env be te ws p = (ok, p')"
  shows "sink_inv env (pr_sink p') \<and> kind_of_sink (pr_sink p') = kind_of_sink (pr_sink p)
    \<and> pr_submitted p' = pr_submitted p \<and> reader_ok (pr_reader p')
    \<and> pr_stored p' @ sink_queued (pr_sink p') = pr_stored p @ sink_queued (pr_sink p)
    \<and> sink_queued (pr_sink p') = (if ok then [] else sink_queued (pr_sink p))
    \<and> prefix (pr_stored p) (pr_stored p')
    \<and> (\<forall>q. gone p p' q \<longrightarrow> ok \<and> bookmarked be p' \<and> left_behind p' q)"
  using assms
proof (induction ws arbitrary: p)
  case Nil
  then show ?case by (auto simp: gone_def)
next
  case (Cons w ws)
  obtain r sink where c: "sink_commit env w (pr_sink p) = (r, sink)" by fastforce
  note q = sink_commit_queued [OF Cons.prems(1) c]
  show ?case
  proof (cases r)
    case (Inl e)
    let ?p = "p\<lparr>pr_sink := sink\<rparr>"
    have "processor_commit env be te ws ?p = (ok, p')" using Cons.prems(3) c Inl by simp
    from Cons.IH [OF _ _ this] q Inl Cons.prems(2) show ?thesis by (cases ok) (auto simp: gone_def)
  next
    case (Inr n)
    let ?p = "p\<lparr>pr_sink := sink, pr_stored := pr_stored p @ sink_queued (pr_sink p)\<rparr>"
    have ok: "ok" "p' = checkpoint be te ?p" using Cons.prems(3) c Inr by auto
    have r: "reader_ok (pr_reader ?p)" using Cons.prems(2) by simp
    note f = checkpoint_frame [OF r, of be te]
    have "gone p p' x \<longleftrightarrow> gone ?p (checkpoint be te ?p) x" for x by (simp add: gone_def ok)
    then show ?thesis using f q Inr ok checkpoint_gone [OF r, of be te] by simp
  qed
qed

text \<open>One pass: what it keeps, and that files go only when all is delivered.\<close>

definition turn_ok :: "'ts sink_env \<Rightarrow> bookmark_env \<Rightarrow> sink_kind \<Rightarrow> processor \<Rightarrow> processor \<Rightarrow> bool" where
  "turn_ok env be kind p p' \<longleftrightarrow> processor_inv env kind p' \<and> prefix (pr_stored p) (pr_stored p')
     \<and> prefix (pr_submitted p) (pr_submitted p')
     \<and> (\<forall>q. gone p p' q \<longrightarrow> sink_queued (pr_sink p') = [] \<and> bookmarked be p' \<and> left_behind p' q)"

lemma commit_turn_ok:
  assumes "processor_inv env kind p" and "commit_turn env be te x p = (o1, p')"
  shows "turn_ok env be kind p p'"
proof -
  obtain ok where c: "processor_commit env be te (te_commits te) p = (ok, p')"
    using assms(2) by (auto simp: commit_turn_def split: prod.splits)
  show ?thesis
    using processor_commit_spec [OF _ _ c] assms(1) by (cases ok) (auto simp: turn_ok_def processor_inv_def)
qed

lemma reopen_frame: "reader_ok r \<Longrightarrow> reader_ok (snd (reopen w r)) \<and> er_filename (snd (reopen w r)) = er_filename r
    \<and> er_spool (snd (reopen w r)) = er_spool r"
  using reader_ok_same [of r "snd (reopen w r)"]
  by (auto simp: reopen_def reader_open_def same_file_def split: sum.splits)

lemma eof_turn_ok:
  assumes "processor_inv env kind p" and "eof_turn env be te p = (o1, p')"
  shows "turn_ok env be kind p p'"
proof (cases "sink_pending (pr_sink p) > 0")
  case True
  then show ?thesis using assms commit_turn_ok by (fastforce simp: eof_turn_def Let_def)
next
  case False
  then have q: "sink_queued (pr_sink p) = []" using assms(1) sink_pending_0 [of env "pr_sink p"] by (auto simp: processor_inv_def)
  have r: "reader_ok (pr_reader p)" using assms(1) by (simp add: processor_inv_def)
  define p1 where "p1 = (if has_completed_spool_files (pr_reader p) then checkpoint be te p else p)"
  have p1: "turn_ok env be kind p p1"
    using assms(1) checkpoint_frame [OF r, of be te] checkpoint_gone [OF r, of be te] q
    by (auto simp: p1_def turn_ok_def processor_inv_def gone_def)
  have "p' = p1 \<or> p' = p1\<lparr>pr_reader := snd (reopen (pr_world p1) (pr_reader p1))\<rparr>"
    using assms(2) False by (auto simp: eof_turn_def Let_def p1_def split: if_splits)
  then show ?thesis
  proof
    assume "p' = p1\<lparr>pr_reader := snd (reopen (pr_world p1) (pr_reader p1))\<rparr>"
    then show ?thesis
      using p1 reopen_frame [of "pr_reader p1" "pr_world p1"]
      by (auto simp: turn_ok_def processor_inv_def gone_def bookmarked_def left_behind_def)
  qed (use p1 in simp)
qed

lemma event_turn_ok:
  assumes "processor_inv env kind p" and "event_turn env be te event p = (o1, p')"
  shows "turn_ok env be kind p p'"
proof (cases "\<exists>e c s. filter_event te p event = Some e \<and> sink_submit env e (pr_sink p) = Some (Inr c, s)")
  case False
  then have "p' = p" using assms(2) by (auto simp: event_turn_def split: option.splits prod.splits sum.splits)
  then show ?thesis using assms(1) by (auto simp: turn_ok_def gone_def)
next
  case True
  then obtain e c s where e: "filter_event te p event = Some e" and s: "sink_submit env e (pr_sink p) = Some (Inr c, s)"
    by blast
  let ?p = "p\<lparr>pr_sink := s, pr_submitted := pr_submitted p @ [e]\<rparr>"
  have inv: "processor_inv env kind ?p"
    using assms(1) sink_submit_queued [OF _ s] by (simp add: processor_inv_def flip: append_assoc)
  show ?thesis
  proof (cases "c \<or> sink_pending s \<ge> DEFAULT_BATCH_SIZE")
    case True
    then have "commit_turn env be te Continue ?p = (o1, p')"
      using assms(2) e s by (simp add: event_turn_def)
    from commit_turn_ok [OF inv this] show ?thesis
      by (auto simp: turn_ok_def gone_def dest: append_prefixD)
  next
    case False
    then have "p' = ?p" using assms(2) e s by (simp add: event_turn_def)
    then show ?thesis using inv by (auto simp: turn_ok_def gone_def)
  qed
qed

lemma turn_ok_turn:
  assumes "processor_inv env kind p" and "turn env be parse te p = (o1, p')"
  shows "turn_ok env be kind p p'"
proof -
  obtain x r where n: "next_record parse (pr_world p) (pr_reader p) = (x, r)" by fastforce
  let ?p = "p\<lparr>pr_reader := r\<rparr>"
  have r: "reader_ok r" using next_record_ok [OF n] assms(1) by (simp add: processor_inv_def)
  then have inv: "processor_inv env kind ?p" using assms(1) by (simp add: processor_inv_def)
  have "turn_ok env be kind ?p p'"
  proof (cases x)
    case (Inl e)
    then have "p' = ?p" using assms(2) n by (simp add: turn_def)
    then show ?thesis using inv by (auto simp: turn_ok_def gone_def)
  next
    case (Inr v)
    then show ?thesis
      using assms(2) n eof_turn_ok [OF inv] event_turn_ok [OF inv]
      by (cases v) (fastforce simp: turn_def)+
  qed
  then show ?thesis by (simp add: turn_ok_def gone_def)
qed


section \<open>Runs\<close>

text \<open>The process goes on while its passes say so; the world changes between them.\<close>

datatype processor_op = Turn turn_env | World_Changes world

fun processor_step ::
    "'ts sink_env \<Rightarrow> bookmark_env \<Rightarrow> (string \<Rightarrow> string + json) \<Rightarrow>
      outcome \<times> processor \<Rightarrow> processor_op \<Rightarrow> outcome \<times> processor" where
  "processor_step env be parse (x, p) (Turn te) =
     (if x = Continue then turn env be parse te p else (x, p))"
| "processor_step env be parse (x, p) (World_Changes w) = (x, p\<lparr>pr_world := w\<rparr>)"

lemma processor_step_ok:
  assumes "processor_inv env kind p" and "processor_step env be parse (x, p) e = (x', p')"
  shows "processor_inv env kind p' \<and> prefix (pr_stored p) (pr_stored p')"
proof (cases e)
  case (Turn te)
  then show ?thesis
    using turn_ok_turn [OF assms(1), of be parse te] assms
    by (auto simp: turn_ok_def split: if_splits)
next
  case (World_Changes w)
  then show ?thesis using assms by (auto simp: processor_inv_def)
qed

text \<open>The processor as a machine that keeps its invariant and never takes back what is stored.\<close>

interpretation ingest: monotone_machine "processor_step env be parse"
    "\<lambda>xp. processor_inv env kind (snd xp)" "\<lambda>xp. length (pr_stored (snd xp))"
  for env :: "'ts sink_env" and be parse kind
proof
  fix xp :: "outcome \<times> processor" and e assume i: "processor_inv env kind (snd xp)"
  obtain x :: outcome and p where xp: "xp = (x, p)" by (cases xp)
  obtain x' p' where s: "processor_step env be parse (x, p) e = (x', p')" by fastforce
  from processor_step_ok [OF _ s] i xp s
  show "processor_inv env kind (snd (processor_step env be parse xp e))"
    "length (pr_stored (snd xp)) \<le> length (pr_stored (snd (processor_step env be parse xp e)))"
    by (auto intro: prefix_length_le)
qed

section \<open>Lemmas: panics\<close>

definition needs_timestamp :: "event_sink \<Rightarrow> bool" where
  "needs_timestamp s \<longleftrightarrow> kind_of_sink s \<noteq> Kind_EveBox"

lemma event_datetime_object: "event_datetime env e = Some ts \<Longrightarrow> \<exists>kvs. e = JObj kvs"
  by (cases e) (auto simp: event_datetime_def json_index_def split: json.splits)

lemma json_path_JNull [simp]: "json_path JNull ks = JNull"
  by (induction ks) (simp_all add: json_index_def)

lemma json_path_string_set:
  assumes "json_path e ks = JStr s"
  shows "json_set ks x e \<noteq> None"
  using assms
proof (induction ks arbitrary: e)
  case Nil
  then show ?case by simp
next
  case (Cons k ks)
  show ?case
  proof (cases e)
    case (JObj kvs)
    then show ?thesis using Cons.IH [of "json_index e k"] Cons.prems by auto
  qed (use Cons.prems in \<open>auto simp: json_index_def\<close>)
qed

lemma reformat_timestamps_total: "reformat_timestamps env e \<noteq> None"
proof -
  have "reformat_at env ks v \<noteq> None" for ks v
    using json_path_string_set [of v ks] by (auto simp: reformat_at_def split: json.splits)
  then show ?thesis by (simp add: reformat_timestamps_def bind_eq_None_conv)
qed

lemma sink_submit_fails:
  "(\<exists>c s'. sink_submit env e s = Some (Inr c, s')) \<longleftrightarrow> \<not> (needs_timestamp s \<and> event_datetime env e = None)"
proof (cases s)
  case (Sink_EveBox x)
  then show ?thesis by (simp add: sink_submit_def needs_timestamp_def evebox_submit_def Let_def)
next
  case (Sink_Elastic x)
  then show ?thesis
    using event_datetime_object [of env e]
    by (auto simp: sink_submit_def needs_timestamp_def elastic_submit_def Let_def split: option.splits)
next
  case (Sink_SQLite x)
  then show ?thesis
    using reformat_timestamps_total [of env e]
    by (auto simp: sink_submit_def needs_timestamp_def sqlite_submit_def sqlite_prep_def split: option.splits)
qed


section \<open>Lemmas: restarting\<close>

lemma as_u64_nat: "n < 2 ^ 64 \<Longrightarrow> \<exists>x. as_u64 (JInt (int n)) = Some x \<and> unat x = n"
  by (intro exI [of _ "word_of_nat n"]) (simp add: try_from_int_def unsigned_of_nat take_bit_nat_eq_self)

text \<open>The laws of the renderings the bookmark file relies on, for one bookmark: its text is UTF-8
  and parses back, and its path is the file's.\<close>

definition renders_back :: "bookmark_env \<Rightarrow> file_metadata \<Rightarrow> bool" where
  "renders_back be meta \<longleftrightarrow>
     (let v = bookmark_json (bookmark_from_metadata be meta); body = be_show be v @ [CHR 0x0A]
      in be_parse be body = Inr v \<and> valid_utf8 body \<and> be_path be (be_display be (fm_filename meta)) = fm_filename meta)"

definition small_bookmark :: "bookmark \<Rightarrow> bool" where
  "small_bookmark b \<longleftrightarrow> bm_offset b < 2 ^ 64 \<and> bm_size b < 2 ^ 64 \<and> (case bm_inode b of None \<Rightarrow> True | Some i \<Rightarrow> i < 2 ^ 64)"

lemma bookmark_json_parse: "small_bookmark b \<Longrightarrow> bookmark_of_json (bookmark_json b) = Inr b"
proof -
  assume s: "small_bookmark b"
  obtain o1 z where o: "as_u64 (JInt (int (bm_offset b))) = Some o1" "unat o1 = bm_offset b"
    "as_u64 (JInt (int (bm_size b))) = Some z" "unat z = bm_size b"
    using s as_u64_nat unfolding small_bookmark_def by metis
  have "opt_u64 (Some (case bm_inode b of None \<Rightarrow> JNull | Some i \<Rightarrow> JInt (int i))) = Inr (bm_inode b)"
  proof (cases "bm_inode b")
    case (Some i)
    then obtain x where "as_u64 (JInt (int i)) = Some x" "unat x = i"
      using s as_u64_nat [of i] by (auto simp: small_bookmark_def)
    then show ?thesis using Some by (simp add: opt_u64_def)
  qed (simp add: opt_u64_def)
  with o show ?thesis
    by (simp add: bookmark_of_json_def bookmark_json_def bookmark_fields_def sys_of_json_def)
qed

lemma bookmark_file_roundtrip:
  assumes "renders_back be meta" and "small_bookmark b" and "b = bookmark_from_metadata be meta"
    and "bookmark_write be Write_Ok b filename files = (Inr (), files')"
  shows "bookmark_from_file be files' filename = Inr b \<and> files' filename \<noteq> Some []"
  using assms bookmark_json_parse [OF assms(2)]
  by (auto simp: bookmark_write_def renders_back_def bookmark_from_file_def Let_def)

text \<open>A reader of the same input, not yet opened: a plain file, or a file of the same spool.\<close>

definition fresh_reader :: "path \<Rightarrow> eve_reader \<Rightarrow> bool" where
  "fresh_reader filename r \<longleftrightarrow> er_reader r = None \<and>
     (case er_spool r of
        None \<Rightarrow> er_filename r = filename
      | Some cur \<Rightarrow> (\<exists>f. spool_parse filename = Some f \<and> sf_path f = filename \<and> sf_key f = sf_key cur))"

lemma select_bookmark_fresh:
  assumes "fresh_reader filename r"
  shows "\<exists>r'. select_bookmark filename r = Inr r' \<and> er_reader r' = None \<and> er_filename r' = filename"
  using assms by (auto simp: fresh_reader_def select_bookmark_def switch_spool_file_def split: option.splits)


lemma processor_commit_submitted: "pr_submitted (snd (processor_commit env be te ws p)) = pr_submitted p"
proof (induction ws arbitrary: p)
  case (Cons w ws)
  have "pr_submitted (checkpoint be te q) = pr_submitted q" for q
  proof -
    obtain ok q1 where w: "write_bookmark be (te_write te) q = (ok, q1)" by fastforce
    have "pr_submitted q1 = pr_submitted q" by (subst write_bookmark_frame(1) [OF w]) simp
    then show ?thesis using w by (auto simp: checkpoint_def split: bool.splits prod.splits)
  qed
  then show ?case using Cons by (simp split: prod.splits sum.splits)
qed simp

text \<open>A backend that accepts what the sink sends it.\<close>

definition accepts :: "'ts sink_env \<Rightarrow> sink_kind \<Rightarrow> sink_world \<Rightarrow> bool" where
  "accepts env kind w \<longleftrightarrow> (\<forall>s. kind_of_sink s = kind \<longrightarrow> \<not> isl (fst (sink_commit env w s)))"

lemma processor_commit_accepts:
  assumes "sink_inv env (pr_sink p)" and "kind_of_sink (pr_sink p) = kind" and "list_ex (accepts env kind) ws"
  shows "fst (processor_commit env be te ws p)"
  using assms
proof (induction ws arbitrary: p)
  case (Cons w ws)
  obtain r sink where c: "sink_commit env w (pr_sink p) = (r, sink)" by fastforce
  note q = sink_commit_queued [OF Cons.prems(1) c]
  show ?case
  proof (cases r)
    case (Inl e)
    then have "\<not> accepts env kind w" using c Cons.prems(2) by (auto simp: accepts_def)
    then show ?thesis using Cons.IH [of "p\<lparr>pr_sink := sink\<rparr>"] Cons.prems q c Inl by simp
  qed (use c in simp)
qed simp

section \<open>Properties\<close>

text \<open>Every record that is read is submitted, or the ingest task panics: it panics exactly when
  the filter chain does, or when the event has no readable timestamp and the sink is SQLite or
  Elasticsearch; otherwise the filtered event is appended to what has been submitted.\<close>

theorem record_submitted_or_panic:
  assumes "next_record parse (pr_world p) (pr_reader p) = (Inr (Some event), r)"
    and "turn env be parse te p = (x, p')"
  shows "case filter_event te p event of
      None \<Rightarrow> x = Panic
    | Some e \<Rightarrow>
        (if needs_timestamp (pr_sink p) \<and> event_datetime env e = None then x = Panic
         else x \<noteq> Panic \<and> pr_submitted p' = pr_submitted p @ [e])"
proof -
  let ?p = "p\<lparr>pr_reader := r\<rparr>"
  have t: "event_turn env be te event ?p = (x, p')" and f: "filter_event te ?p event = filter_event te p event"
    using assms by (simp_all add: turn_def filter_event_def)
  show ?thesis
  proof (cases "filter_event te p event")
    case None
    then show ?thesis using t f by (simp add: event_turn_def)
  next
    case (Some e)
    show ?thesis
    proof (cases "needs_timestamp (pr_sink p) \<and> event_datetime env e = None")
      case True
      then have "\<nexists>c s'. sink_submit env e (pr_sink p) = Some (Inr c, s')" by (simp add: sink_submit_fails)
      then show ?thesis
        using t f Some True by (auto simp: event_turn_def split: option.splits prod.splits sum.splits)
    next
      case False
      then obtain c s' where s: "sink_submit env e (pr_sink p) = Some (Inr c, s')"
        using sink_submit_fails [of env e "pr_sink p"] by blast
      let ?q = "?p\<lparr>pr_sink := s', pr_submitted := pr_submitted p @ [e]\<rparr>"
      have "(x, p') = (Continue, ?q) \<or> commit_turn env be te Continue ?q = (x, p')"
        using t f Some s by (auto simp: event_turn_def Let_def split: if_splits)
      then show ?thesis
        using Some False processor_commit_submitted [of env be te "te_commits te" ?q]
        by (auto simp: commit_turn_def split: prod.splits if_splits)
    qed
  qed
qed


text \<open>C39. A spool file is deleted only when its events are safe: if a pass removes a file, every event
  submitted so far has been accepted by the backend, the bookmark on disk points into the file
  being read, and the removed file is an older one of the same spool.\<close>

theorem deletes_only_after_delivery:
  assumes "processor_inv env kind p" and "turn env be parse te p = (x, p')" and "gone p p' q"
  shows "pr_stored p' = map (sink_entry_of env kind) (pr_submitted p') \<and> bookmarked be p' \<and> left_behind p' q"
  using turn_ok_turn [OF assms(1,2)] assms(3) by (auto simp: turn_ok_def processor_inv_def)

text \<open>C40. Restarting resumes where the last checkpoint was: a new processor of the same input, with the
  bookmark file that was written and logs that have only grown, opens the bookmarked file (the
  right one of a spool) and stands at the same byte and line.\<close>

theorem restart_resumes:
  assumes "write_bookmark be Write_Ok p = (True, p')"
    and "reader_at (pr_world p) inode (pr_reader p)"
    and "\<And>meta. reader_metadata (pr_world p) (pr_reader p) = Some meta \<Longrightarrow>
      renders_back be meta \<and> small_bookmark (bookmark_from_metadata be meta)"
    and "pr_bookmark q = pr_bookmark p" and "pr_files q = pr_files p'"
    and "fresh_reader (er_filename (pr_reader p)) (pr_reader q)"
    and "open_file (pr_world q) (er_filename (pr_reader p)) = Inr inode" and "text_inode (pr_world q) inode"
    and "prefix (wd_data (pr_world p) inode) (wd_data (pr_world q) inode)"
  shows "\<exists>r'. init_from_bookmark be q = (True, q\<lparr>pr_reader := r'\<rparr>) \<and> er_reader r' = er_reader (pr_reader p)
    \<and> er_lineno r' = er_lineno (pr_reader p) \<and> er_filename r' = er_filename (pr_reader p)"
proof -
  let ?r = "pr_reader p"
  obtain pos where pos: "er_reader ?r = Some (inode, pos)" "at_line (wd_data (pr_world p) inode) (er_lineno ?r) pos"
    using assms(2) by (auto simp: reader_at_def)
  let ?meta = "\<lparr>fm_filename = er_filename ?r, fm_lineno = er_lineno ?r, fm_size = length (wd_data (pr_world p) inode),
      fm_inode = Some inode\<rparr>"
  let ?b = "bookmark_from_metadata be ?meta"
  have meta: "reader_metadata (pr_world p) ?r = Some ?meta" using pos by (simp add: reader_metadata_def)
  from assms(1) meta obtain filename files where bm: "pr_bookmark p = Some filename"
    and w: "bookmark_write be Write_Ok ?b filename (pr_files p) = (Inr (), files)" and p': "pr_files p' = files"
    by (auto simp: write_bookmark_def split: option.splits prod.splits sum.splits)
  note laws = assms(3) [OF meta]
  note stored = bookmark_file_roundtrip [OF conjunct1 [OF laws] conjunct2 [OF laws] refl w]
  have path: "be_path be (bm_path ?b) = er_filename ?r"
    using laws by (simp add: renders_back_def bookmark_from_metadata_def Let_def)
  have names: "wd_names (pr_world q) (er_filename ?r) = Some inode"
    using assms(7) by (auto simp: open_file_def split: option.splits)
  have valid: "bookmark_is_valid be (pr_world q) ?b = Inr ()"
    using names path prefix_length_le [OF assms(9)]
    by (simp add: bookmark_is_valid_def check_inode_def bookmark_from_metadata_def)
  obtain r0 where sel: "select_bookmark (er_filename ?r) (pr_reader q) = Inr r0" "er_reader r0 = None"
    "er_filename r0 = er_filename ?r" using select_bookmark_fresh [OF assms(6)] by blast
  let ?r1 = "r0\<lparr>er_reader := Some (inode, 0), er_lineno := 0, er_offset := 0\<rparr>"
  have opened: "ensure_open (pr_world q) r0 = Inr ?r1"
    using sel assms(7) by (simp add: ensure_open_def reader_open_def)
  have "at_line (wd_data (pr_world q) inode) (0 + er_lineno ?r) pos"
    using prefix_at_line [OF pos(2) assms(9)] by simp
  from goto_loop_at [OF assms(8) this, of ?r1 0 0]
  obtain r' where "goto_lineno (pr_world q) (er_lineno ?r) r0 = (Inr (er_lineno ?r), r')"
    "er_reader r' = Some (inode, pos)" "er_lineno r' = er_lineno ?r" "same_file ?r1 r'"
    using opened by (auto simp: goto_lineno_def)
  moreover have "bm_offset ?b = er_lineno ?r" by (simp add: bookmark_from_metadata_def)
  ultimately show ?thesis
    using assms(4,5) bm p' stored valid path sel pos(1)
    by (intro exI [of _ r']) (simp add: init_from_bookmark_def same_file_def)
qed

text \<open>A commit is not given up and not stuck: as soon as one of the tries meets a backend that accepts,
  the pass ends, with every submitted event stored and the queue empty; while the backend
  refuses, nothing of the queue is lost.\<close>

theorem commit_gets_through:
  assumes "processor_inv env kind p" and "list_ex (accepts env kind) (te_commits te)"
    and "commit_turn env be te Continue p = (x, p')"
  shows "x = Continue \<and> sink_queued (pr_sink p') = []
    \<and> pr_stored p' = map (sink_entry_of env kind) (pr_submitted p)"
proof -
  obtain ok where c: "processor_commit env be te (te_commits te) p = (ok, p')" "x = (if ok then Continue else Retrying)"
    using assms(3) by (auto simp: commit_turn_def split: prod.splits)
  have i: "sink_inv env (pr_sink p)" "kind_of_sink (pr_sink p) = kind" "reader_ok (pr_reader p)"
    "pr_stored p @ sink_queued (pr_sink p) = map (sink_entry_of env kind) (pr_submitted p)"
    using assms(1) by (simp_all add: processor_inv_def)
  have ok using processor_commit_accepts [OF i(1,2) assms(2), of be te] c by simp
  then show ?thesis using processor_commit_spec [OF i(1,3) c(1)] c(2) i(4) by auto
qed


section \<open>Witnesses\<close>

definition demo_be :: bookmark_env where
  "demo_be = \<lparr>be_display = (\<lambda>_. ''eve.json''), be_path = (\<lambda>_. [''eve.json'']), be_show = (\<lambda>_. ''b''),
     be_parse = (\<lambda>_. Inr (JObj [(''path'', JStr ''eve.json''), (''offset'', JInt 2), (''size'', JInt 6),
       (''sys'', JObj [(''inode'', JInt 7)])]))\<rparr>"

definition demo_turn :: turn_env where
  "demo_turn = \<lparr>te_now = ''now'', te_commits = [demo_sink_world False, demo_sink_world True],
     te_write = Write_Ok, te_remove = (\<lambda>_. None)\<rparr>"

definition demo_record :: "string \<Rightarrow> string + json" where
  "demo_record s = Inr (demo_event 1)"

definition demo_processor :: processor where
  "demo_processor = (processor_new demo_reader (Sink_EveBox evebox_new) demo_world (\<lambda>_. None))
     \<lparr>pr_bookmark := Some [''b'']\<rparr>"

lemma demo_processor_inv: "processor_inv demo_env Kind_EveBox demo_processor"
  by (simp add: processor_inv_def demo_processor_def processor_new_def evebox_new_def reader_ok_def
      demo_reader_def reader_new_def)

theorem record_submitted_or_panic_witness:
  "\<exists>x p'. turn demo_env demo_be demo_record demo_turn demo_processor = (x, p') \<and> x \<noteq> Panic
     \<and> pr_submitted p' = [demo_event 1]"
proof -
  obtain r where n: "next_record demo_record demo_world demo_reader = (Inr (Some (demo_event 1)), r)"
    by (simp add: next_record.simps next_record_inner_def ensure_open_def record_loop.simps next_line_def
        demo_world_def demo_reader_def reader_new_def demo_log_def take_line_def string_eval trim_def
        trim_start_def trim_end_def white_space_def demo_record_def)
  obtain x p' where t: "turn demo_env demo_be demo_record demo_turn demo_processor = (x, p')" by fastforce
  have n: "next_record demo_record (pr_world demo_processor) (pr_reader demo_processor) = (Inr (Some (demo_event 1)), r)"
    using n by (simp add: demo_processor_def processor_new_def)
  from record_submitted_or_panic [OF n t] t show ?thesis
    by (simp add: filter_event_def demo_processor_def processor_new_def needs_timestamp_def)
qed


text \<open>A reader at the end of the second file of a spool, one event queued: the commit is refused
  once, then accepted, and the first file goes.\<close>

definition demo_spool_processor :: processor where
  "demo_spool_processor = demo_processor
     \<lparr>pr_world := demo_spool_world,
      pr_reader := (advance (demo_spool ''e.1700000002'' 1700000002) demo_spool_reader)
        \<lparr>er_reader := Some (2, 5), er_offset := 5, er_lineno := 3\<rparr>,
      pr_sink := Sink_EveBox (snd (evebox_submit demo_env (demo_event 1) evebox_new)),
      pr_submitted := [demo_event 1]\<rparr>"


lemma demo_spool_processor_inv: "processor_inv demo_env Kind_EveBox demo_spool_processor"
  by (simp add: processor_inv_def demo_spool_processor_def evebox_new_def reader_ok_def evebox_submit_def
      demo_spool_reader_def reader_from_input_def demo_spool_parse set_delete_processed_def advance_def
      switch_spool_file_def reader_new_def demo_processor_def processor_new_def Let_def)

lemma demo_spool_last:
  "spool_next (read_dir demo_spool_world) (demo_spool ''e.1700000002'' 1700000002) = Inr None"
  by (simp add: spool_next_def newer_file_def demo_spool_world_def read_dir_def demo_spool_parse parent_dir_def)

theorem deletes_only_after_delivery_witness:
  "\<exists>p'. turn demo_env demo_be demo_record demo_turn demo_spool_processor = (Continue, p')
     \<and> gone demo_spool_processor p' [''d'', ''e.1700000001''] \<and> pr_stored p' = [Posted (demo_event 1)]
     \<and> bookmarked demo_be p'"
proof -
  let ?p = demo_spool_processor
  have "next_record_inner demo_record False demo_spool_world (pr_reader ?p) = (Inr None, pr_reader ?p)"
    by (simp add: demo_spool_processor_def next_record_inner_def ensure_open_def record_loop.simps next_line_def
        demo_spool_world_def demo_log_def take_line_def string_eval Let_def advance_def switch_spool_file_def
        demo_spool_reader_def reader_from_input_def demo_spool_parse set_delete_processed_def reader_new_def)
  moreover have "er_spool (pr_reader ?p) = Some (demo_spool ''e.1700000002'' 1700000002)"
    by (simp add: demo_spool_processor_def advance_def switch_spool_file_def Let_def)
  ultimately have n: "next_record demo_record demo_spool_world (pr_reader ?p) = (Inr None, pr_reader ?p)"
    by (subst next_record.simps) (simp add: demo_spool_last)
  have w: "pr_world ?p = demo_spool_world" by (simp add: demo_spool_processor_def)
  obtain p' where t: "turn demo_env demo_be demo_record demo_turn ?p = (Continue, p')"
    and g: "gone ?p p' [''d'', ''e.1700000001'']" and st: "pr_stored p' = [Posted (demo_event 1)]"
  proof (rule that)
    show "turn demo_env demo_be demo_record demo_turn ?p = (Continue, snd (turn demo_env demo_be demo_record demo_turn ?p))"
      "gone ?p (snd (turn demo_env demo_be demo_record demo_turn ?p)) [''d'', ''e.1700000001'']"
      "pr_stored (snd (turn demo_env demo_be demo_record demo_turn ?p)) = [Posted (demo_event 1)]"
      using n
      by (simp_all add: turn_def w, simp_all add: gone_def demo_spool_processor_def demo_processor_def processor_new_def
          eof_turn_def commit_turn_def sink_pending_def evebox_submit_def evebox_new_def Let_def demo_turn_def
          sink_commit_def evebox_commit_def evebox_truncate_def demo_sink_world_def checkpoint_def write_bookmark_def reader_metadata_def
          bookmark_write_def delete_completed_spool_files_def advance_def switch_spool_file_def demo_spool_reader_def
          reader_from_input_def demo_spool_parse set_delete_processed_def reader_new_def demo_spool_world_def)
  qed
  from deletes_only_after_delivery [OF demo_spool_processor_inv t g] t g st show ?thesis by blast
qed

theorem restart_resumes_witness:
  "\<exists>r'. init_from_bookmark demo_be
       ((processor_new (reader_new [''eve.json'']) (Sink_EveBox evebox_new) demo_world
          (\<lambda>q. if q = [''b''] then Some (''b'' @ [CHR 0x0A]) else None))\<lparr>pr_bookmark := Some [''b'']\<rparr>)
     = (True, (processor_new r' (Sink_EveBox evebox_new) demo_world
          (\<lambda>q. if q = [''b''] then Some (''b'' @ [CHR 0x0A]) else None))\<lparr>pr_bookmark := Some [''b'']\<rparr>)
     \<and> er_reader r' = Some (7, 3) \<and> er_lineno r' = 2"
proof -
  let ?p = "demo_processor\<lparr>pr_reader := demo_reader\<lparr>er_reader := Some (7, 3), er_lineno := 2\<rparr>\<rparr>"
  let ?q = "(processor_new (reader_new [''eve.json'']) (Sink_EveBox evebox_new) demo_world
          (\<lambda>q. if q = [''b''] then Some (''b'' @ [CHR 0x0A]) else None))\<lparr>pr_bookmark := Some [''b'']\<rparr>"
  let ?p' = "?p\<lparr>pr_files := (\<lambda>q. if q = [''b''] then Some (''b'' @ [CHR 0x0A]) else None)\<rparr>"
  have w: "pr_world ?p = demo_world" "pr_world ?q = demo_world"
    by (simp_all add: demo_processor_def processor_new_def)
  have 1: "write_bookmark demo_be Write_Ok ?p = (True, ?p')"
    by (simp add: write_bookmark_def demo_processor_def processor_new_def reader_metadata_def bookmark_write_def
        demo_be_def fun_eq_iff)
  have 2: "reader_at (pr_world ?p) 7 (pr_reader ?p)" using demo_at w by simp
  have 3: "renders_back demo_be meta \<and> small_bookmark (bookmark_from_metadata demo_be meta)"
    if "reader_metadata (pr_world ?p) (pr_reader ?p) = Some meta" for meta
    using that w(1)
    by (auto simp: reader_metadata_def demo_reader_def reader_new_def renders_back_def small_bookmark_def
        bookmark_from_metadata_def bookmark_json_def demo_be_def demo_world_def demo_log_def string_eval)
  have "\<exists>r'. init_from_bookmark demo_be ?q = (True, ?q\<lparr>pr_reader := r'\<rparr>) \<and> er_reader r' = er_reader (pr_reader ?p)
      \<and> er_lineno r' = er_lineno (pr_reader ?p) \<and> er_filename r' = er_filename (pr_reader ?p)"
    by (rule restart_resumes [OF 1 2 3])
      (simp_all add: w demo_text open_file_def, simp_all add: demo_processor_def processor_new_def fresh_reader_def
        reader_new_def demo_reader_def demo_world_def)
  then show ?thesis by (auto simp: processor_new_def)
qed

theorem commit_gets_through_witness:
  "\<exists>x p'. commit_turn demo_env demo_be demo_turn Continue demo_processor = (x, p') \<and> x = Continue"
proof -
  have "accepts demo_env Kind_EveBox (demo_sink_world True)"
    by (auto simp: accepts_def demo_sink_world_def sink_commit_def evebox_commit_def split: event_sink.splits)
  then have a: "list_ex (accepts demo_env Kind_EveBox) (te_commits demo_turn)" by (simp add: demo_turn_def)
  obtain x p' where c: "commit_turn demo_env demo_be demo_turn Continue demo_processor = (x, p')" by fastforce
  from commit_gets_through [OF demo_processor_inv a c] c show ?thesis by blast
qed

end
