(* ===== verification/Rules.thy ===== *)
theory Rules
  imports Eve_Reader
begin

text \<open>
  The rule files (\<open>src/src/rules.rs\<close>): reading rules over continuation lines, the map from
  signature id to rule, rescanning the configured patterns and watching the files. The rule
  scanner, the glob patterns and the files are parameters; a file's content is read as one text.
\<close>

section \<open>Reading rules\<close>

text \<open>\<open>read_next_rule\<close>: the result and the input left. A line that is not UTF-8 is an error, and
  consumed; at the end of the input what was read of an unfinished rule is dropped.\<close>

function read_rule_loop :: "string \<Rightarrow> string \<Rightarrow> (string + string option) \<times> string" where
  "read_rule_loop line input =
     (let raw = take_line input; rest = drop (length raw) input
      in if \<not> valid_utf8 raw then (Inl ''stream did not contain valid UTF-8'', rest)
         else if raw = [] then (Inr None, rest)
         else
           (let tmp = trim raw
            in if tmp = [] \<or> last tmp \<noteq> CHR 0x5C then (Inr (Some (line @ tmp)), rest)
               else read_rule_loop (line @ butlast tmp) rest))"
  by pat_completeness auto

termination
  by (relation "measure (\<lambda>(line, input). length input)") (auto simp: take_line_less)

declare read_rule_loop.simps [simp del]

lemma read_rule_loop_shorter:
  "read_rule_loop line input = (Inr (Some r), rest) \<Longrightarrow> length rest < length input"
proof (induction line input rule: read_rule_loop.induct)
  case (1 line input)
  then show ?case
    using take_line_less [of input] "1.IH" [OF refl refl _ _ refl]
    by (auto simp: read_rule_loop.simps [of line input] Let_def split: if_splits intro: less_trans)
qed

definition read_next_rule :: "string \<Rightarrow> (string + string option) \<times> string" where
  "read_next_rule input = read_rule_loop [] input"

section \<open>The rule map\<close>

text \<open>What the scanner reports of a rule, one event after the other.\<close>

datatype scan_event = Scan_Option string "string option" | Scan_Other | Scan_Error string

type_synonym scanner = "string \<Rightarrow> scan_event list"

fun scan_sid :: "scan_event list \<Rightarrow> u64 option" where
  "scan_sid [] = None"
| "scan_sid (Scan_Option name val # es) =
     (case val of
        Some v \<Rightarrow>
          (if name = ''sid''
           then case parse_unsigned MAX64 (trim v) of Some n \<Rightarrow> Some (word_of_nat n) | None \<Rightarrow> scan_sid es
           else scan_sid es)
      | None \<Rightarrow> scan_sid es)"
| "scan_sid (Scan_Other # es) = scan_sid es"
| "scan_sid (Scan_Error e # es) = None"

definition parse_line :: "scanner \<Rightarrow> string \<Rightarrow> (u64 \<times> string) option" where
  "parse_line scan line =
     (let original = (if prefix ''#'' line then drop 1 line else line)
      in map_option (\<lambda>sid. (sid, original)) (scan_sid (scan original)))"

record rule_map =
  rm_paths :: "string list"
  rm_map :: "u64 \<Rightarrow> string option"
  rm_files :: "path \<Rightarrow> int option"

record rules_world =
  rw_glob :: "string \<Rightarrow> string + (string + path) list"
  rw_mtime :: "path \<Rightarrow> string + int"
  rw_modified :: "path \<Rightarrow> nat option"
  rw_open :: "path \<Rightarrow> string option"

definition rules_new :: "rule_map" where
  "rules_new = \<lparr>rm_paths = [], rm_map = Map.empty, rm_files = Map.empty\<rparr>"

function load_lines :: "scanner \<Rightarrow> string \<Rightarrow> (u64 \<Rightarrow> string option) \<Rightarrow> u64 \<Rightarrow> string option" where
  "load_lines scan input m =
     (case read_next_rule input of
        (Inr (Some line), rest) \<Rightarrow>
          load_lines scan rest
            (case parse_line scan line of Some (sid, rule) \<Rightarrow> m(sid \<mapsto> rule) | None \<Rightarrow> m)
      | _ \<Rightarrow> m)"
  by pat_completeness auto

termination
  by (relation "measure (\<lambda>(scan, input, m). length input)")
    (auto simp: read_next_rule_def dest: read_rule_loop_shorter [OF sym])

declare load_lines.simps [simp del]

definition load_path :: "scanner \<Rightarrow> rules_world \<Rightarrow> path \<Rightarrow> rule_map \<Rightarrow> rule_map" where
  "load_path scan w p m =
     (case rw_open w p of
        None \<Rightarrow> m
      | Some body \<Rightarrow> m\<lparr>rm_map := load_lines scan body (rm_map m)\<rparr>)"

definition find_by_sid :: "rule_map \<Rightarrow> u64 \<Rightarrow> string option" where
  "find_by_sid m sid = rm_map m sid"

definition rescan_entry :: "scanner \<Rightarrow> rules_world \<Rightarrow> rule_map \<Rightarrow> string + path \<Rightarrow> rule_map" where
  "rescan_entry scan w m entry =
     (case entry of
        Inl e \<Rightarrow> m
      | Inr p \<Rightarrow>
          (case rw_mtime w p of
             Inl e \<Rightarrow> m
           | Inr mtime \<Rightarrow>
               (let prev = rm_files m p; m = m\<lparr>rm_files := (rm_files m)(p \<mapsto> mtime)\<rparr>
                in case prev of
                     Some t \<Rightarrow> (if mtime > t then load_path scan w p m else m)
                   | None \<Rightarrow> load_path scan w p m)))"

definition rescan_pattern :: "scanner \<Rightarrow> rules_world \<Rightarrow> rule_map \<Rightarrow> string \<Rightarrow> rule_map" where
  "rescan_pattern scan w m pat =
     (case rw_glob w pat of Inl e \<Rightarrow> m | Inr entries \<Rightarrow> foldl (rescan_entry scan w) m entries)"

definition rescan :: "scanner \<Rightarrow> rules_world \<Rightarrow> rule_map \<Rightarrow> rule_map" where
  "rescan scan w m = foldl (rescan_pattern scan w) m (rm_paths m)"

definition load_rules :: "scanner \<Rightarrow> rules_world \<Rightarrow> string list \<Rightarrow> rule_map" where
  "load_rules scan w filenames = rescan scan w (rules_new\<lparr>rm_paths := filenames\<rparr>)"

text \<open>A turn of the watcher, over the known files in the order the map gives them.\<close>

fun watch_scan :: "rules_world \<Rightarrow> path list \<Rightarrow> nat \<Rightarrow> bool \<times> nat" where
  "watch_scan w [] last_modified = (False, last_modified)"
| "watch_scan w (p # ps) last_modified =
     (case rw_modified w p of
        Some modified \<Rightarrow>
          (if modified > last_modified
           then (True, snd (watch_scan w ps modified)) else watch_scan w ps last_modified)
      | None \<Rightarrow> watch_scan w ps last_modified)"

definition watch_turn :: "scanner \<Rightarrow> rules_world \<Rightarrow> path list \<Rightarrow> rule_map \<times> nat \<Rightarrow> rule_map \<times> nat" where
  "watch_turn scan w filenames s =
     (case s of (m, last_modified) \<Rightarrow>
        (case watch_scan w filenames last_modified of
           (reload, last_modified) \<Rightarrow> (if reload then rescan scan w m else m, last_modified)))"


section \<open>Lemmas: continuation lines\<close>

abbreviation backslash :: char where "backslash \<equiv> CHR 0x5C"

text \<open>A part of a rule that stands on a line of its own, continued or last; a rule is its
  continued parts and its last one.\<close>

definition continued_part :: "string \<Rightarrow> bool" where
  "continued_part p \<longleftrightarrow> newline \<notin> set p \<and> valid_utf8 (p @ [backslash, newline])
     \<and> trim (p @ [backslash, newline]) = p @ [backslash]"

definition last_part :: "string \<Rightarrow> bool" where
  "last_part p \<longleftrightarrow> newline \<notin> set p \<and> valid_utf8 (p @ [newline]) \<and> trim (p @ [newline]) = p
     \<and> (p = [] \<or> last p \<noteq> backslash)"

type_synonym rule_lines = "string list \<times> string"

definition rule_lines_ok :: "rule_lines \<Rightarrow> bool" where
  "rule_lines_ok r \<longleftrightarrow> list_all continued_part (fst r) \<and> last_part (snd r)"

definition rule_text :: "rule_lines \<Rightarrow> string" where
  "rule_text r = concat (map (\<lambda>p. p @ [backslash, newline]) (fst r)) @ snd r @ [newline]"

definition rule_of :: "rule_lines \<Rightarrow> string" where
  "rule_of r = concat (fst r) @ snd r"

lemma take_line_append: "newline \<notin> set a \<Longrightarrow> take_line (a @ newline # rest) = a @ [newline]"
  by (simp add: take_line_def takeWhile_append takeWhile_eq_all_conv)

lemma read_rule_loop_text:
  assumes "list_all continued_part ps" and "last_part q"
  shows "read_rule_loop line (rule_text (ps, q) @ rest) = (Inr (Some (line @ rule_of (ps, q))), rest)"
  using assms(1)
proof (induction ps arbitrary: line)
  case Nil
  have "take_line (rule_text ([], q) @ rest) = q @ [newline]"
    using assms(2) take_line_append [of q rest] by (simp add: rule_text_def last_part_def)
  then show ?case
    using assms(2)
    by (simp add: read_rule_loop.simps [of line] rule_text_def rule_of_def last_part_def Let_def)
next
  case (Cons p ps)
  have p: "continued_part p" and ps: "list_all continued_part ps" using Cons.prems by simp_all
  have t: "rule_text (p # ps, q) @ rest = (p @ [backslash]) @ newline # (rule_text (ps, q) @ rest)"
    by (simp add: rule_text_def)
  have "newline \<notin> set (p @ [backslash])" using p by (simp add: continued_part_def)
  then have tl: "take_line (rule_text (p # ps, q) @ rest) = p @ [backslash, newline]"
    unfolding t using take_line_append [of "p @ [backslash]" "rule_text (ps, q) @ rest"] by simp
  have d: "drop (length (p @ [backslash, newline])) (rule_text (p # ps, q) @ rest) = rule_text (ps, q) @ rest"
    unfolding t by simp
  have "read_rule_loop line (rule_text (p # ps, q) @ rest) = read_rule_loop (line @ p) (rule_text (ps, q) @ rest)"
    using p tl d by (simp add: read_rule_loop.simps [of line] continued_part_def Let_def)
  then show ?case using Cons.IH [OF ps, of "line @ p"] by (simp add: rule_of_def)
qed

definition insert_rule :: "scanner \<Rightarrow> (u64 \<Rightarrow> string option) \<Rightarrow> string \<Rightarrow> u64 \<Rightarrow> string option" where
  "insert_rule scan m line = (case parse_line scan line of Some (sid, rule) \<Rightarrow> m(sid \<mapsto> rule) | None \<Rightarrow> m)"

lemma load_lines_end: "load_lines scan [] m = m"
  by (simp add: load_lines.simps read_next_rule_def read_rule_loop.simps take_line_def valid_utf8_def)

lemma load_lines_text:
  "list_all rule_lines_ok rs \<Longrightarrow>
     load_lines scan (concat (map rule_text rs)) m = foldl (insert_rule scan) m (map rule_of rs)"
proof (induction rs arbitrary: m)
  case Nil
  then show ?case by (simp add: load_lines_end)
next
  case (Cons r rs)
  obtain ps q where r: "r = (ps, q)" by fastforce
  have "read_next_rule (concat (map rule_text (r # rs))) = (Inr (Some (rule_of r)), concat (map rule_text rs))"
    using Cons.prems read_rule_loop_text [of ps q "[]"] by (simp add: read_next_rule_def r rule_lines_ok_def)
  then have "load_lines scan (concat (map rule_text (r # rs))) m
      = load_lines scan (concat (map rule_text rs)) (insert_rule scan m (rule_of r))"
    by (subst load_lines.simps) (simp add: insert_rule_def)
  then show ?case using Cons by simp
qed

section \<open>Lemmas: rescanning\<close>

text \<open>A file whose recorded time is the one on disk.\<close>

definition recorded :: "rules_world \<Rightarrow> rule_map \<Rightarrow> path \<Rightarrow> bool" where
  "recorded w m p \<longleftrightarrow> (case rw_mtime w p of Inl e \<Rightarrow> True | Inr t \<Rightarrow> rm_files m p = Some t)"

definition listed :: "rules_world \<Rightarrow> string \<Rightarrow> path list" where
  "listed w pat = (case rw_glob w pat of Inl e \<Rightarrow> [] | Inr es \<Rightarrow> concat (map (\<lambda>e. case e of Inl _ \<Rightarrow> [] | Inr p \<Rightarrow> [p]) es))"

lemma load_path_frame [simp]: "rm_files (load_path scan w p m) = rm_files m" "rm_paths (load_path scan w p m) = rm_paths m"
  by (auto simp: load_path_def split: option.splits)

lemma rescan_entry_frame [simp]: "rm_paths (rescan_entry scan w m e) = rm_paths m"
  by (auto simp: rescan_entry_def Let_def split: sum.splits option.splits)

lemma rescan_entry_files:
  "rm_files (rescan_entry scan w m e) =
     (case e of Inl x \<Rightarrow> rm_files m
      | Inr p \<Rightarrow> (case rw_mtime w p of Inl x \<Rightarrow> rm_files m | Inr t \<Rightarrow> (rm_files m)(p \<mapsto> t)))"
  by (auto simp: rescan_entry_def Let_def split: sum.splits option.splits)

lemma recorded_entry: "recorded w m q \<or> e = Inr q \<Longrightarrow> recorded w (rescan_entry scan w m e) q"
  by (auto simp: recorded_def rescan_entry_files split: sum.splits)

lemma recorded_entries:
  "recorded w m q \<or> Inr q \<in> set es \<Longrightarrow> recorded w (foldl (rescan_entry scan w) m es) q"
  by (induction es arbitrary: m) (auto simp: recorded_entry)

lemma rescan_entries_frame [simp]: "rm_paths (foldl (rescan_entry scan w) m es) = rm_paths m"
  by (induction es arbitrary: m) auto

lemma rescan_pattern_frame [simp]: "rm_paths (rescan_pattern scan w m pat) = rm_paths m"
  by (auto simp: rescan_pattern_def split: sum.splits)

lemma recorded_pattern:
  "recorded w m q \<or> q \<in> set (listed w pat) \<Longrightarrow> recorded w (rescan_pattern scan w m pat) q"
  by (auto simp: rescan_pattern_def listed_def intro!: recorded_entries split: sum.splits)

lemma recorded_patterns:
  "recorded w m q \<or> (\<exists>pat \<in> set pats. q \<in> set (listed w pat)) \<Longrightarrow>
     recorded w (foldl (rescan_pattern scan w) m pats) q"
  by (induction pats arbitrary: m) (auto simp: recorded_pattern)

lemma patterns_frame [simp]: "rm_paths (foldl (rescan_pattern scan w) m pats) = rm_paths m"
  by (induction pats arbitrary: m) auto

lemma rescan_entry_recorded: "recorded w m p \<Longrightarrow> rescan_entry scan w m (Inr p) = m"
  by (cases m) (auto simp: rescan_entry_def recorded_def Let_def fun_upd_idem split: sum.splits)

lemma rescan_entries_recorded:
  "(\<And>q. Inr q \<in> set es \<Longrightarrow> recorded w m q) \<Longrightarrow> foldl (rescan_entry scan w) m es = m"
proof (induction es)
  case (Cons e es)
  have "rescan_entry scan w m e = m"
    using Cons.prems rescan_entry_recorded by (cases e) (auto simp: rescan_entry_def)
  then show ?case using Cons by auto
qed simp

lemma rescan_patterns_recorded:
  "(\<And>pat q. pat \<in> set pats \<Longrightarrow> q \<in> set (listed w pat) \<Longrightarrow> recorded w m q) \<Longrightarrow> foldl (rescan_pattern scan w) m pats = m"
proof (induction pats)
  case (Cons pat pats)
  have "rescan_pattern scan w m pat = m"
    using Cons.prems [of pat]
    by (auto simp: rescan_pattern_def listed_def intro!: rescan_entries_recorded split: sum.splits)
  then show ?case using Cons by auto
qed simp

section \<open>Lemmas: what is in the map\<close>

definition rules_ok :: "scanner \<Rightarrow> rule_map \<Rightarrow> bool" where
  "rules_ok scan m \<longleftrightarrow> (\<forall>sid rule. rm_map m sid = Some rule \<longrightarrow> scan_sid (scan rule) = Some sid)"

lemma load_lines_ok:
  "(\<And>sid rule. m sid = Some rule \<Longrightarrow> scan_sid (scan rule) = Some sid) \<Longrightarrow>
     load_lines scan input m sid = Some rule \<Longrightarrow> scan_sid (scan rule) = Some sid"
proof (induction scan input m rule: load_lines.induct)
  case (1 scan input m)
  show ?case
  proof (cases "\<exists>line rest. read_next_rule input = (Inr (Some line), rest)")
    case True
    then obtain line rest where n: "read_next_rule input = (Inr (Some line), rest)" by blast
    let ?m = "case parse_line scan line of Some (sid, rule) \<Rightarrow> m(sid \<mapsto> rule) | None \<Rightarrow> m"
    have "scan_sid (scan rule) = Some sid" if "?m sid = Some rule" for sid rule
      using that "1.prems"(1) by (auto simp: parse_line_def Let_def split: option.splits if_splits)
    moreover have "load_lines scan rest ?m sid = Some rule"
      using "1.prems"(2) n by (subst (asm) load_lines.simps) simp
    ultimately show ?thesis using "1.IH" [OF n [symmetric] refl refl] by blast
  next
    case False
    then have "load_lines scan input m = m"
      by (subst load_lines.simps) (auto split: prod.splits sum.splits option.splits)
    then show ?thesis using "1.prems" by simp
  qed
qed

lemma rescan_entry_ok: "rules_ok scan m \<Longrightarrow> rules_ok scan (rescan_entry scan w m e)"
proof -
  assume m: "rules_ok scan m"
  have load: "rules_ok scan (load_path scan w p m')" if "rm_map m' = rm_map m" for p m'
  proof (cases "rw_open w p")
    case (Some body)
    have "scan_sid (scan rule) = Some sid" if "load_lines scan body (rm_map m) sid = Some rule" for sid rule
      using m load_lines_ok [OF _ that] by (auto simp: rules_ok_def)
    then show ?thesis using that Some by (simp add: load_path_def rules_ok_def)
  qed (use m that in \<open>simp add: load_path_def rules_ok_def\<close>)
  show ?thesis
    using m load [of "m\<lparr>rm_files := f\<rparr>" for f]
    by (auto simp: rescan_entry_def Let_def rules_ok_def split: sum.splits option.splits)
qed

lemma rescan_ok: "rules_ok scan m \<Longrightarrow> rules_ok scan (rescan scan w m)"
proof -
  have e: "rules_ok scan m \<Longrightarrow> rules_ok scan (foldl (rescan_entry scan w) m es)" for es m
    by (induction es arbitrary: m) (auto simp: rescan_entry_ok)
  have p: "rules_ok scan m \<Longrightarrow> rules_ok scan (rescan_pattern scan w m pat)" for pat m
    using e by (auto simp: rescan_pattern_def split: sum.splits)
  have "rules_ok scan m \<Longrightarrow> rules_ok scan (foldl (rescan_pattern scan w) m pats)" for pats m
    by (induction pats arbitrary: m) (auto simp: p)
  then show "rules_ok scan m \<Longrightarrow> rules_ok scan (rescan scan w m)" by (simp add: rescan_def)
qed

interpretation rules: invariant_machine "\<lambda>m w. rescan scan w m" "rules_ok scan" for scan
  by unfold_locales (rule rescan_ok)


section \<open>Properties\<close>

text \<open>Rules written over continuation lines, broken anywhere, read back as the rules: loading
  the file inserts exactly the joined rules, in order.\<close>

theorem rules_read_back:
  assumes "list_all rule_lines_ok rs" and "rw_open w p = Some (concat (map rule_text rs))"
  shows "rm_map (load_path scan w p m) = foldl (insert_rule scan) (rm_map m) (map rule_of rs)"
  using load_lines_text [OF assms(1)] assms(2) by (simp add: load_path_def)

text \<open>Rescanning is idempotent: on files that have not changed, whatever the patterns list and
  however often, a second scan changes nothing and reloads nothing.\<close>

theorem rescan_idempotent: "rescan scan w (rescan scan w m) = rescan scan w m"
proof -
  let ?m = "foldl (rescan_pattern scan w) m (rm_paths m)"
  have "foldl (rescan_pattern scan w) ?m (rm_paths m) = ?m"
    by (rule rescan_patterns_recorded) (auto intro: recorded_patterns)
  then show ?thesis by (simp add: rescan_def)
qed

text \<open>A lookup by signature id only ever returns a rule with that id: after loading and any
  number of rescans of changing files, the rule found carries the id looked for.\<close>

theorem find_by_sid_sound:
  assumes "find_by_sid (run_steps (\<lambda>m w. rescan scan w m) (load_rules scan w filenames) ws) sid = Some rule"
  shows "scan_sid (scan rule) = Some sid"
proof -
  have "rules_ok scan (load_rules scan w filenames)"
    unfolding load_rules_def by (rule rescan_ok) (simp add: rules_ok_def rules_new_def)
  then have "rules_ok scan (run_steps (\<lambda>m w. rescan scan w m) (load_rules scan w filenames) ws)"
    by (rule rules.run_inv)
  then show ?thesis using assms by (simp add: rules_ok_def find_by_sid_def)
qed

section \<open>Witnesses\<close>

definition demo_scan :: scanner where
  "demo_scan s = (if s = ''ab'' then [Scan_Other, Scan_Option ''sid'' (Some ''7'')] else [Scan_Error ''no rule''])"

definition demo_rules :: "rule_lines list" where
  "demo_rules = [([''a''], ''b''), ([], ''c'')]"

definition demo_rules_world :: rules_world where
  "demo_rules_world = \<lparr>rw_glob = (\<lambda>_. Inr [Inr [''r'']]), rw_mtime = (\<lambda>_. Inr 1), rw_modified = (\<lambda>_. None),
     rw_open = (\<lambda>_. Some (concat (map rule_text demo_rules)))\<rparr>"

lemma demo_rules_ok: "list_all rule_lines_ok demo_rules"
  by (simp add: demo_rules_def rule_lines_ok_def continued_part_def last_part_def string_eval trim_def
      trim_start_def trim_end_def white_space_def)

lemma demo_insert: "foldl (insert_rule demo_scan) Map.empty (map rule_of demo_rules) = [7 \<mapsto> ''ab'']"
  by (simp add: demo_rules_def rule_of_def insert_rule_def parse_line_def demo_scan_def string_eval MAX64_def
      trim_def trim_start_def trim_end_def white_space_def)

theorem rules_read_back_witness:
  "rm_map (load_path demo_scan demo_rules_world [''r''] rules_new) = [7 \<mapsto> ''ab'']"
  using rules_read_back [OF demo_rules_ok, of demo_rules_world "[''r'']" demo_scan rules_new] demo_insert
  by (simp add: demo_rules_world_def rules_new_def)

theorem find_by_sid_sound_witness:
  "find_by_sid (run_steps (\<lambda>m w. rescan demo_scan w m) (load_rules demo_scan demo_rules_world [''*'']) []) 7 = Some ''ab''
     \<and> scan_sid (demo_scan ''ab'') = Some 7"
proof -
  have f: "find_by_sid (run_steps (\<lambda>m w. rescan demo_scan w m) (load_rules demo_scan demo_rules_world [''*'']) []) 7 = Some ''ab''"
    using load_lines_text [OF demo_rules_ok, of demo_scan Map.empty] demo_insert
    by (simp add: find_by_sid_def load_rules_def rescan_def rescan_pattern_def rescan_entry_def rules_new_def
        demo_rules_world_def load_path_def Let_def)
  from find_by_sid_sound [OF f] f show ?thesis by blast
qed

end
