(* ===== verification/Agent_Protocol.thy ===== *)
theory Agent_Protocol
  imports Pcap_Request Json
begin

text \<open>
  The agent control channel's messages (\<open>src/src/agent/protocol.rs\<close>): their types, the
  conversions to and from the request types of the extraction, and their JSON form as the derived
  serializers write and read it. A message is an object with a \<open>type\<close> member; the form as an
  array that serde would also read is left out. Reading an IP address is a parameter.
\<close>

section \<open>Types\<close>

definition CAPABILITY_PCAP :: string where "CAPABILITY_PCAP = ''pcap''"
definition CONTROL_MESSAGE_MAX_BYTES :: nat where "CONTROL_MESSAGE_MAX_BYTES = 256 * 1024"

definition agent_pcap_upload_path :: "string \<Rightarrow> string" where
  "agent_pcap_upload_path job = ''/api/agent/pcap/'' @ job"

record agent_handshake =
  hs_name :: string
  hs_hostname :: string
  hs_version :: string
  hs_capabilities :: "string list"

record wire_endpoint =
  we_ip :: ip_addr
  we_port :: "u16 option"

datatype wire_filter = Wire_Flow u8 wire_endpoint wire_endpoint | Wire_Expression string | Wire_All

record wire_limits =
  wl_max_bytes :: u64
  wl_scan_timeout_ms :: u64

record wire_stats =
  ws_packets :: u64
  ws_bytes :: u64
  ws_files_scanned :: u32
  ws_files_vanished :: u32
  ws_truncated :: bool

definition wire_stats_default :: wire_stats where
  "wire_stats_default = \<lparr>ws_packets = 0, ws_bytes = 0, ws_files_scanned = 0, ws_files_vanished = 0, ws_truncated = False\<rparr>"

datatype result_code = Code_Complete | Code_NoCandidateFiles | Code_NoMatch | Code_Cancelled | Code_Error

datatype upload_status = Upload_None | Upload_Complete | Upload_Failed

record pcap_result =
  res_code :: result_code
  res_upload :: upload_status
  res_message :: "string option"
  res_stats :: "wire_stats option"

definition result_error :: "string \<Rightarrow> pcap_result" where
  "result_error message = \<lparr>res_code = Code_Error, res_upload = Upload_None, res_message = Some message, res_stats = None\<rparr>"

definition result_cancelled :: "upload_status \<Rightarrow> wire_stats option \<Rightarrow> pcap_result" where
  "result_cancelled upload stats = \<lparr>res_code = Code_Cancelled, res_upload = upload, res_message = None, res_stats = stats\<rparr>"

datatype server_message =
    Hello string "string list"
  | Start_Pcap string string wire_filter u64 u64 wire_limits
  | Cancel_Pcap string string
  | Unknown_Server

datatype agent_message =
    Pcap_Result string string pcap_result
  | Unknown_Agent

section \<open>Conversions\<close>

definition wire_of_selector :: "flow_selector \<Rightarrow> wire_filter" where
  "wire_of_selector s = Wire_Flow (fs_proto s) \<lparr>we_ip = fst (fs_a s), we_port = snd (fs_a s)\<rparr>
     \<lparr>we_ip = fst (fs_b s), we_port = snd (fs_b s)\<rparr>"

fun wire_of_filter :: "pcap_filter \<Rightarrow> wire_filter" where
  "wire_of_filter (Flow s) = wire_of_selector s"
| "wire_of_filter (Expression e) = Wire_Expression e"

definition wire_of_filter_option :: "pcap_filter option \<Rightarrow> wire_filter" where
  "wire_of_filter_option f = (case f of Some f \<Rightarrow> wire_of_filter f | None \<Rightarrow> Wire_All)"

fun into_pcap_filter :: "wire_filter \<Rightarrow> pcap_filter option" where
  "into_pcap_filter (Wire_Flow proto a b) =
     Some (Flow \<lparr>fs_proto = proto, fs_a = (we_ip a, we_port a), fs_b = (we_ip b, we_port b)\<rparr>)"
| "into_pcap_filter (Wire_Expression e) = Some (Expression e)"
| "into_pcap_filter Wire_All = None"

text \<open>Durations are in nanoseconds.\<close>

definition limits_of_wire :: "wire_limits \<Rightarrow> fetch_limits" where
  "limits_of_wire l = limits_default\<lparr>fl_max_bytes := wl_max_bytes l,
     fl_deadline := Some (unat (wl_scan_timeout_ms l) * 10 ^ 6)\<rparr>"

definition wire_of_limits :: "fetch_limits \<Rightarrow> string + wire_limits" where
  "wire_of_limits l =
     (case fl_deadline l of
        None \<Rightarrow> Inl ''scan timeout is required''
      | Some d \<Rightarrow>
          (case try_from_int (int (d div 10 ^ 6)) of
             None \<Rightarrow> Inl ''scan timeout does not fit in u64 milliseconds''
           | Some ms \<Rightarrow> Inr \<lparr>wl_max_bytes = fl_max_bytes l, wl_scan_timeout_ms = ms\<rparr>))"

definition wire_of_stats :: "fetch_stats \<Rightarrow> wire_stats" where
  "wire_of_stats s = \<lparr>ws_packets = fs_packets s, ws_bytes = fs_bytes s, ws_files_scanned = fs_files_scanned s,
     ws_files_vanished = fs_files_vanished s, ws_truncated = fs_truncated s\<rparr>"

definition stats_of_wire :: "wire_stats \<Rightarrow> fetch_stats" where
  "stats_of_wire s = \<lparr>fs_packets = ws_packets s, fs_bytes = ws_bytes s, fs_files_scanned = ws_files_scanned s,
     fs_files_vanished = ws_files_vanished s, fs_truncated = ws_truncated s, fs_linktype = None\<rparr>"

section \<open>Writing\<close>

definition json_word :: "'a::len word \<Rightarrow> json" where
  "json_word w = JInt (uint w)"

definition json_opt :: "string \<Rightarrow> ('a \<Rightarrow> json) \<Rightarrow> 'a option \<Rightarrow> (string \<times> json) list" where
  "json_opt k f v = (case v of None \<Rightarrow> [] | Some x \<Rightarrow> [(k, f x)])"

definition endpoint_json :: "wire_endpoint \<Rightarrow> json" where
  "endpoint_json e = JObj ((''ip'', JStr (show_ip (we_ip e))) # json_opt ''port'' json_word (we_port e))"

fun filter_json :: "wire_filter \<Rightarrow> json" where
  "filter_json (Wire_Flow proto a b) = JObj [(''type'', JStr ''flow''), (''proto'', json_word proto),
     (''a'', endpoint_json a), (''b'', endpoint_json b)]"
| "filter_json (Wire_Expression e) = JObj [(''type'', JStr ''expression''), (''expression'', JStr e)]"
| "filter_json Wire_All = JObj [(''type'', JStr ''all'')]"

definition limits_json :: "wire_limits \<Rightarrow> json" where
  "limits_json l = JObj [(''max_bytes'', json_word (wl_max_bytes l)), (''scan_timeout_ms'', json_word (wl_scan_timeout_ms l))]"

definition stats_json :: "wire_stats \<Rightarrow> json" where
  "stats_json s = JObj [(''packets'', json_word (ws_packets s)), (''bytes'', json_word (ws_bytes s)),
     (''files_scanned'', json_word (ws_files_scanned s)), (''files_vanished'', json_word (ws_files_vanished s)),
     (''truncated'', JBool (ws_truncated s))]"

fun code_name :: "result_code \<Rightarrow> string" where
  "code_name Code_Complete = ''complete''"
| "code_name Code_NoCandidateFiles = ''no-candidate-files''"
| "code_name Code_NoMatch = ''no-match''"
| "code_name Code_Cancelled = ''cancelled''"
| "code_name Code_Error = ''error''"

fun upload_name :: "upload_status \<Rightarrow> string" where
  "upload_name Upload_None = ''none''"
| "upload_name Upload_Complete = ''complete''"
| "upload_name Upload_Failed = ''failed''"

definition result_members :: "pcap_result \<Rightarrow> (string \<times> json) list" where
  "result_members r = [(''code'', JStr (code_name (res_code r))), (''upload'', JStr (upload_name (res_upload r)))]
     @ json_opt ''message'' JStr (res_message r) @ json_opt ''stats'' stats_json (res_stats r)"

fun server_message_json :: "server_message \<Rightarrow> json" where
  "server_message_json (Hello version capabilities) = JObj [(''type'', JStr ''hello''),
     (''server_version'', JStr version), (''capabilities'', JArr (map JStr capabilities))]"
| "server_message_json (Start_Pcap job token f start_us end_us limits) = JObj [(''type'', JStr ''pcap-request''),
     (''id'', JStr job), (''token'', JStr token), (''filter'', filter_json f), (''start_us'', json_word start_us),
     (''end_us'', json_word end_us), (''limits'', limits_json limits)]"
| "server_message_json (Cancel_Pcap job token) = JObj [(''type'', JStr ''cancel''), (''id'', JStr job), (''token'', JStr token)]"
| "server_message_json Unknown_Server = JObj [(''type'', JStr ''unknown'')]"

fun agent_message_json :: "agent_message \<Rightarrow> json" where
  "agent_message_json (Pcap_Result job token r) =
     JObj ([(''type'', JStr ''pcap-result''), (''id'', JStr job), (''token'', JStr token)] @ result_members r)"
| "agent_message_json Unknown_Agent = JObj [(''type'', JStr ''unknown'')]"

section \<open>Reading\<close>

text \<open>A required member, an optional one (absent or null is none), a list of strings.\<close>

definition need :: "(json \<Rightarrow> 'a option) \<Rightarrow> json \<Rightarrow> string \<Rightarrow> 'a option" where
  "need f v k = Option.bind (json_get v k) f"

definition maybe_member :: "(json \<Rightarrow> 'a option) \<Rightarrow> json \<Rightarrow> string \<Rightarrow> 'a option option" where
  "maybe_member f v k =
     (case json_get v k of None \<Rightarrow> Some None | Some JNull \<Rightarrow> Some None | Some x \<Rightarrow> map_option Some (f x))"

definition with_default :: "'a \<Rightarrow> (json \<Rightarrow> 'a option) \<Rightarrow> json \<Rightarrow> string \<Rightarrow> 'a option" where
  "with_default d f v k = (case json_get v k of None \<Rightarrow> Some d | Some x \<Rightarrow> f x)"

fun as_word :: "json \<Rightarrow> 'a::len word option" where
  "as_word (JInt i) = try_from_int i"
| "as_word _ = None"

fun as_bool :: "json \<Rightarrow> bool option" where
  "as_bool (JBool b) = Some b"
| "as_bool _ = None"

definition as_strings :: "json \<Rightarrow> string list option" where
  "as_strings v = Option.bind (as_array v) (\<lambda>xs. those (map as_str xs))"

definition as_ip :: "(string \<Rightarrow> ip_addr option) \<Rightarrow> json \<Rightarrow> ip_addr option" where
  "as_ip parse_ip v = Option.bind (as_str v) parse_ip"

definition read_endpoint :: "(string \<Rightarrow> ip_addr option) \<Rightarrow> json \<Rightarrow> wire_endpoint option" where
  "read_endpoint parse_ip v =
     Option.bind (need (as_ip parse_ip) v ''ip'') (\<lambda>ip.
     Option.bind (maybe_member as_word v ''port'') (\<lambda>port. Some \<lparr>we_ip = ip, we_port = port\<rparr>))"

definition read_filter :: "(string \<Rightarrow> ip_addr option) \<Rightarrow> json \<Rightarrow> wire_filter option" where
  "read_filter parse_ip v =
     Option.bind (need as_str v ''type'') (\<lambda>t.
       if t = ''flow'' then
         Option.bind (need as_word v ''proto'') (\<lambda>proto.
         Option.bind (need (read_endpoint parse_ip) v ''a'') (\<lambda>a.
         Option.bind (need (read_endpoint parse_ip) v ''b'') (\<lambda>b. Some (Wire_Flow proto a b))))
       else if t = ''expression'' then map_option Wire_Expression (need as_str v ''expression'')
       else if t = ''all'' then Some Wire_All
       else None)"

definition read_limits :: "json \<Rightarrow> wire_limits option" where
  "read_limits v =
     Option.bind (need as_word v ''max_bytes'') (\<lambda>m.
     Option.bind (need as_word v ''scan_timeout_ms'') (\<lambda>t. Some \<lparr>wl_max_bytes = m, wl_scan_timeout_ms = t\<rparr>))"

definition read_stats :: "json \<Rightarrow> wire_stats option" where
  "read_stats v =
     Option.bind (need as_word v ''packets'') (\<lambda>p.
     Option.bind (need as_word v ''bytes'') (\<lambda>b.
     Option.bind (need as_word v ''files_scanned'') (\<lambda>s.
     Option.bind (need as_word v ''files_vanished'') (\<lambda>x.
     Option.bind (with_default False as_bool v ''truncated'') (\<lambda>t.
       Some \<lparr>ws_packets = p, ws_bytes = b, ws_files_scanned = s, ws_files_vanished = x, ws_truncated = t\<rparr>)))))"

definition read_code :: "json \<Rightarrow> result_code option" where
  "read_code v = Option.bind (as_str v) (\<lambda>s.
     find (\<lambda>c. code_name c = s) [Code_Complete, Code_NoCandidateFiles, Code_NoMatch, Code_Cancelled, Code_Error])"

definition read_upload :: "json \<Rightarrow> upload_status option" where
  "read_upload v = Option.bind (as_str v) (\<lambda>s.
     find (\<lambda>c. upload_name c = s) [Upload_None, Upload_Complete, Upload_Failed])"

definition read_result :: "json \<Rightarrow> pcap_result option" where
  "read_result v =
     Option.bind (need read_code v ''code'') (\<lambda>c.
     Option.bind (need read_upload v ''upload'') (\<lambda>u.
     Option.bind (maybe_member as_str v ''message'') (\<lambda>m.
     Option.bind (maybe_member read_stats v ''stats'') (\<lambda>s.
       Some \<lparr>res_code = c, res_upload = u, res_message = m, res_stats = s\<rparr>))))"

definition read_server_message :: "(string \<Rightarrow> ip_addr option) \<Rightarrow> json \<Rightarrow> server_message option" where
  "read_server_message parse_ip v =
     Option.bind (need as_str v ''type'') (\<lambda>t.
       if t = ''hello'' then
         Option.bind (need as_str v ''server_version'') (\<lambda>version.
         Option.bind (with_default [] as_strings v ''capabilities'') (\<lambda>caps. Some (Hello version caps)))
       else if t = ''pcap-request'' then
         Option.bind (need as_str v ''id'') (\<lambda>job.
         Option.bind (need as_str v ''token'') (\<lambda>token.
         Option.bind (need (read_filter parse_ip) v ''filter'') (\<lambda>f.
         Option.bind (need as_word v ''start_us'') (\<lambda>s.
         Option.bind (need as_word v ''end_us'') (\<lambda>e.
         Option.bind (need read_limits v ''limits'') (\<lambda>l. Some (Start_Pcap job token f s e l)))))))
       else if t = ''cancel'' then
         Option.bind (need as_str v ''id'') (\<lambda>job. map_option (Cancel_Pcap job) (need as_str v ''token''))
       else Some Unknown_Server)"

definition read_agent_message :: "json \<Rightarrow> agent_message option" where
  "read_agent_message v =
     Option.bind (need as_str v ''type'') (\<lambda>t.
       if t = ''pcap-result'' then
         Option.bind (need as_str v ''id'') (\<lambda>job.
         Option.bind (need as_str v ''token'') (\<lambda>token. map_option (Pcap_Result job token) (read_result v)))
       else Some Unknown_Agent)"


section \<open>Lemmas: reading what was written\<close>

lemma as_word_json [simp]: "as_word (json_word w) = Some w"
  by (simp add: json_word_def)

lemma as_strings_map [simp]: "as_strings (JArr (map JStr ss)) = Some ss"
proof -
  have "those (map as_str (map JStr ss)) = Some ss" by (induction ss) auto
  then show ?thesis by (simp add: as_strings_def)
qed

lemma maybe_member_Some: "json_get v k = Some x \<Longrightarrow> x \<noteq> JNull \<Longrightarrow> maybe_member f v k = map_option Some (f x)"
  by (cases x) (simp_all add: maybe_member_def)

lemma maybe_member_None: "json_get v k = None \<Longrightarrow> maybe_member f v k = Some None"
  by (simp add: maybe_member_def)

lemmas reading = need_def maybe_member_Some maybe_member_None with_default_def json_opt_def

lemma read_stats_json [simp]: "read_stats (stats_json s) = Some s"
  by (simp add: read_stats_def stats_json_def reading)

lemma read_limits_json [simp]: "read_limits (limits_json l) = Some l"
  by (simp add: read_limits_def limits_json_def reading)

lemma read_code_name [simp]: "read_code (JStr (code_name c)) = Some c"
  by (cases c) (simp_all add: read_code_def)

lemma read_upload_name [simp]: "read_upload (JStr (upload_name u)) = Some u"
  by (cases u) (simp_all add: read_upload_def)

lemma not_null [simp]: "stats_json s \<noteq> JNull" "json_word w \<noteq> JNull"
  by (simp_all add: stats_json_def json_word_def)

lemma read_result_members:
  "map_of pre ''code'' = None \<Longrightarrow> map_of pre ''upload'' = None \<Longrightarrow> map_of pre ''message'' = None \<Longrightarrow>
     map_of pre ''stats'' = None \<Longrightarrow> read_result (JObj (pre @ result_members r)) = Some r"
  by (cases "res_message r"; cases "res_stats r")
    (simp_all add: read_result_def result_members_def reading map_add_def)

definition endpoint_reads :: "(string \<Rightarrow> ip_addr option) \<Rightarrow> wire_endpoint \<Rightarrow> bool" where
  "endpoint_reads parse_ip e \<longleftrightarrow> parse_ip (show_ip (we_ip e)) = Some (we_ip e)"

lemma read_endpoint_json: "endpoint_reads parse_ip e \<Longrightarrow> read_endpoint parse_ip (endpoint_json e) = Some e"
  by (cases "we_port e")
    (simp_all add: read_endpoint_def endpoint_json_def reading as_ip_def endpoint_reads_def)

fun filter_reads :: "(string \<Rightarrow> ip_addr option) \<Rightarrow> wire_filter \<Rightarrow> bool" where
  "filter_reads parse_ip (Wire_Flow proto a b) \<longleftrightarrow> endpoint_reads parse_ip a \<and> endpoint_reads parse_ip b"
| "filter_reads parse_ip _ \<longleftrightarrow> True"

lemma read_filter_json: "filter_reads parse_ip f \<Longrightarrow> read_filter parse_ip (filter_json f) = Some f"
  by (cases f) (simp_all add: read_filter_def reading read_endpoint_json)

fun message_reads :: "(string \<Rightarrow> ip_addr option) \<Rightarrow> server_message \<Rightarrow> bool" where
  "message_reads parse_ip (Start_Pcap job token f s e l) \<longleftrightarrow> filter_reads parse_ip f"
| "message_reads parse_ip _ \<longleftrightarrow> True"

lemma filter_roundtrip: "into_pcap_filter (wire_of_filter_option f) = f"
proof (cases f)
  case (Some g)
  then show ?thesis by (cases g) (simp_all add: wire_of_filter_option_def wire_of_selector_def)
qed (simp add: wire_of_filter_option_def)

section \<open>Properties\<close>

text \<open>What one peer sends the other understands: a server message and an agent message, written
  and read back, are the same message, and a request's filter reaches the extraction unchanged.\<close>

theorem control_messages_roundtrip:
  assumes "message_reads parse_ip m"
  shows "read_server_message parse_ip (server_message_json m) = Some m
    \<and> read_agent_message (agent_message_json a) = Some a
    \<and> into_pcap_filter (wire_of_filter_option f) = f"
proof -
  have "read_server_message parse_ip (server_message_json m) = Some m"
    using assms by (cases m) (simp_all add: read_server_message_def reading read_filter_json)
  moreover have "read_agent_message (agent_message_json a) = Some a"
  proof (cases a)
    case (Pcap_Result job token r)
    have "read_result (JObj ([(''type'', JStr ''pcap-result''), (''id'', JStr job), (''token'', JStr token)] @ result_members r)) = Some r"
      by (rule read_result_members) simp_all
    then show ?thesis using Pcap_Result by (simp add: read_agent_message_def reading)
  qed (simp add: read_agent_message_def reading)
  ultimately show ?thesis using filter_roundtrip by blast
qed

theorem control_messages_roundtrip_witness:
  "let m = Start_Pcap ''1'' ''t'' (Wire_Flow 6 \<lparr>we_ip = IpV4 10 0 0 1, we_port = Some 80\<rparr> \<lparr>we_ip = IpV4 10 0 0 2, we_port = None\<rparr>)
         5 9 \<lparr>wl_max_bytes = 100, wl_scan_timeout_ms = 30\<rparr>;
       parse_ip = (\<lambda>s. if s = show_ip (IpV4 10 0 0 1) then Some (IpV4 10 0 0 1) else Some (IpV4 10 0 0 2))
   in read_server_message parse_ip (server_message_json m) = Some m"
proof -
  let ?m = "Start_Pcap ''1'' ''t'' (Wire_Flow 6 \<lparr>we_ip = IpV4 10 0 0 1, we_port = Some 80\<rparr> \<lparr>we_ip = IpV4 10 0 0 2, we_port = None\<rparr>)
         5 9 \<lparr>wl_max_bytes = 100, wl_scan_timeout_ms = 30\<rparr>"
  let ?p = "\<lambda>s. if s = show_ip (IpV4 10 0 0 1) then Some (IpV4 10 0 0 1) else Some (IpV4 10 0 0 2)"
  have "show_ip (IpV4 10 0 0 2) \<noteq> show_ip (IpV4 10 0 0 1)" by (simp add: show_v4_def string_eval)
  then have "message_reads ?p ?m" by (simp add: endpoint_reads_def)
  from control_messages_roundtrip [OF this] show ?thesis by (simp only: Let_def)
qed

end
