(* ===== verification/Pcap_Tasks.thy ===== *)
theory Pcap_Tasks
  imports Agent_Protocol
begin

text \<open>
  Remote capture jobs on the server (\<open>src/src/server/pcap/tasks.rs\<close>) and the receiving end of an
  upload (\<open>receive_upload\<close> of \<open>src/src/server/api/agent.rs\<close>). A job is a shared object: the map of
  the registry, the browser's receivers and the upload hold it independently, so jobs live in a
  store and the map names them by number. Each lock is held for one operation, which is why an
  operation is one step. What is sent into a channel is kept as history.
\<close>

section \<open>Jobs\<close>

datatype upload_state = Pending | Streaming | Uploaded u64 | Broken string u64

record task =
  tk_token :: string
  tk_agent :: string
  tk_generation :: u64
  tk_max_bytes :: u64
  tk_body_tx :: bool
  tk_upload :: upload_state
  tk_result_tx :: bool
  tk_uploading :: bool
  tk_upload_allowed :: bool
  tk_body_rx :: bool
  tk_upload_rx :: bool
  tk_result_rx :: bool
  tk_body :: "u8 list list"
  tk_result :: "pcap_result option"

definition task_new :: "string \<Rightarrow> string \<Rightarrow> u64 \<Rightarrow> u64 \<Rightarrow> task" where
  "task_new token agent generation max_bytes = \<lparr>tk_token = token, tk_agent = agent, tk_generation = generation,
     tk_max_bytes = max_bytes, tk_body_tx = True, tk_upload = Pending, tk_result_tx = True, tk_uploading = False,
     tk_upload_allowed = True, tk_body_rx = True, tk_upload_rx = True, tk_result_rx = True, tk_body = [],
     tk_result = None\<rparr>"

text \<open>\<open>watch::Sender::send\<close> sets the value only while there is a receiver; \<open>oneshot::Sender::send\<close>
  consumes the sender either way.\<close>

definition publish :: "upload_state \<Rightarrow> task \<Rightarrow> task" where
  "publish s t = (if tk_upload_rx t then t\<lparr>tk_upload := s\<rparr> else t)"

definition send_result :: "pcap_result \<Rightarrow> task \<Rightarrow> task" where
  "send_result r t =
     (if \<not> tk_result_tx t then t
      else t\<lparr>tk_result_tx := False, tk_result := (if tk_result_rx t then Some r else tk_result t)\<rparr>)"

definition token_matches :: "string \<Rightarrow> string \<Rightarrow> bool" where
  "token_matches expected presented =
     (if length expected \<noteq> length presented then False
      else foldl (\<lambda>difference (a, b). or difference (xor (of_char a) (of_char b))) (0 :: u8) (zip expected presented) = 0)"

record tasks =
  ts_map :: "(string \<times> nat) list"
  ts_store :: "task list"

definition tasks_new :: tasks where
  "tasks_new = \<lparr>ts_map = [], ts_store = []\<rparr>"

definition at_task :: "nat \<Rightarrow> (task \<Rightarrow> task) \<Rightarrow> tasks \<Rightarrow> tasks" where
  "at_task i f ts = ts\<lparr>ts_store := (ts_store ts)[i := f (ts_store ts ! i)]\<rparr>"

text \<open>The handles of a new job are named by its number; \<open>None\<close> is a duplicate id.\<close>

definition task_register :: "string \<Rightarrow> string \<Rightarrow> string \<Rightarrow> u64 \<Rightarrow> u64 \<Rightarrow> tasks \<Rightarrow> nat option \<times> tasks" where
  "task_register job token agent generation max_bytes ts =
     (if map_of (ts_map ts) job \<noteq> None then (None, ts)
      else (Some (length (ts_store ts)),
            ts\<lparr>ts_map := (job, length (ts_store ts)) # ts_map ts,
               ts_store := ts_store ts @ [task_new token agent generation max_bytes]\<rparr>))"

definition task_remove :: "string \<Rightarrow> string \<Rightarrow> tasks \<Rightarrow> tasks" where
  "task_remove job token ts =
     (case map_of (ts_map ts) job of
        None \<Rightarrow> ts
      | Some i \<Rightarrow> (if token_matches (tk_token (ts_store ts ! i)) token
                  then ts\<lparr>ts_map := filter (\<lambda>(k, i). k \<noteq> job) (ts_map ts)\<rparr> else ts))"

section \<open>The upload\<close>

record upload_sink =
  us_task :: nat
  us_max_bytes :: u64
  us_bytes :: u64

definition begin_upload :: "string \<Rightarrow> string \<Rightarrow> tasks \<Rightarrow> upload_sink option \<times> tasks" where
  "begin_upload job token ts =
     (case map_of (ts_map ts) job of
        None \<Rightarrow> (None, ts)
      | Some i \<Rightarrow>
          (let t = ts_store ts ! i
           in if \<not> token_matches (tk_token t) token then (None, ts)
              else if \<not> tk_upload_allowed t then (None, ts)
              else if \<not> tk_body_tx t then (None, ts)
              else (Some \<lparr>us_task = i, us_max_bytes = tk_max_bytes t, us_bytes = 0\<rparr>,
                    at_task i (\<lambda>t. publish Streaming (t\<lparr>tk_body_tx := False, tk_uploading := True\<rparr>)) ts)))"

datatype send_error = Receiver_Closed | Too_Large

definition sink_send ::
    "u8 list \<Rightarrow> upload_sink \<Rightarrow> tasks \<Rightarrow> (send_error + upload_sink) \<times> tasks" where
  "sink_send chunk s ts =
     (let len = (case try_from_int (int (length chunk)) of Some n \<Rightarrow> n | None \<Rightarrow> - 1)
      in case checked_add (us_bytes s) len of
           None \<Rightarrow> (Inl Too_Large, ts)
         | Some n \<Rightarrow>
             (if n > us_max_bytes s then (Inl Too_Large, ts)
              else if \<not> tk_body_rx (ts_store ts ! us_task s) then (Inl Receiver_Closed, ts)
              else (Inr (s\<lparr>us_bytes := n\<rparr>), at_task (us_task s) (\<lambda>t. t\<lparr>tk_body := tk_body t @ [chunk]\<rparr>) ts)))"

definition upload_complete :: "upload_sink \<Rightarrow> tasks \<Rightarrow> tasks" where
  "upload_complete s ts = at_task (us_task s) (publish (Uploaded (us_bytes s))) ts"

definition upload_fail :: "string \<Rightarrow> upload_sink \<Rightarrow> tasks \<Rightarrow> tasks" where
  "upload_fail reason s ts = at_task (us_task s) (publish (Broken reason (us_bytes s))) ts"

definition upload_drop :: "upload_sink \<Rightarrow> tasks \<Rightarrow> tasks" where
  "upload_drop s ts = upload_fail ''agent-upload-ended'' s ts"

section \<open>Results\<close>

record connection_id =
  ci_name :: string
  ci_generation :: u64

definition owned_by :: "connection_id \<Rightarrow> task \<Rightarrow> bool" where
  "owned_by c t \<longleftrightarrow> tk_agent t = ci_name c \<and> tk_generation t = ci_generation c"

definition promises_upload :: "pcap_result \<Rightarrow> bool" where
  "promises_upload r \<longleftrightarrow> res_code r = Code_Complete \<and> res_upload r = Upload_Complete"

definition deliver_result :: "connection_id \<Rightarrow> string \<Rightarrow> string \<Rightarrow> pcap_result \<Rightarrow> tasks \<Rightarrow> tasks" where
  "deliver_result c job token r ts =
     (case map_of (ts_map ts) job of
        None \<Rightarrow> ts
      | Some i \<Rightarrow>
          (if \<not> owned_by c (ts_store ts ! i) \<or> \<not> token_matches (tk_token (ts_store ts ! i)) token then ts
           else at_task i
             (\<lambda>t. send_result r (if promises_upload r then t else t\<lparr>tk_upload_allowed := False\<rparr>)) ts))"

definition disconnect_result :: pcap_result where
  "disconnect_result = \<lparr>res_code = Code_Error, res_upload = Upload_Failed,
     res_message = Some ''agent disconnected'', res_stats = None\<rparr>"

definition fail_task :: "task \<Rightarrow> task" where
  "fail_task t = send_result disconnect_result (t\<lparr>tk_upload_allowed := False\<rparr>)"

text \<open>The jobs in the map are visited in its order; they are distinct, so the order does not matter.\<close>

definition fail_pending :: "connection_id \<Rightarrow> tasks \<Rightarrow> tasks" where
  "fail_pending c ts = ts\<lparr>ts_store := map (\<lambda>i. let t = ts_store ts ! i in
     if i \<in> snd ` set (ts_map ts) \<and> owned_by c t then fail_task t else t) [0..<length (ts_store ts)]\<rparr>"

definition task_message :: "connection_id \<Rightarrow> agent_message \<Rightarrow> tasks \<Rightarrow> tasks" where
  "task_message c m ts =
     (case m of Pcap_Result job token r \<Rightarrow> deliver_result c job token r ts | Unknown_Agent \<Rightarrow> ts)"

section \<open>The meaning of a result\<close>

datatype remote_outcome =
    Wait
  | Remote_Complete wire_stats
  | Remote_NoCandidateFiles
  | Remote_NoMatch
  | Remote_Cancelled "string option"
  | Remote_Error string
  | Protocol string

definition or_message :: "string option \<Rightarrow> string \<Rightarrow> string" where
  "or_message m d = (case m of Some s \<Rightarrow> s | None \<Rightarrow> d)"

fun upload_broken :: "upload_state \<Rightarrow> bool" where
  "upload_broken (Broken r n) = True"
| "upload_broken _ = False"

definition disagree :: "u64 \<Rightarrow> u64 \<Rightarrow> u64 \<Rightarrow> string" where
  "disagree streamed uploaded reported = ''byte counts disagree: streamed='' @ show_word streamed
     @ '' uploaded='' @ show_word uploaded @ '' reported='' @ show_word reported"

definition classify_result :: "pcap_result \<Rightarrow> upload_state \<Rightarrow> bool \<Rightarrow> u64 \<Rightarrow> remote_outcome" where
  "classify_result r upload body_open streamed =
     (case res_code r of
        Code_Complete \<Rightarrow>
          (if res_upload r = Upload_Failed \<or> upload_broken upload
           then Remote_Error (or_message (res_message r) ''pcap upload failed'')
           else case res_stats r of
             None \<Rightarrow> Protocol ''complete result omitted extraction statistics''
           | Some stats \<Rightarrow>
               (if res_upload r = Upload_None then
                  (if upload \<noteq> Pending \<or> streamed \<noteq> 0 then Protocol ''complete result did not confirm its upload''
                   else if ws_bytes stats \<noteq> 0 \<or> \<not> ws_truncated stats
                   then Protocol ''complete result without an upload was not an empty truncation''
                   else Remote_Complete stats)
                else
                  (case upload of
                     Uploaded uploaded \<Rightarrow>
                       (if body_open then Wait
                        else if uploaded \<noteq> streamed \<or> ws_bytes stats \<noteq> streamed
                        then Protocol (disagree streamed uploaded (ws_bytes stats))
                        else Remote_Complete stats)
                   | _ \<Rightarrow> Wait)))
      | Code_Cancelled \<Rightarrow>
          (if res_upload r = Upload_None \<and> upload \<noteq> Pending
           then Protocol ''terminal result denies the observed upload'' else Remote_Cancelled (res_message r))
      | Code_Error \<Rightarrow>
          (if res_upload r = Upload_None \<and> upload \<noteq> Pending
           then Protocol ''terminal result denies the observed upload''
           else Remote_Error (or_message (res_message r) ''pcap agent extraction failed''))
      | code \<Rightarrow>
          (if res_upload r \<noteq> Upload_None \<or> upload \<noteq> Pending \<or> streamed \<noteq> 0
           then Protocol ''empty result arrived after an upload had started''
           else if code = Code_NoCandidateFiles then Remote_NoCandidateFiles else Remote_NoMatch))"


section \<open>Receiving an upload\<close>

text \<open>One round of \<open>receive_upload\<close>: the time at its start, what came of waiting for the body until
  the deadline, and what came of the forwarding: it returned at some time, or timed out.\<close>

datatype body_item = Body_Timeout | Body_End | Body_Error string | Body_Chunk "u8 list"

record upload_round =
  ur_now :: nat
  ur_next :: body_item
  ur_sent :: "nat option"

datatype upload_failure = AgentError | AgentStalled | ClientClosed | ClientStalled | TooLarge

fun failure_reason :: "upload_failure \<Rightarrow> string" where
  "failure_reason AgentError = ''agent-error''"
| "failure_reason AgentStalled = ''agent-stalled''"
| "failure_reason ClientClosed = ''client-closed''"
| "failure_reason ClientStalled = ''client-stalled''"
| "failure_reason TooLarge = ''too-large''"

fun failure_status :: "upload_failure \<Rightarrow> nat" where
  "failure_status AgentError = 400"
| "failure_status AgentStalled = 408"
| "failure_status ClientStalled = 408"
| "failure_status ClientClosed = 410"
| "failure_status TooLarge = 413"

text \<open>\<open>None\<close>: the upload is still going on after the given rounds.\<close>

fun receive_upload ::
    "nat \<Rightarrow> nat \<Rightarrow> upload_round list \<Rightarrow> upload_sink \<Rightarrow> tasks \<Rightarrow> (upload_failure + unit) option \<times> tasks" where
  "receive_upload stall deadline [] s ts = (None, ts)"
| "receive_upload stall deadline (r # rs) s ts =
     (if ur_now r \<ge> deadline
      then (Some (Inl AgentStalled), upload_fail (failure_reason AgentStalled) s ts)
      else case ur_next r of
        Body_Timeout \<Rightarrow> (Some (Inl AgentStalled), upload_fail (failure_reason AgentStalled) s ts)
      | Body_End \<Rightarrow> (Some (Inr ()), upload_complete s ts)
      | Body_Error e \<Rightarrow> (Some (Inl AgentError), upload_fail (failure_reason AgentError) s ts)
      | Body_Chunk chunk \<Rightarrow>
          (if chunk = [] then receive_upload stall deadline rs s ts
           else case sink_send chunk s ts of
             (Inl Too_Large, ts) \<Rightarrow> (Some (Inl TooLarge), upload_fail (failure_reason TooLarge) s ts)
           | (Inl Receiver_Closed, ts) \<Rightarrow> (Some (Inl ClientClosed), upload_fail (failure_reason ClientClosed) s ts)
           | (Inr s', ts') \<Rightarrow>
               (case ur_sent r of
                  None \<Rightarrow> (Some (Inl ClientStalled), upload_fail (failure_reason ClientStalled) s ts)
                | Some now \<Rightarrow> receive_upload stall (now + stall) rs s' ts')))"

section \<open>The jobs as a machine\<close>

text \<open>The registry with the live uploads, of which a job has at most one; the browser may drop any
  of its receivers at any time. No chunk is longer than the largest \<open>usize\<close>.\<close>

record job_machine =
  jm_tasks :: tasks
  jm_sinks :: "nat \<Rightarrow> upload_sink option"

datatype job_op =
    Register_Job string string string u64 u64
  | Remove_Job string string
  | Begin_Upload string string
  | Send_Chunk nat "u8 list"
  | End_Upload nat
  | Fail_Upload nat string
  | Drop_Upload nat
  | Agent_Says connection_id agent_message
  | Agent_Gone connection_id
  | Close_Receivers nat bool bool bool

definition close_receivers :: "bool \<Rightarrow> bool \<Rightarrow> bool \<Rightarrow> task \<Rightarrow> task" where
  "close_receivers b u r t = t\<lparr>tk_body_rx := tk_body_rx t \<and> \<not> b, tk_upload_rx := tk_upload_rx t \<and> \<not> u,
     tk_result_rx := tk_result_rx t \<and> \<not> r\<rparr>"

definition end_sink :: "nat \<Rightarrow> (upload_sink \<Rightarrow> tasks \<Rightarrow> tasks) \<Rightarrow> job_machine \<Rightarrow> job_machine" where
  "end_sink i f m =
     (case jm_sinks m i of
        None \<Rightarrow> m
      | Some s \<Rightarrow> m\<lparr>jm_tasks := f s (jm_tasks m), jm_sinks := (jm_sinks m)(i := None)\<rparr>)"

fun job_step :: "job_machine \<Rightarrow> job_op \<Rightarrow> job_machine" where
  "job_step m (Register_Job job token agent generation max_bytes) =
     m\<lparr>jm_tasks := snd (task_register job token agent generation max_bytes (jm_tasks m))\<rparr>"
| "job_step m (Remove_Job job token) = m\<lparr>jm_tasks := task_remove job token (jm_tasks m)\<rparr>"
| "job_step m (Begin_Upload job token) =
     (case begin_upload job token (jm_tasks m) of
        (None, ts) \<Rightarrow> m\<lparr>jm_tasks := ts\<rparr>
      | (Some s, ts) \<Rightarrow> m\<lparr>jm_tasks := ts, jm_sinks := (jm_sinks m)(us_task s \<mapsto> s)\<rparr>)"
| "job_step m (Send_Chunk i chunk) =
     (case jm_sinks m i of
        None \<Rightarrow> m
      | Some s \<Rightarrow>
          if 2 ^ 64 \<le> length chunk then m else
          (case sink_send chunk s (jm_tasks m) of
             (Inl e, ts) \<Rightarrow> m\<lparr>jm_tasks := ts\<rparr>
           | (Inr s, ts) \<Rightarrow> m\<lparr>jm_tasks := ts, jm_sinks := (jm_sinks m)(i \<mapsto> s)\<rparr>))"
| "job_step m (End_Upload i) = end_sink i upload_complete m"
| "job_step m (Fail_Upload i reason) = end_sink i (upload_fail reason) m"
| "job_step m (Drop_Upload i) = end_sink i upload_drop m"
| "job_step m (Agent_Says c msg) = m\<lparr>jm_tasks := task_message c msg (jm_tasks m)\<rparr>"
| "job_step m (Agent_Gone c) = m\<lparr>jm_tasks := fail_pending c (jm_tasks m)\<rparr>"
| "job_step m (Close_Receivers i b u r) =
     (if i < length (ts_store (jm_tasks m)) then m\<lparr>jm_tasks := at_task i (close_receivers b u r) (jm_tasks m)\<rparr> else m)"

definition jobs_new :: job_machine where
  "jobs_new = \<lparr>jm_tasks = tasks_new, jm_sinks = (\<lambda>_. None)\<rparr>"

section \<open>Lemmas: tokens\<close>

lemma of_char_u8_eq: "(of_char a :: u8) = of_char b \<longleftrightarrow> a = b"
proof
  assume e: "(of_char a :: u8) = of_char b"
  have n: "unat (of_char c :: u8) = (of_char c :: nat)" for c
  proof -
    have "(of_char c :: u8) = word_of_nat (of_char c)" by (simp add: of_nat_of_char)
    moreover have "(of_char c :: nat) < 2 ^ LENGTH(8)" using nat_of_char_less_256 [of c] by simp
    ultimately show ?thesis by (simp add: unsigned_of_nat take_bit_nat_eq_self)
  qed
  from arg_cong [OF e, of unat] show "a = b" by (simp add: n)
qed simp

lemma or_zero_iff: "or a b = (0 :: u8) \<longleftrightarrow> a = 0 \<and> b = 0"
  by (auto simp: bit_eq_iff bit_or_iff)

lemma xor_zero_iff: "xor a b = (0 :: u8) \<longleftrightarrow> a = b"
  by (auto simp: bit_eq_iff bit_xor_iff)

lemma difference_zero:
  "foldl (\<lambda>d (a, b). or d (xor (of_char a) (of_char b))) d zs = (0 :: u8) \<longleftrightarrow>
     d = 0 \<and> list_all (\<lambda>(a, b). a = b) zs"
proof (induction zs arbitrary: d)
  case (Cons z zs)
  obtain a b where z: "z = (a, b)" by fastforce
  show ?case using Cons.IH [of "or d (xor (of_char a) (of_char b))"]
    by (simp only: z foldl_Cons prod.case or_zero_iff xor_zero_iff of_char_u8_eq list.pred_inject) blast
qed simp

lemma token_matches_eq [simp]: "token_matches a b \<longleftrightarrow> a = b"
proof -
  have "list_all (\<lambda>(a, b). a = b) (zip a b) \<longleftrightarrow> a = b" if "length a = length b"
    using that by (induction a b rule: list_induct2) auto
  then show ?thesis by (auto simp: token_matches_def difference_zero)
qed


section \<open>Lemmas: the invariant of a job\<close>

definition body_bytes :: "task \<Rightarrow> nat" where
  "body_bytes t = length (concat (tk_body t))"

text \<open>The bookkeeping of a job agrees with what went into its body: the upload in progress counts
  it, a published count is its length, and it is within the job's limit.\<close>

definition job_ok :: "nat \<Rightarrow> upload_sink option \<Rightarrow> task \<Rightarrow> bool" where
  "job_ok i sink t \<longleftrightarrow>
     body_bytes t \<le> unat (tk_max_bytes t)
     \<and> (case sink of None \<Rightarrow> True | Some s \<Rightarrow> us_task s = i \<and> us_max_bytes s = tk_max_bytes t
          \<and> unat (us_bytes s) = body_bytes t \<and> \<not> tk_body_tx t
          \<and> (\<forall>n. tk_upload t \<noteq> Uploaded n) \<and> (\<forall>e n. tk_upload t \<noteq> Broken e n))
     \<and> (tk_body_tx t \<longrightarrow> tk_upload t = Pending \<and> tk_body t = [])
     \<and> (\<forall>n. tk_upload t = Uploaded n \<longrightarrow> unat n = body_bytes t)
     \<and> (\<forall>e n. tk_upload t = Broken e n \<longrightarrow> unat n = body_bytes t)
     \<and> tk_uploading t = (\<not> tk_body_tx t)
     \<and> (tk_result t \<noteq> None \<longrightarrow> \<not> tk_result_tx t)"

definition jobs_ok :: "job_machine \<Rightarrow> bool" where
  "jobs_ok m \<longleftrightarrow>
     (\<forall>i < length (ts_store (jm_tasks m)). job_ok i (jm_sinks m i) (ts_store (jm_tasks m) ! i))
     \<and> (\<forall>i. length (ts_store (jm_tasks m)) \<le> i \<longrightarrow> jm_sinks m i = None)
     \<and> (\<forall>(k, i) \<in> set (ts_map (jm_tasks m)). i < length (ts_store (jm_tasks m)))"

lemma at_task_simps [simp]:
  "ts_map (at_task i f ts) = ts_map ts" "length (ts_store (at_task i f ts)) = length (ts_store ts)"
  by (simp_all add: at_task_def)

lemma at_task_nth:
  "j < length (ts_store ts) \<Longrightarrow>
     ts_store (at_task i f ts) ! j = (if j = i then f (ts_store ts ! i) else ts_store ts ! j)"
  by (simp add: at_task_def nth_list_update)

lemma jobs_ok_at:
  assumes "jobs_ok m" and "i < length (ts_store (jm_tasks m))" and "job_ok i sink (f (ts_store (jm_tasks m) ! i))"
  shows "jobs_ok (m\<lparr>jm_tasks := at_task i f (jm_tasks m), jm_sinks := (jm_sinks m)(i := sink)\<rparr>)"
  using assms by (auto simp: jobs_ok_def at_task_nth)

lemma jobs_ok_at_same:
  assumes "jobs_ok m" and "i < length (ts_store (jm_tasks m))"
    and "job_ok i (jm_sinks m i) (ts_store (jm_tasks m) ! i) \<Longrightarrow> job_ok i (jm_sinks m i) (f (ts_store (jm_tasks m) ! i))"
  shows "jobs_ok (m\<lparr>jm_tasks := at_task i f (jm_tasks m)\<rparr>)"
  using assms unfolding jobs_ok_def by (simp add: at_task_nth)

lemma jobs_ok_job: "jobs_ok m \<Longrightarrow> i < length (ts_store (jm_tasks m)) \<Longrightarrow> job_ok i (jm_sinks m i) (ts_store (jm_tasks m) ! i)"
  by (simp add: jobs_ok_def)

lemma jobs_ok_map: "jobs_ok m \<Longrightarrow> map_of (ts_map (jm_tasks m)) k = Some i \<Longrightarrow> i < length (ts_store (jm_tasks m))"
  by (auto simp: jobs_ok_def dest: map_of_SomeD)

lemma jobs_ok_sink: "jobs_ok m \<Longrightarrow> jm_sinks m i = Some s \<Longrightarrow> i < length (ts_store (jm_tasks m)) \<and> us_task s = i"
proof -
  assume m: "jobs_ok m" and s: "jm_sinks m i = Some s"
  then have i: "i < length (ts_store (jm_tasks m))" by (force simp: jobs_ok_def not_le)
  then show ?thesis using jobs_ok_job [OF m i] s by (simp add: job_ok_def)
qed

lemma job_ok_publish:
  "job_ok i (Some s) t \<Longrightarrow> job_ok i None (publish (Uploaded (us_bytes s)) t) \<and> job_ok i None (publish (Broken e (us_bytes s)) t)"
  by (auto simp: job_ok_def publish_def body_bytes_def)

lemma end_sink_ok:
  assumes "jobs_ok m"
    and "\<And>s. jm_sinks m i = Some s \<Longrightarrow> f s (jm_tasks m) = at_task (us_task s) (g s) (jm_tasks m)"
    and "\<And>s t. job_ok i (Some s) t \<Longrightarrow> job_ok i None (g s t)"
  shows "jobs_ok (end_sink i f m)"
proof (cases "jm_sinks m i")
  case (Some s)
  then have i: "i < length (ts_store (jm_tasks m))" "us_task s = i" using jobs_ok_sink [OF assms(1)] by auto
  have "job_ok i None (g s (ts_store (jm_tasks m) ! i))"
    using assms(3) jobs_ok_job [OF assms(1) i(1)] Some by simp
  from jobs_ok_at [where f = "g s", OF assms(1) i(1) this] show ?thesis
    using Some assms(2) [OF Some] i(2) by (simp add: end_sink_def)
qed (use assms(1) in \<open>simp add: end_sink_def\<close>)

lemma job_ok_send_result: "job_ok i s t \<Longrightarrow> job_ok i s (send_result r t)"
  by (auto simp: job_ok_def send_result_def body_bytes_def split: option.splits)

lemma job_ok_disallow: "job_ok i s t \<Longrightarrow> job_ok i s (t\<lparr>tk_upload_allowed := b\<rparr>)"
  by (auto simp: job_ok_def body_bytes_def split: option.splits)

lemma job_ok_fail_task: "job_ok i s t \<Longrightarrow> job_ok i s (fail_task t)"
  by (simp add: fail_task_def job_ok_send_result job_ok_disallow)

lemma fail_pending_simps [simp]:
  "ts_map (fail_pending c ts) = ts_map ts" "length (ts_store (fail_pending c ts)) = length (ts_store ts)"
  by (simp_all add: fail_pending_def)

lemma fail_pending_nth:
  "i < length (ts_store ts) \<Longrightarrow> ts_store (fail_pending c ts) ! i =
     (if i \<in> snd ` set (ts_map ts) \<and> owned_by c (ts_store ts ! i) then fail_task (ts_store ts ! i) else ts_store ts ! i)"
  by (simp add: fail_pending_def Let_def)

lemma sink_send_Inr:
  assumes "job_ok i (Some s) (ts_store ts ! i)" and "i < length (ts_store ts)"
    and "sink_send chunk s ts = (Inr s', ts')" and "length chunk < 2 ^ 64"
  shows "ts' = at_task i (\<lambda>t. t\<lparr>tk_body := tk_body t @ [chunk]\<rparr>) ts
    \<and> job_ok i (Some s') ((ts_store ts ! i)\<lparr>tk_body := tk_body (ts_store ts ! i) @ [chunk]\<rparr>)"
proof -
  let ?t = "ts_store ts ! i"
  have s: "us_task s = i" using assms(1) by (simp add: job_ok_def)
  let ?len = "case try_from_int (int (length chunk)) of Some n \<Rightarrow> n | None \<Rightarrow> (- 1 :: u64)"
  obtain n where n: "checked_add (us_bytes s) ?len = Some n" "n \<le> us_max_bytes s" "s' = s\<lparr>us_bytes := n\<rparr>"
    "ts' = at_task i (\<lambda>t. t\<lparr>tk_body := tk_body t @ [chunk]\<rparr>) ts"
    using assms(3) s by (auto simp: sink_send_def Let_def split: option.splits if_splits)
  have le: "unat n = unat (us_bytes s) + unat ?len" using n(1) by (simp add: checked_add_Some)
  have "unat ?len = length chunk"
    using assms(4) by (simp add: try_from_int_def unsigned_of_nat take_bit_nat_eq_self)
  then have "unat n = body_bytes (?t\<lparr>tk_body := tk_body ?t @ [chunk]\<rparr>)"
    using le assms(1) by (simp add: body_bytes_def job_ok_def)
  moreover have "unat n \<le> unat (tk_max_bytes ?t)" using n(2) assms(1) by (simp add: job_ok_def word_le_nat_alt)
  ultimately have "job_ok i (Some s') (?t\<lparr>tk_body := tk_body ?t @ [chunk]\<rparr>)"
    using assms(1) n(3) by (simp add: job_ok_def)
  then show ?thesis using n(4) by simp
qed

lemma sink_send_ok:
  assumes "jobs_ok m" and "jm_sinks m i = Some s" and "sink_send chunk s (jm_tasks m) = (Inr s', ts)"
    and "length chunk < 2 ^ 64"
  shows "jobs_ok (m\<lparr>jm_tasks := ts, jm_sinks := (jm_sinks m)(i \<mapsto> s')\<rparr>)"
proof -
  have i: "i < length (ts_store (jm_tasks m))" using jobs_ok_sink [OF assms(1,2)] by simp
  have "job_ok i (Some s) (ts_store (jm_tasks m) ! i)" using jobs_ok_job [OF assms(1) i] assms(2) by simp
  from sink_send_Inr [OF this i assms(3,4)]
  show ?thesis using jobs_ok_at [where f = "\<lambda>t. t\<lparr>tk_body := tk_body t @ [chunk]\<rparr>", OF assms(1) i] by auto
qed

lemma register_ok:
  assumes "jobs_ok m"
  shows "jobs_ok (m\<lparr>jm_tasks := snd (task_register job token agent generation max_bytes (jm_tasks m))\<rparr>)"
proof -
  have "job_ok n None (task_new token agent generation max_bytes)" for n
    by (simp add: job_ok_def task_new_def body_bytes_def)
  then show ?thesis
    using assms by (auto simp: jobs_ok_def task_register_def nth_append less_Suc_eq)
qed

lemma remove_ok: "jobs_ok m \<Longrightarrow> jobs_ok (m\<lparr>jm_tasks := task_remove job token (jm_tasks m)\<rparr>)"
  by (auto simp: jobs_ok_def task_remove_def split: option.splits)

lemma begin_upload_Some:
  "begin_upload job token ts = (Some s, ts') \<longleftrightarrow>
     (\<exists>i. map_of (ts_map ts) job = Some i \<and> tk_token (ts_store ts ! i) = token
        \<and> tk_upload_allowed (ts_store ts ! i) \<and> tk_body_tx (ts_store ts ! i)
        \<and> s = \<lparr>us_task = i, us_max_bytes = tk_max_bytes (ts_store ts ! i), us_bytes = 0\<rparr>
        \<and> ts' = at_task i (\<lambda>t. publish Streaming (t\<lparr>tk_body_tx := False, tk_uploading := True\<rparr>)) ts)"
  by (auto simp: begin_upload_def Let_def split: option.splits)

lemma begin_upload_None: "begin_upload job token ts = (None, ts') \<Longrightarrow> ts' = ts"
  by (auto simp: begin_upload_def Let_def split: option.splits if_splits)

lemma job_ok_begin:
  "job_ok i s t \<Longrightarrow> tk_body_tx t \<Longrightarrow>
     job_ok i (Some \<lparr>us_task = i, us_max_bytes = tk_max_bytes t, us_bytes = 0\<rparr>)
       (publish Streaming (t\<lparr>tk_body_tx := False, tk_uploading := True\<rparr>))"
  by (auto simp: job_ok_def publish_def body_bytes_def)

lemma job_ok_close: "job_ok i s t \<Longrightarrow> job_ok i s (close_receivers b u r t)"
  by (auto simp: job_ok_def close_receivers_def body_bytes_def split: option.splits)

lemma begin_ok: "jobs_ok m \<Longrightarrow> jobs_ok (job_step m (Begin_Upload job token))"
proof -
  assume m: "jobs_ok m"
  obtain r ts where b: "begin_upload job token (jm_tasks m) = (r, ts)" by fastforce
  show ?thesis
  proof (cases r)
    case None
    with b begin_upload_None show ?thesis using m by fastforce
  next
    case (Some s)
    then obtain i where i: "map_of (ts_map (jm_tasks m)) job = Some i" "tk_body_tx (ts_store (jm_tasks m) ! i)"
      "s = \<lparr>us_task = i, us_max_bytes = tk_max_bytes (ts_store (jm_tasks m) ! i), us_bytes = 0\<rparr>"
      "ts = at_task i (\<lambda>t. publish Streaming (t\<lparr>tk_body_tx := False, tk_uploading := True\<rparr>)) (jm_tasks m)"
      using b by (auto simp: begin_upload_Some)
    note l = jobs_ok_map [OF m i(1)]
    from jobs_ok_at [where f = "\<lambda>t. publish Streaming (t\<lparr>tk_body_tx := False, tk_uploading := True\<rparr>)", OF m l
      job_ok_begin [OF jobs_ok_job [OF m l] i(2)]]
    show ?thesis using b Some i(3,4) by simp
  qed
qed

lemma sink_send_Inl: "sink_send chunk s ts = (Inl e, ts') \<Longrightarrow> ts' = ts"
  by (auto simp: sink_send_def Let_def split: option.splits if_splits)

lemma send_ok: "jobs_ok m \<Longrightarrow> jobs_ok (job_step m (Send_Chunk i chunk))"
proof (cases "jm_sinks m i")
  case (Some s)
  assume m: "jobs_ok m"
  obtain r ts where r: "sink_send chunk s (jm_tasks m) = (r, ts)" by fastforce
  show ?thesis
  proof (cases r)
    case (Inl e)
    with r sink_send_Inl have "ts = jm_tasks m" by blast
    then show ?thesis using m Some r Inl by simp
  next
    case (Inr s')
    then show ?thesis using sink_send_ok [OF m Some _] m Some r by simp
  qed
qed simp

lemma message_ok: "jobs_ok m \<Longrightarrow> jobs_ok (m\<lparr>jm_tasks := task_message c msg (jm_tasks m)\<rparr>)"
proof (cases msg)
  case (Pcap_Result job token r)
  assume m: "jobs_ok m"
  show ?thesis
  proof (cases "map_of (ts_map (jm_tasks m)) job")
    case (Some i)
    have "jobs_ok (m\<lparr>jm_tasks := at_task i (\<lambda>t. send_result r
        (if promises_upload r then t else t\<lparr>tk_upload_allowed := False\<rparr>)) (jm_tasks m)\<rparr>)"
      using m jobs_ok_map [OF m Some]
      by (rule jobs_ok_at_same) (auto intro: job_ok_send_result job_ok_disallow)
    then show ?thesis using m Some Pcap_Result by (auto simp: task_message_def deliver_result_def)
  qed (use m Pcap_Result in \<open>simp add: task_message_def deliver_result_def\<close>)
qed (simp add: task_message_def)

lemma gone_ok: "jobs_ok m \<Longrightarrow> jobs_ok (m\<lparr>jm_tasks := fail_pending c (jm_tasks m)\<rparr>)"
  by (simp add: jobs_ok_def fail_pending_nth job_ok_fail_task)

lemma job_step_ok: "jobs_ok m \<Longrightarrow> jobs_ok (job_step m e)"
proof (cases e)
  case (End_Upload i)
  assume "jobs_ok m"
  then have "jobs_ok (end_sink i upload_complete m)"
    by (rule end_sink_ok [where g = "\<lambda>s. publish (Uploaded (us_bytes s))"]) (auto simp: upload_complete_def dest: job_ok_publish)
  then show ?thesis using End_Upload by simp
next
  case (Fail_Upload i reason)
  assume "jobs_ok m"
  then have "jobs_ok (end_sink i (upload_fail reason) m)"
    by (rule end_sink_ok [where g = "\<lambda>s. publish (Broken reason (us_bytes s))"]) (auto simp: upload_fail_def dest: job_ok_publish)
  then show ?thesis using Fail_Upload by simp
next
  case (Drop_Upload i)
  assume "jobs_ok m"
  then have "jobs_ok (end_sink i upload_drop m)"
    by (rule end_sink_ok [where g = "\<lambda>s. publish (Broken ''agent-upload-ended'' (us_bytes s))"])
      (auto simp: upload_drop_def upload_fail_def dest: job_ok_publish)
  then show ?thesis using Drop_Upload by simp
next
  case (Close_Receivers i b u r)
  assume "jobs_ok m"
  then show ?thesis using Close_Receivers by (auto intro: jobs_ok_at_same job_ok_close)
qed (simp_all only: register_ok remove_ok begin_ok send_ok message_ok gone_ok job_step.simps(1,2,8,9))

interpretation jobs: invariant_machine job_step jobs_ok
  by unfold_locales (rule job_step_ok)

lemma jobs_new_ok: "jobs_ok jobs_new"
  by (simp add: jobs_ok_def jobs_new_def tasks_new_def)

section \<open>Lemmas: what an operation does to one job\<close>

text \<open>The ways in which one step may change a job. A property of a job that none of them breaks
  holds for ever.\<close>

inductive task_move :: "task \<Rightarrow> task \<Rightarrow> bool" where
  move_none: "task_move t t"
| move_publish: "task_move t (publish s t)"
| move_claim: "tk_upload_allowed t \<Longrightarrow> tk_body_tx t \<Longrightarrow>
    task_move t (publish Streaming (t\<lparr>tk_body_tx := False, tk_uploading := True\<rparr>))"
| move_chunk: "task_move t (t\<lparr>tk_body := tk_body t @ [chunk]\<rparr>)"
| move_result: "task_move t (send_result r (if promises_upload r then t else t\<lparr>tk_upload_allowed := False\<rparr>))"
| move_gone: "task_move t (fail_task t)"
| move_close: "task_move t (close_receivers b u r t)"

inductive_cases task_moveE: "task_move t t'"

lemma begin_upload_move:
  "i < length (ts_store ts) \<Longrightarrow> task_move (ts_store ts ! i) (ts_store (snd (begin_upload job token ts)) ! i)"
  by (auto simp: begin_upload_def Let_def at_task_nth move_none move_claim split: option.splits)

lemma sink_send_move:
  "i < length (ts_store ts) \<Longrightarrow> task_move (ts_store ts ! i) (ts_store (snd (sink_send chunk s ts)) ! i)"
  by (auto simp: sink_send_def Let_def at_task_nth move_none move_chunk split: option.splits)

lemma end_sink_move:
  assumes "i < length (ts_store (jm_tasks m))" and "\<And>s ts. f s ts = at_task (us_task s) (publish (g s)) ts"
  shows "task_move (ts_store (jm_tasks m) ! i) (ts_store (jm_tasks (end_sink j f m)) ! i)"
  using assms by (auto simp: end_sink_def at_task_nth move_none move_publish split: option.splits)

lemma message_move:
  "i < length (ts_store ts) \<Longrightarrow> task_move (ts_store ts ! i) (ts_store (task_message c msg ts) ! i)"
  using move_result [of "ts_store ts ! i"]
  by (auto simp: task_message_def deliver_result_def at_task_nth move_none split: option.splits agent_message.splits)

lemma job_step_length: "length (ts_store (jm_tasks m)) \<le> length (ts_store (jm_tasks (job_step m e)))"
  by (cases e) (auto simp: task_register_def task_remove_def begin_upload_def sink_send_def Let_def end_sink_def
    upload_complete_def upload_fail_def upload_drop_def task_message_def deliver_result_def
    split: option.splits agent_message.splits sum.splits prod.splits)

lemma job_step_move:
  assumes i: "i < length (ts_store (jm_tasks m))"
  shows "task_move (ts_store (jm_tasks m) ! i) (ts_store (jm_tasks (job_step m e)) ! i)"
proof (cases e)
  case (Begin_Upload job token)
  then show ?thesis using begin_upload_move [OF i, of job token] by (auto split: prod.splits option.splits)
next
  case (Send_Chunk j chunk)
  show ?thesis
  proof (cases "jm_sinks m j")
    case None
    then show ?thesis using Send_Chunk by (simp add: move_none)
  next
    case (Some s)
    then show ?thesis using Send_Chunk sink_send_move [OF i, of chunk s]
      by (auto simp: move_none split: prod.splits sum.splits)
  qed
next
  case (End_Upload j)
  then show ?thesis using end_sink_move [OF i, where f = upload_complete] by (simp add: upload_complete_def)
next
  case (Fail_Upload j reason)
  then show ?thesis using end_sink_move [OF i, where f = "upload_fail reason"] by (simp add: upload_fail_def)
next
  case (Drop_Upload j)
  then show ?thesis using end_sink_move [OF i, where f = upload_drop] by (simp add: upload_drop_def upload_fail_def)
qed (use i in \<open>auto simp: task_register_def task_remove_def nth_append message_move fail_pending_nth at_task_nth
       move_none move_gone move_close split: option.splits\<close>)

text \<open>Once the upload is is_claimed it stays claimed; once a result is settled and uploads are refused,
  the result and the claim stay as they are.\<close>

definition is_claimed :: "nat \<Rightarrow> job_machine \<Rightarrow> bool" where
  "is_claimed i m \<longleftrightarrow> i < length (ts_store (jm_tasks m)) \<and> \<not> tk_body_tx (ts_store (jm_tasks m) ! i)"

definition is_settled :: "nat \<Rightarrow> pcap_result option \<Rightarrow> bool \<Rightarrow> job_machine \<Rightarrow> bool" where
  "is_settled i r b m \<longleftrightarrow> i < length (ts_store (jm_tasks m)) \<and>
     (let t = ts_store (jm_tasks m) ! i
      in \<not> tk_result_tx t \<and> \<not> tk_upload_allowed t \<and> tk_result t = r \<and> tk_body_tx t = b)"

lemma move_claimed: "task_move t t' \<Longrightarrow> \<not> tk_body_tx t \<Longrightarrow> \<not> tk_body_tx t'"
  by (erule task_moveE) (auto simp: publish_def send_result_def fail_task_def close_receivers_def)

lemma move_settled:
  "task_move t t' \<Longrightarrow> \<not> tk_result_tx t \<Longrightarrow> \<not> tk_upload_allowed t \<Longrightarrow>
     \<not> tk_result_tx t' \<and> \<not> tk_upload_allowed t' \<and> tk_result t' = tk_result t \<and> tk_body_tx t' = tk_body_tx t"
  by (erule task_moveE) (auto simp: publish_def send_result_def fail_task_def close_receivers_def)

lemma claimed_step: "is_claimed i m \<Longrightarrow> is_claimed i (job_step m e)"
  using move_claimed [OF job_step_move] less_le_trans [OF _ job_step_length] unfolding is_claimed_def by blast

interpretation claim: invariant_machine job_step "is_claimed i" for i
  by unfold_locales (rule claimed_step)

lemma settled_step: "is_settled i r b m \<Longrightarrow> is_settled i r b (job_step m e)"
proof -
  assume s: "is_settled i r b m"
  then have i: "i < length (ts_store (jm_tasks m))" by (simp add: is_settled_def)
  show ?thesis
    using s move_settled [OF job_step_move [OF i, of e]] less_le_trans [OF i job_step_length [of m e]]
    by (simp add: is_settled_def Let_def)
qed

interpretation settle: invariant_machine job_step "is_settled i r b" for i r b
  by unfold_locales (rule settled_step)

lemma settled_gone:
  assumes "i < length (ts_store (jm_tasks m))" "i \<in> snd ` set (ts_map (jm_tasks m))" "owned_by c (ts_store (jm_tasks m) ! i)"
  shows "let t = ts_store (jm_tasks m) ! i in
    is_settled i (if tk_result_tx t \<and> tk_result_rx t then Some disconnect_result else tk_result t) (tk_body_tx t)
      (job_step m (Agent_Gone c))"
  using assms by (auto simp: is_settled_def Let_def fail_pending_nth fail_task_def send_result_def)

section \<open>Lemmas: receiving an upload\<close>

text \<open>The non-empty chunks that a request body delivers before its end.\<close>

fun chunks_of :: "upload_round list \<Rightarrow> u8 list list" where
  "chunks_of [] = []"
| "chunks_of (r # rs) =
     (case ur_next r of Body_Chunk c \<Rightarrow> (if c = [] then chunks_of rs else c # chunks_of rs) | _ \<Rightarrow> [])"

fun round_fits :: "upload_round \<Rightarrow> bool" where
  "round_fits r = (case ur_next r of Body_Chunk c \<Rightarrow> length c < 2 ^ 64 | _ \<Rightarrow> True)"

text \<open>What the job of a finished upload looks like: the body is what was there and the chunks, all
  of them after a clean end and the first ones otherwise, and the published count is its length.\<close>

definition upload_ended :: "task \<Rightarrow> u8 list list \<Rightarrow> upload_failure + unit \<Rightarrow> task \<Rightarrow> bool" where
  "upload_ended t cs res t' \<longleftrightarrow>
     (case res of
        Inr _ \<Rightarrow> tk_body t' = tk_body t @ cs \<and> tk_upload t' = Uploaded (of_nat (body_bytes t'))
      | Inl f \<Rightarrow> prefix (tk_body t') (tk_body t @ cs)
          \<and> tk_upload t' = Broken (failure_reason f) (of_nat (body_bytes t')))"

lemma job_ok_count: "job_ok i (Some s) t \<Longrightarrow> us_bytes s = of_nat (body_bytes t) \<and> us_task s = i"
proof -
  assume "job_ok i (Some s) t"
  then have b: "unat (us_bytes s) = body_bytes t" and i: "us_task s = i" by (simp_all add: job_ok_def)
  have "us_bytes s = of_nat (unat (us_bytes s))" by simp
  then show ?thesis unfolding b using i by blast
qed

lemma upload_ended_at:
  assumes "i < length (ts_store ts)" "job_ok i (Some s) (ts_store ts ! i)" "tk_upload_rx (ts_store ts ! i)"
  shows "upload_ended (ts_store ts ! i) [] (Inr ()) (ts_store (upload_complete s ts) ! i)"
    and "upload_ended (ts_store ts ! i) cs (Inl f) (ts_store (upload_fail (failure_reason f) s ts) ! i)"
  using assms job_ok_count [OF assms(2)]
  by (simp_all add: upload_ended_def upload_complete_def upload_fail_def at_task_nth publish_def body_bytes_def)

lemma upload_ended_Cons:
  "upload_ended (t\<lparr>tk_body := tk_body t @ [c]\<rparr>) cs res t' \<Longrightarrow> upload_ended t (c # cs) res t'"
  by (auto simp: upload_ended_def split: sum.splits)

lemma receive_upload_ended:
  assumes "receive_upload stall deadline rs s ts = (Some res, ts')"
    and "i < length (ts_store ts)" and "job_ok i (Some s) (ts_store ts ! i)" and "tk_upload_rx (ts_store ts ! i)"
    and "list_all round_fits rs"
  shows "upload_ended (ts_store ts ! i) (chunks_of rs) res (ts_store ts' ! i)"
  using assms
proof (induction rs arbitrary: deadline s ts)
  case (Cons r rs)
  note ends = upload_ended_at [OF Cons.prems(2-4)]
  show ?case
  proof (cases "ur_now r \<ge> deadline")
    case True
    then show ?thesis using Cons.prems(1) ends(2) by (auto simp del: failure_reason.simps)
  next
    case now: False
    show ?thesis
    proof (cases "ur_next r")
      case (Body_Chunk chunk)
      show ?thesis
      proof (cases "chunk = []")
        case True
        then show ?thesis using Cons now Body_Chunk by simp
      next
        case ne: False
        obtain q qs where q: "sink_send chunk s ts = (q, qs)" by fastforce
        show ?thesis
        proof (cases q)
          case (Inl e)
          with q sink_send_Inl have "qs = ts" by blast
          then show ?thesis using Cons.prems(1) now Body_Chunk ne q Inl ends(2)
            by (cases e) (auto simp del: failure_reason.simps)
        next
          case (Inr s')
          have len: "length chunk < 2 ^ 64" using Cons.prems(5) Body_Chunk by simp
          from sink_send_Inr [OF Cons.prems(3,2) _ len] q Inr
          have s': "qs = at_task i (\<lambda>t. t\<lparr>tk_body := tk_body t @ [chunk]\<rparr>) ts" "job_ok i (Some s') (ts_store qs ! i)"
            using Cons.prems(2) by (auto simp: at_task_nth)
          show ?thesis
          proof (cases "ur_sent r")
            case None
            then show ?thesis using Cons.prems(1) now Body_Chunk ne q Inr ends(2)
              by (auto simp del: failure_reason.simps)
          next
            case (Some t)
            have "upload_ended (ts_store qs ! i) (chunks_of rs) res (ts_store ts' ! i)"
              using Cons.prems now Body_Chunk ne q Inr Some s' by (intro Cons.IH [of "t + stall" s' qs]) (auto simp: at_task_nth)
            then show ?thesis using s' Cons.prems(2) Body_Chunk ne by (simp add: at_task_nth upload_ended_Cons)
          qed
        qed
      qed
    qed (use Cons.prems(1) now ends in \<open>auto simp del: failure_reason.simps\<close>)
  qed
qed simp

lemma classify_complete:
  assumes "classify_result r upload body_open streamed = Remote_Complete stats"
  shows "res_code r = Code_Complete \<and> res_stats r = Some stats \<and> ws_bytes stats = streamed
    \<and> (if res_upload r = Upload_Complete then \<not> body_open \<and> upload = Uploaded streamed
       else streamed = 0 \<and> ws_truncated stats \<and> upload = Pending)"
  using assms by (cases "res_upload r")
    (auto simp: classify_result_def Let_def split: result_code.splits upload_state.splits option.splits if_splits)

lemma upload_acc:
  "t \<in> set (ts_store (jm_tasks (run_steps job_step jobs_new ops))) \<Longrightarrow>
     length (concat (tk_body t)) \<le> unat (tk_max_bytes t)
     \<and> (case tk_upload t of Uploaded n \<Rightarrow> unat n = length (concat (tk_body t))
        | Broken e n \<Rightarrow> unat n = length (concat (tk_body t)) | _ \<Rightarrow> True)"
  using jobs.run_inv [OF jobs_new_ok, of ops]
  by (auto simp: in_set_conv_nth jobs_ok_def job_ok_def body_bytes_def split: upload_state.splits)

definition example_jobs :: job_machine where
  "example_jobs = run_steps job_step jobs_new [Register_Job ''1'' ''t'' ''a'' 1 10]"

lemma example_jobs_eq:
  "example_jobs = \<lparr>jm_tasks = \<lparr>ts_map = [(''1'', 0)], ts_store = [task_new ''t'' ''a'' 1 10]\<rparr>, jm_sinks = (\<lambda>_. None)\<rparr>"
  by (simp add: example_jobs_def jobs_new_def tasks_new_def task_register_def)

lemma example_begins:
  "begin_upload ''1'' ''t'' (jm_tasks example_jobs) = (Some \<lparr>us_task = 0, us_max_bytes = 10, us_bytes = 0\<rparr>,
     snd (begin_upload ''1'' ''t'' (jm_tasks example_jobs)))"
  by (simp add: example_jobs_eq begin_upload_def task_new_def Let_def)

definition example_uploaded :: task where
  "example_uploaded = (task_new ''t'' ''a'' 1 10)\<lparr>tk_body_tx := False, tk_uploading := True,
     tk_body := [[1, 2]], tk_upload := Uploaded 2\<rparr>"

lemma example_uploaded_reached:
  "example_uploaded \<in> set (ts_store (jm_tasks (run_steps job_step jobs_new
     [Register_Job ''1'' ''t'' ''a'' 1 10, Begin_Upload ''1'' ''t'', Send_Chunk 0 [1, 2], End_Upload 0])))"
  by (simp add: example_uploaded_def jobs_new_def tasks_new_def task_register_def begin_upload_def task_new_def Let_def
    at_task_def publish_def sink_send_def end_sink_def upload_complete_def try_from_int_def checked_add_def)

section \<open>Properties\<close>

text \<open>In every history of the registry each job's body is within its limit, and a published end of
  its upload, clean or not, carries exactly the number of bytes that went into the body.\<close>

theorem upload_accounting:
  "list_all (\<lambda>t. length (concat (tk_body t)) \<le> unat (tk_max_bytes t)
      \<and> (case tk_upload t of Uploaded n \<Rightarrow> unat n = length (concat (tk_body t))
         | Broken e n \<Rightarrow> unat n = length (concat (tk_body t)) | _ \<Rightarrow> True))
    (ts_store (jm_tasks (run_steps job_step jobs_new ops)))"
  using upload_acc by (simp add: list_all_iff)



text \<open>C28. When the connection a job runs on is gone, the job's result is settled: the one already given,
  or that the agent disconnected, and nothing that follows changes it or starts an upload.\<close>

theorem disconnect_settles:
  assumes "i < length (ts_store (jm_tasks m))" and "i \<in> snd ` set (ts_map (jm_tasks m))"
    and "owned_by c (ts_store (jm_tasks m) ! i)"
  shows "let t = ts_store (jm_tasks m) ! i;
             t' = ts_store (jm_tasks (run_steps job_step (job_step m (Agent_Gone c)) ops)) ! i
    in tk_result t' = (if tk_result_tx t \<and> tk_result_rx t then Some disconnect_result else tk_result t)
       \<and> \<not> tk_upload_allowed t' \<and> tk_body_tx t' = tk_body_tx t"
  using settle.run_inv [OF settled_gone [OF assms, unfolded Let_def], of ops] by (simp add: is_settled_def Let_def)

theorem disconnect_settles_witness:
  "let t' = ts_store (jm_tasks (run_steps job_step
          (job_step example_jobs (Agent_Gone \<lparr>ci_name = ''a'', ci_generation = 1\<rparr>)) [Begin_Upload ''1'' ''t''])) ! 0
   in tk_result t' = Some disconnect_result \<and> tk_body_tx t'"
proof -
  have "owned_by \<lparr>ci_name = ''a'', ci_generation = 1\<rparr> (ts_store (jm_tasks example_jobs) ! 0)"
    by (simp add: example_jobs_eq task_new_def owned_by_def)
  from disconnect_settles [OF _ _ this, of "[Begin_Upload ''1'' ''t'']"] show ?thesis
    by (simp add: example_jobs_eq task_new_def Let_def del: run_steps.simps job_step.simps)
qed

text \<open>C21. A download is reported complete only when the bytes given to the browser, the bytes the agent
  uploaded and the bytes it says it extracted are the same number, or none were and the agent says
  the limit allowed none.\<close>

theorem complete_is_exact:
  assumes "t \<in> set (ts_store (jm_tasks (run_steps job_step jobs_new ops)))"
    and "classify_result r (tk_upload t) body_open streamed = Remote_Complete stats"
  shows "res_code r = Code_Complete \<and> res_stats r = Some stats \<and> ws_bytes stats = streamed
    \<and> (if res_upload r = Upload_Complete
       then \<not> body_open \<and> tk_upload t = Uploaded streamed \<and> unat streamed = length (concat (tk_body t))
       else streamed = 0 \<and> ws_truncated stats \<and> tk_upload t = Pending)"
  using classify_complete [OF assms(2)] upload_acc [OF assms(1)] by (auto split: if_splits)

theorem complete_is_exact_witness:
  "let stats = \<lparr>ws_packets = 1, ws_bytes = 2, ws_files_scanned = 1, ws_files_vanished = 0, ws_truncated = False\<rparr>;
       t = example_uploaded
   in ws_bytes stats = 2 \<and> unat (2 :: u64) = length (concat (tk_body t))"
proof -
  let ?stats = "\<lparr>ws_packets = 1, ws_bytes = 2, ws_files_scanned = 1, ws_files_vanished = 0, ws_truncated = False\<rparr>"
  let ?r = "\<lparr>res_code = Code_Complete, res_upload = Upload_Complete, res_message = None, res_stats = Some ?stats\<rparr>"
  have "classify_result ?r (tk_upload example_uploaded) False 2 = Remote_Complete ?stats"
    by (simp add: classify_result_def example_uploaded_def)
  from complete_is_exact [OF example_uploaded_reached this] show ?thesis by simp
qed

end
