(* ===== verification/Agent_Registry.thy ===== *)
theory Agent_Registry
  imports Pcap_Tasks
begin

text \<open>
  The connected agents (\<open>src/src/server/agents.rs\<close>) and the control channel of one connection
  (\<open>src/src/server/api/agent.rs\<close>). An entry is shared by the map and its connection, so entries live
  in a store and are named by their number, as are the semaphores. A lock is held for one operation,
  which is one step. Names are map keys; the order of a hash map's values is the order of the list.
\<close>

section \<open>Entries\<close>

type_synonym i64 = "64 word"

definition OUTBOUND_CAPACITY :: nat where "OUTBOUND_CAPACITY = 32"
definition LOCAL_PCAP_SOURCE_NAME :: string where "LOCAL_PCAP_SOURCE_NAME = ''(server)''"
definition MAX_AGENT_NAME_BYTES :: nat where "MAX_AGENT_NAME_BYTES = 16 * 1024"

record key_identity =
  ki_id :: i64
  ki_name :: string

datatype registration_refused = NameHeldByOtherKey | RevokedKey

text \<open>The outbound channel belongs to the entry: what is queued, and whether its receiver lives.\<close>

record agent_entry =
  ae_name :: string
  ae_hostname :: string
  ae_version :: string
  ae_capabilities :: "string list"
  ae_connected_at :: nat
  ae_generation :: u64
  ae_key :: "key_identity option"
  ae_remote :: string
  ae_outbound :: "server_message list"
  ae_receiver :: bool
  ae_pcap_busy :: nat
  ae_last_seen :: nat
  ae_rtt_ms :: u64
  ae_ping_request :: bool
  ae_pongs :: u64
  ae_shutdown :: bool

definition connection_id_of :: "agent_entry \<Rightarrow> connection_id" where
  "connection_id_of e = \<lparr>ci_name = ae_name e, ci_generation = ae_generation e\<rparr>"

definition touch :: "nat \<Rightarrow> agent_entry \<Rightarrow> agent_entry" where
  "touch now e = e\<lparr>ae_last_seen := now\<rparr>"

definition set_rtt :: "u64 \<Rightarrow> agent_entry \<Rightarrow> agent_entry" where
  "set_rtt rtt_ms e = e\<lparr>ae_rtt_ms := rtt_ms\<rparr>"

definition supports :: "string \<Rightarrow> agent_entry \<Rightarrow> bool" where
  "supports capability e = list_ex (\<lambda>value. value = capability) (ae_capabilities e)"

datatype try_send_error = TS_Closed server_message | TS_Full server_message

definition try_send :: "server_message \<Rightarrow> agent_entry \<Rightarrow> try_send_error + agent_entry" where
  "try_send message e =
     (if \<not> ae_receiver e then Inl (TS_Closed message)
      else if OUTBOUND_CAPACITY \<le> length (ae_outbound e) then Inl (TS_Full message)
      else Inr (e\<lparr>ae_outbound := ae_outbound e @ [message]\<rparr>))"

definition pong_received :: "agent_entry \<Rightarrow> agent_entry" where
  "pong_received e = e\<lparr>ae_pongs := ae_pongs e + 1\<rparr>"

text \<open>A probe notes the pongs so far and asks for a ping; it succeeds when there was another pong
  before its time was up.\<close>

definition probe_start :: "agent_entry \<Rightarrow> u64 \<times> agent_entry" where
  "probe_start e = (ae_pongs e, e\<lparr>ae_ping_request := True\<rparr>)"

definition probe_answered :: "u64 \<Rightarrow> agent_entry \<Rightarrow> bool" where
  "probe_answered seen e \<longleftrightarrow> ae_pongs e \<noteq> seen"

section \<open>The registry\<close>

record agent_registry =
  ar_entries :: "agent_entry list"
  ar_agents :: "(string \<times> nat) list"
  ar_revoked :: "i64 list"
  ar_next_generation :: u64
  ar_slots :: nat

definition agents_new :: agent_registry where
  "agents_new = \<lparr>ar_entries = [], ar_agents = [], ar_revoked = [], ar_next_generation = 1, ar_slots = 0\<rparr>"

definition entry :: "agent_registry \<Rightarrow> nat \<Rightarrow> agent_entry" where
  "entry reg i = ar_entries reg ! i"

definition at_entry :: "nat \<Rightarrow> (agent_entry \<Rightarrow> agent_entry) \<Rightarrow> agent_registry \<Rightarrow> agent_registry" where
  "at_entry i f reg = reg\<lparr>ar_entries := (ar_entries reg)[i := f (ar_entries reg ! i)]\<rparr>"

definition cancel :: "agent_entry \<Rightarrow> agent_entry" where
  "cancel e = e\<lparr>ae_shutdown := True\<rparr>"

definition new_entry ::
    "agent_handshake \<Rightarrow> key_identity option \<Rightarrow> string \<Rightarrow> nat \<Rightarrow> u64 \<Rightarrow> nat \<Rightarrow> agent_entry" where
  "new_entry h key remote now generation slot = \<lparr>ae_name = hs_name h, ae_hostname = hs_hostname h,
     ae_version = hs_version h, ae_capabilities = hs_capabilities h, ae_connected_at = now,
     ae_generation = generation, ae_key = key, ae_remote = remote, ae_outbound = [], ae_receiver = True,
     ae_pcap_busy = slot, ae_last_seen = now, ae_rtt_ms = - 1, ae_ping_request = False, ae_pongs = 0,
     ae_shutdown = False\<rparr>"

definition held_by_other :: "key_identity option \<Rightarrow> agent_entry \<Rightarrow> bool" where
  "held_by_other key previous \<longleftrightarrow>
     (case (ae_key previous, key) of (Some held, Some claimed) \<Rightarrow> ki_id held \<noteq> ki_id claimed | _ \<Rightarrow> False)"

definition agents_register ::
    "agent_handshake \<Rightarrow> key_identity option \<Rightarrow> string \<Rightarrow> nat \<Rightarrow> agent_registry
       \<Rightarrow> (registration_refused + nat) \<times> agent_registry" where
  "agents_register h key remote now reg =
     (if (case key of Some k \<Rightarrow> ki_id k \<in> set (ar_revoked reg) | None \<Rightarrow> False) then (Inl RevokedKey, reg)
      else
        let previous = map_of (ar_agents reg) (hs_name h)
        in if (case previous of Some i \<Rightarrow> held_by_other key (entry reg i) | None \<Rightarrow> False)
           then (Inl NameHeldByOtherKey, reg)
           else
             let slot = (case previous of Some i \<Rightarrow> ae_pcap_busy (entry reg i) | None \<Rightarrow> ar_slots reg);
                 e = new_entry h key remote now (ar_next_generation reg) slot;
                 i = length (ar_entries reg);
                 reg = (case previous of Some j \<Rightarrow> at_entry j cancel reg | None \<Rightarrow> reg\<lparr>ar_slots := ar_slots reg + 1\<rparr>)
             in (Inr i, reg\<lparr>ar_entries := ar_entries reg @ [e], ar_agents := AList.update (hs_name h) i (ar_agents reg),
                   ar_next_generation := ar_next_generation reg + 1\<rparr>))"

definition is_current :: "connection_id \<Rightarrow> agent_registry \<Rightarrow> bool" where
  "is_current c reg \<longleftrightarrow>
     (case map_of (ar_agents reg) (ci_name c) of
        Some i \<Rightarrow> ae_generation (entry reg i) = ci_generation c | None \<Rightarrow> False)"

definition agents_remove :: "connection_id \<Rightarrow> agent_registry \<Rightarrow> bool \<times> agent_registry" where
  "agents_remove c reg =
     (is_current c reg,
      if is_current c reg then reg\<lparr>ar_agents := AList.delete (ci_name c) (ar_agents reg)\<rparr> else reg)"

definition has_key :: "i64 \<Rightarrow> agent_entry \<Rightarrow> bool" where
  "has_key key_id e \<longleftrightarrow> (case ae_key e of Some k \<Rightarrow> ki_id k = key_id | None \<Rightarrow> False)"

definition revoke_key :: "i64 \<Rightarrow> agent_registry \<Rightarrow> bool \<times> agent_registry" where
  "revoke_key key_id reg =
     (let reg = reg\<lparr>ar_revoked := List.insert key_id (ar_revoked reg)\<rparr>
      in case find (\<lambda>i. has_key key_id (entry reg i)) (map snd (ar_agents reg)) of
           Some i \<Rightarrow> (True, at_entry i cancel reg)
         | None \<Rightarrow> (False, reg))"

definition try_send_current ::
    "nat \<Rightarrow> server_message \<Rightarrow> agent_registry \<Rightarrow> (try_send_error + unit) \<times> agent_registry" where
  "try_send_current i message reg =
     (let e = entry reg i
      in if \<not> is_current (connection_id_of e) reg then (Inl (TS_Closed message), reg)
         else case try_send message e of
           Inl err \<Rightarrow> (Inl err, reg)
         | Inr e \<Rightarrow> (Inr (), at_entry i (\<lambda>_. e) reg))"

definition agents_get :: "string \<Rightarrow> agent_registry \<Rightarrow> nat option" where
  "agents_get name reg = map_of (ar_agents reg) name"

definition pcap_agent :: "string \<Rightarrow> agent_registry \<Rightarrow> nat option" where
  "pcap_agent name reg =
     (if name = LOCAL_PCAP_SOURCE_NAME then None
      else case agents_get name reg of
        Some i \<Rightarrow> (if supports CAPABILITY_PCAP (entry reg i) then Some i else None)
      | None \<Rightarrow> None)"

definition eligible :: "agent_entry \<Rightarrow> bool" where
  "eligible e \<longleftrightarrow> supports CAPABILITY_PCAP e \<and> ae_name e \<noteq> LOCAL_PCAP_SOURCE_NAME"

definition pcap_agents :: "agent_registry \<Rightarrow> nat list" where
  "pcap_agents reg =
     sort_key (\<lambda>i. ae_name (entry reg i)) (filter (\<lambda>i. eligible (entry reg i)) (map snd (ar_agents reg)))"

definition has_pcap :: "agent_registry \<Rightarrow> bool" where
  "has_pcap reg = list_ex (\<lambda>i. eligible (entry reg i)) (map snd (ar_agents reg))"

definition connected :: "agent_registry \<Rightarrow> nat" where
  "connected reg = length (ar_agents reg)"

record agent_info =
  ag_name :: string
  ag_hostname :: string
  ag_version :: string
  ag_capabilities :: "string list"
  ag_connected_at :: nat
  ag_last_seen :: nat
  ag_rtt_ms :: "u64 option"

definition agent_info_of :: "agent_entry \<Rightarrow> agent_info" where
  "agent_info_of e = \<lparr>ag_name = ae_name e, ag_hostname = ae_hostname e, ag_version = ae_version e,
     ag_capabilities = ae_capabilities e, ag_connected_at = ae_connected_at e, ag_last_seen = ae_last_seen e,
     ag_rtt_ms = (if ae_rtt_ms e = - 1 then None else Some (ae_rtt_ms e))\<rparr>"

definition agents_list :: "agent_registry \<Rightarrow> agent_info list" where
  "agents_list reg = sort_key ag_name (map (\<lambda>i. agent_info_of (entry reg i)) (map snd (ar_agents reg)))"

section \<open>Lemmas: the registry's invariant\<close>

text \<open>A name is mapped once, to an entry of that name, and generations count the registrations.\<close>

definition reg_ok :: "agent_registry \<Rightarrow> bool" where
  "reg_ok reg \<longleftrightarrow> distinct (map fst (ar_agents reg))
     \<and> (\<forall>(k, i) \<in> set (ar_agents reg). i < length (ar_entries reg) \<and> ae_name (entry reg i) = k)
     \<and> (\<forall>i < length (ar_entries reg). ae_generation (entry reg i) = of_nat (i + 1))
     \<and> ar_next_generation reg = of_nat (length (ar_entries reg) + 1)"

definition current_at :: "nat \<Rightarrow> agent_registry \<Rightarrow> bool" where
  "current_at i reg \<longleftrightarrow> i \<in> snd ` set (ar_agents reg)"

text \<open>An entry after an operation that keeps its identity and never takes a cancellation back.\<close>

definition same_agent :: "agent_entry \<Rightarrow> agent_entry \<Rightarrow> bool" where
  "same_agent e e' \<longleftrightarrow> ae_name e' = ae_name e \<and> ae_generation e' = ae_generation e \<and> ae_key e' = ae_key e
     \<and> (ae_shutdown e \<longrightarrow> ae_shutdown e')"

lemma same_agent_refl [simp]: "same_agent e e"
  by (simp add: same_agent_def)

lemma same_agent_trans: "same_agent a b \<Longrightarrow> same_agent b c \<Longrightarrow> same_agent a c"
  by (simp add: same_agent_def)

lemma same_agent_ops [simp]:
  "same_agent e (touch now e)" "same_agent e (set_rtt r e)" "same_agent e (pong_received e)" "same_agent e (cancel e)"
  "same_agent e (snd (probe_start e))"
  by (simp_all add: same_agent_def touch_def set_rtt_def pong_received_def cancel_def probe_start_def)

lemma try_send_same: "try_send m e = Inr e' \<Longrightarrow> same_agent e e' \<and> ae_shutdown e' = ae_shutdown e"
  by (auto simp: try_send_def same_agent_def split: if_splits)

lemma at_entry_simps [simp]:
  "length (ar_entries (at_entry i f reg)) = length (ar_entries reg)" "ar_agents (at_entry i f reg) = ar_agents reg"
  "ar_revoked (at_entry i f reg) = ar_revoked reg" "ar_next_generation (at_entry i f reg) = ar_next_generation reg"
  "current_at j (at_entry i f reg) = current_at j reg"
  by (simp_all add: at_entry_def current_at_def)

lemma entry_at_entry:
  "j < length (ar_entries reg) \<Longrightarrow> entry (at_entry i f reg) j = (if j = i then f (entry reg i) else entry reg j)"
  by (simp add: at_entry_def entry_def nth_list_update)

lemma reg_ok_map: "reg_ok reg \<Longrightarrow> map_of (ar_agents reg) k = Some i \<Longrightarrow> i < length (ar_entries reg) \<and> ae_name (entry reg i) = k"
  by (auto simp: reg_ok_def dest: map_of_SomeD)

lemma reg_ok_same:
  assumes "reg_ok reg" and "ar_agents reg' = ar_agents reg" and "ar_next_generation reg' = ar_next_generation reg"
    and "length (ar_entries reg') = length (ar_entries reg)"
    and "\<And>i. i < length (ar_entries reg) \<Longrightarrow> same_agent (entry reg i) (entry reg' i)"
  shows "reg_ok reg'"
  using assms by (fastforce simp: reg_ok_def same_agent_def)

lemma reg_ok_at_entry: "reg_ok reg \<Longrightarrow> same_agent (entry reg i) (f (entry reg i)) \<Longrightarrow> reg_ok (at_entry i f reg)"
  by (rule reg_ok_same [where reg = reg]) (simp_all add: entry_at_entry)

text \<open>A successful registration: the new entry is the last one and the only current one of its name,
  the one it replaces is cancelled, every other entry is as it was.\<close>

lemma register_Inr:
  assumes "agents_register h key remote now reg = (Inr i, reg')"
  shows "i = length (ar_entries reg)" "length (ar_entries reg') = Suc i"
    "ar_agents reg' = AList.update (hs_name h) i (ar_agents reg)" "ar_revoked reg' = ar_revoked reg"
    "ar_next_generation reg' = ar_next_generation reg + 1"
    "\<exists>slot. entry reg' i = new_entry h key remote now (ar_next_generation reg) slot"
    "j < i \<Longrightarrow> entry reg' j = (if map_of (ar_agents reg) (hs_name h) = Some j then cancel (entry reg j) else entry reg j)"
    "case key of Some k \<Rightarrow> ki_id k \<notin> set (ar_revoked reg) | None \<Rightarrow> True"
  using assms
  by (auto simp: agents_register_def Let_def entry_def at_entry_def nth_append nth_list_update split: if_splits option.splits)

lemma register_Inl: "agents_register h key remote now reg = (Inl e, reg') \<Longrightarrow> reg' = reg"
  by (auto simp: agents_register_def Let_def split: if_splits)

lemma new_entry_simps [simp]:
  "ae_name (new_entry h key remote now g slot) = hs_name h" "ae_generation (new_entry h key remote now g slot) = g"
  "ae_key (new_entry h key remote now g slot) = key" "\<not> ae_shutdown (new_entry h key remote now g slot)"
  by (simp_all add: new_entry_def)

lemma set_update_agents:
  assumes "distinct (map fst xs)"
  shows "(k, i) \<in> set (AList.update n v xs) \<longleftrightarrow> (if k = n then i = v else (k, i) \<in> set xs)"
proof -
  have "(k, i) \<in> set (AList.update n v xs) \<longleftrightarrow> map_of (AList.update n v xs) k = Some i"
    using assms by (simp add: distinct_update)
  then show ?thesis using assms by (auto simp: update_conv)
qed

lemma set_delete_agents:
  "distinct (map fst xs) \<Longrightarrow> (k, i) \<in> set (AList.delete n xs) \<longleftrightarrow> k \<noteq> n \<and> (k, i) \<in> set xs"
  by (auto simp: AList.delete_eq)

lemma reg_ok_register:
  assumes "reg_ok reg" and "agents_register h key remote now reg = (Inr i, reg')"
  shows "reg_ok reg'"
proof -
  note r = register_Inr [OF assms(2)]
  have d: "distinct (map fst (ar_agents reg))" using assms(1) by (simp add: reg_ok_def)
  obtain slot where slot: "entry reg' i = new_entry h key remote now (ar_next_generation reg) slot" using r(6) by blast
  have old: "same_agent (entry reg j) (entry reg' j)" if "j < i" for j using r(7) [OF that] by simp
  have "j < length (ar_entries reg') \<and> ae_name (entry reg' j) = k" if "(k, j) \<in> set (ar_agents reg')" for k j
  proof (cases "k = hs_name h")
    case True
    then show ?thesis using that r(2,3) set_update_agents [OF d] slot by simp
  next
    case False
    then have "(k, j) \<in> set (ar_agents reg)" using that r(3) set_update_agents [OF d] by simp
    then have "j < i" "ae_name (entry reg j) = k" using assms(1) r(1) by (auto simp: reg_ok_def)
    then show ?thesis using old [of j] r(2) by (simp add: same_agent_def)
  qed
  moreover have "ae_generation (entry reg' j) = of_nat (j + 1)" if "j < length (ar_entries reg')" for j
  proof (cases "j = i")
    case True
    then show ?thesis using slot assms(1) r(1) by (simp add: reg_ok_def)
  next
    case False
    then have "j < i" using that r(2) by simp
    then show ?thesis using old [of j] assms(1) r(1) by (simp add: same_agent_def reg_ok_def)
  qed
  moreover have "ar_next_generation reg' = of_nat (length (ar_entries reg') + 1)"
    using assms(1) r(1,2,5) by (simp add: reg_ok_def)
  ultimately show ?thesis using d r(3) by (auto simp: reg_ok_def distinct_update)
qed

lemma reg_ok_remove: "reg_ok reg \<Longrightarrow> reg_ok (snd (agents_remove c reg))"
  by (auto simp: reg_ok_def agents_remove_def set_delete_agents distinct_delete entry_def)

lemma revoke_entry:
  "same_agent (entry reg i) (entry (snd (revoke_key key_id reg)) i)" if "i < length (ar_entries reg)"
  using that entry_at_entry [of i "reg\<lparr>ar_revoked := List.insert key_id (ar_revoked reg)\<rparr>"]
  by (auto simp: revoke_key_def Let_def entry_def split: option.splits)

lemma revoke_simps [simp]:
  "length (ar_entries (snd (revoke_key key_id reg))) = length (ar_entries reg)"
  "ar_agents (snd (revoke_key key_id reg)) = ar_agents reg"
  "ar_next_generation (snd (revoke_key key_id reg)) = ar_next_generation reg"
  "ar_revoked (snd (revoke_key key_id reg)) = List.insert key_id (ar_revoked reg)"
  by (auto simp: revoke_key_def Let_def split: option.splits)

lemma reg_ok_revoke: "reg_ok reg \<Longrightarrow> reg_ok (snd (revoke_key key_id reg))"
  by (rule reg_ok_same [where reg = reg]) (simp_all add: revoke_entry)

text \<open>Until the generations wrap, a connection is current when its own entry is the one mapped.\<close>

lemma generation_inj:
  assumes "reg_ok reg" and "i < length (ar_entries reg)" "j < length (ar_entries reg)"
    and "ae_generation (entry reg i) = ae_generation (entry reg j)" and "length (ar_entries reg) < 2 ^ 64 - 1"
  shows "i = j"
proof -
  have "(of_nat (i + 1) :: u64) = of_nat (j + 1)" using assms by (simp add: reg_ok_def)
  then have "unat (of_nat (i + 1) :: u64) = unat (of_nat (j + 1) :: u64)" by (rule arg_cong)
  moreover have "i + 1 < 2 ^ LENGTH(64)" "j + 1 < 2 ^ LENGTH(64)" using assms(2,3,5) by auto
  ultimately show ?thesis
    by (simp only: unsigned_of_nat take_bit_nat_eq_self) simp
qed

lemma is_current_iff:
  assumes "reg_ok reg" and "i < length (ar_entries reg)" and "length (ar_entries reg) < 2 ^ 64 - 1"
  shows "is_current (connection_id_of (entry reg i)) reg \<longleftrightarrow> current_at i reg"
proof
  assume "is_current (connection_id_of (entry reg i)) reg"
  then obtain j where j: "map_of (ar_agents reg) (ae_name (entry reg i)) = Some j"
    "ae_generation (entry reg j) = ae_generation (entry reg i)"
    by (auto simp: is_current_def connection_id_of_def split: option.splits)
  then have "j = i" using generation_inj [OF assms(1) _ assms(2) _ assms(3)] reg_ok_map [OF assms(1)] by blast
  then show "current_at i reg" using map_of_SomeD [OF j(1)] by (force simp: current_at_def)
next
  assume "current_at i reg"
  then obtain k where k: "(k, i) \<in> set (ar_agents reg)" by (auto simp: current_at_def)
  then have "ae_name (entry reg i) = k" "map_of (ar_agents reg) k = Some i"
    using assms(1) by (auto simp: reg_ok_def)
  then show "is_current (connection_id_of (entry reg i)) reg" by (simp add: is_current_def connection_id_of_def)
qed

text \<open>The capture slot of a name does not outlive its connection: an agent that comes back after the teardown
  of its old connection gets a new one, whoever still holds the old.\<close>

lemma reconnect_gets_new_slot:
  assumes "agents_register h key remote now agents_new = (Inr i, reg)"
    and "agents_register h key remote later (snd (agents_remove (connection_id_of (entry reg i)) reg)) = (Inr j, reg')"
  shows "ae_pcap_busy (entry reg' j) \<noteq> ae_pcap_busy (entry reg' i)"
  using assms
  by (auto simp: agents_register_def agents_remove_def is_current_def agents_new_def entry_def connection_id_of_def
      new_entry_def Let_def split: if_splits)

end
