(* ===== verification/Agent_Control.thy ===== *)
theory Agent_Control
  imports Agent_Registry
begin

text \<open>
  The control channel on the server (\<open>src/src/server/api/agent.rs\<close>): admission of an upgrade request,
  the loop of one connection, and the server as a machine whose steps are the operations that may
  interleave: upgrades, registrations, turns of the connections, their teardown, deletion of a key,
  and the dispatch of capture jobs (\<open>stream_agent\<close> of \<open>src/src/server/api/pcap.rs\<close>). The header library,
  the key database and the JSON text are parameters.
\<close>

section \<open>Admission\<close>

definition HANDSHAKE_HEADER_MAX_SIZE :: nat where "HANDSHAKE_HEADER_MAX_SIZE = 128 * 1024"
definition MAX_MISSED_PONGS :: u8 where "MAX_MISSED_PONGS = 2"
definition SUBPROTOCOL :: string where "SUBPROTOCOL = ''evebox-agent-v1''"

text \<open>The headers as the library gives them: the bearer credential, the values of the subprotocol
  header, and the handshake header's bytes.\<close>

record upgrade_headers =
  uh_bearer :: "string option"
  uh_protocols :: "string list"
  uh_agent :: "string option"

record admission =
  ad_to_str :: "string \<Rightarrow> string option"
  ad_parse :: "string \<Rightarrow> json option"
  ad_allow_unauthenticated :: bool

text \<open>A refusal is a status and a code or message.\<close>

type_synonym refusal = "nat \<times> string"

definition authenticate_agent ::
    "bool \<Rightarrow> (string \<Rightarrow> string + key_identity option) \<Rightarrow> upgrade_headers \<Rightarrow> refusal + key_identity option" where
  "authenticate_agent allow verify h =
     (case uh_bearer h of
        None \<Rightarrow> (if allow then Inr None else Inl (401, ''agent-key-required''))
      | Some token \<Rightarrow>
          (case verify token of
             Inr (Some key) \<Rightarrow> Inr (Some key)
           | Inr None \<Rightarrow> Inl (401, ''agent-key-rejected'')
           | Inl err \<Rightarrow> Inl (500, ''agent key verification failed'')))"

definition offers_subprotocol :: "(string \<Rightarrow> string option) \<Rightarrow> upgrade_headers \<Rightarrow> bool" where
  "offers_subprotocol to_str h =
     list_ex (\<lambda>v. trim v = SUBPROTOCOL)
       (concat (map (split_char (CHR '','')) (List.map_filter to_str (uh_protocols h))))"

definition read_handshake :: "json \<Rightarrow> agent_handshake option" where
  "read_handshake v =
     Option.bind (need as_str v ''name'') (\<lambda>name.
     Option.bind (need as_str v ''hostname'') (\<lambda>hostname.
     Option.bind (need as_str v ''version'') (\<lambda>version.
     Option.bind (with_default [] as_strings v ''capabilities'') (\<lambda>caps.
       Some \<lparr>hs_name = name, hs_hostname = hostname, hs_version = version, hs_capabilities = caps\<rparr>))))"

definition parse_handshake ::
    "(string \<Rightarrow> string option) \<Rightarrow> (string \<Rightarrow> json option) \<Rightarrow> upgrade_headers \<Rightarrow> string + agent_handshake" where
  "parse_handshake to_str parse h =
     (case uh_agent h of
        None \<Rightarrow> Inl ''missing x-evebox-agent header''
      | Some v \<Rightarrow>
          if HANDSHAKE_HEADER_MAX_SIZE < length v then Inl ''x-evebox-agent header is too large''
          else case to_str v of
            None \<Rightarrow> Inl ''x-evebox-agent header is not valid ASCII''
          | Some s \<Rightarrow>
              (case Option.bind (parse s) read_handshake of
                 None \<Rightarrow> Inl ''x-evebox-agent header is not valid JSON''
               | Some hs \<Rightarrow>
                   if trim (hs_name hs) = [] \<or> trim (hs_hostname hs) = [] \<or> trim (hs_version hs) = []
                   then Inl ''x-evebox-agent name, hostname, and version must not be empty''
                   else if MAX_AGENT_NAME_BYTES < length (hs_name hs) then Inl ''x-evebox-agent name is too large''
                   else Inr hs))"

definition websocket ::
    "admission \<Rightarrow> (string \<Rightarrow> string + key_identity option) \<Rightarrow> upgrade_headers
       \<Rightarrow> refusal + agent_handshake \<times> key_identity option" where
  "websocket a verify h =
     (case authenticate_agent (ad_allow_unauthenticated a) verify h of
        Inl r \<Rightarrow> Inl r
      | Inr key \<Rightarrow>
          if \<not> offers_subprotocol (ad_to_str a) h then Inl (400, ''subprotocol'')
          else case parse_handshake (ad_to_str a) (ad_parse a) h of
            Inl message \<Rightarrow> Inl (400, message)
          | Inr hs \<Rightarrow>
              (case key of
                 Some k \<Rightarrow> (if ki_name k \<noteq> hs_name hs then Inl (403, ''agent-key-name-mismatch'') else Inr (hs, key))
               | None \<Rightarrow> Inr (hs, key)))"

section \<open>One connection\<close>

datatype ws_frame = Ws_Text string | Ws_Binary | Ws_Ping string | Ws_Pong string | Ws_Close

datatype incoming = In_Frame ws_frame | In_End | In_Error

datatype turn_event = On_Cancelled | On_Outbound | On_Incoming incoming | On_Tick | On_Ping_Request

datatype phase = Serving | Leaving | Removed | Closed

record agent_channel =
  ch_phase :: phase
  ch_missed :: u8
  ch_last_ping :: "nat option"
  ch_sent :: "ws_frame list"

definition channel_new :: "ws_frame \<Rightarrow> agent_channel" where
  "channel_new hello = \<lparr>ch_phase = Serving, ch_missed = 0, ch_last_ping = None, ch_sent = [hello]\<rparr>"

definition ch_send :: "bool \<Rightarrow> ws_frame \<Rightarrow> agent_channel \<Rightarrow> agent_channel" where
  "ch_send ok f ch = (if ok then ch\<lparr>ch_sent := ch_sent ch @ [f]\<rparr> else ch\<lparr>ch_phase := Leaving\<rparr>)"

datatype delivery = Continue | Fatal

definition deliver_text ::
    "(string \<Rightarrow> json option) \<Rightarrow> connection_id \<Rightarrow> string \<Rightarrow> job_machine \<Rightarrow> delivery \<times> job_machine" where
  "deliver_text parse c s m =
     (case Option.bind (parse s) read_agent_message of
        Some Unknown_Agent \<Rightarrow> (Continue, m)
      | Some message \<Rightarrow> (Continue, job_step m (Agent_Says c message))
      | None \<Rightarrow> (Fatal, m))"

text \<open>What a turn of the loop does with the entry, the channel and the jobs; \<open>ok\<close> says whether a frame
  sent in it went out in time. A branch that is not ready does nothing.\<close>

fun take_frame :: "(string \<Rightarrow> json option) \<Rightarrow> nat \<Rightarrow> bool \<Rightarrow> ws_frame
    \<Rightarrow> agent_entry \<times> agent_channel \<times> job_machine \<Rightarrow> agent_entry \<times> agent_channel \<times> job_machine" where
  "take_frame parse now ok (Ws_Text s) (e, ch, m) =
     (case deliver_text parse (connection_id_of e) s m of
        (Fatal, m) \<Rightarrow> (touch now e, ch\<lparr>ch_phase := Leaving\<rparr>, m)
      | (Continue, m) \<Rightarrow> (touch now e, ch, m))"
| "take_frame parse now ok (Ws_Pong payload) (e, ch, m) =
     (let e = pong_received (touch now e)
      in case ch_last_ping ch of
           None \<Rightarrow> (e, ch\<lparr>ch_missed := 0\<rparr>, m)
         | Some sent \<Rightarrow> (set_rtt (of_nat (min (now - sent) (2 ^ 64 - 1))) e,
                        ch\<lparr>ch_missed := 0, ch_last_ping := None\<rparr>, m))"
| "take_frame parse now ok (Ws_Ping payload) (e, ch, m) = (touch now e, ch_send ok (Ws_Pong payload) ch, m)"
| "take_frame parse now ok Ws_Binary (e, ch, m) = (touch now e, ch, m)"
| "take_frame parse now ok Ws_Close (e, ch, m) = (e, ch\<lparr>ch_phase := Leaving\<rparr>, m)"

fun conn_turn :: "(json \<Rightarrow> string option) \<Rightarrow> (string \<Rightarrow> json option) \<Rightarrow> nat \<Rightarrow> bool \<Rightarrow> turn_event
    \<Rightarrow> agent_entry \<times> agent_channel \<times> job_machine \<Rightarrow> agent_entry \<times> agent_channel \<times> job_machine" where
  "conn_turn render parse now ok On_Cancelled (e, ch, m) =
     (if ae_shutdown e then (e, ch\<lparr>ch_phase := Leaving\<rparr>, m) else (e, ch, m))"
| "conn_turn render parse now ok On_Outbound (e, ch, m) =
     (case ae_outbound e of
        [] \<Rightarrow> (e, ch, m)
      | message # rest \<Rightarrow>
          let e = e\<lparr>ae_outbound := rest\<rparr>
          in case render (server_message_json message) of
               None \<Rightarrow> (e, ch, m)
             | Some s \<Rightarrow>
                 (if CONTROL_MESSAGE_MAX_BYTES < length s then (e, ch\<lparr>ch_phase := Leaving\<rparr>, m)
                  else (e, ch_send ok (Ws_Text s) ch, m)))"
| "conn_turn render parse now ok (On_Incoming (In_Frame f)) s = take_frame parse now ok f s"
| "conn_turn render parse now ok (On_Incoming In_End) (e, ch, m) = (e, ch\<lparr>ch_phase := Leaving\<rparr>, m)"
| "conn_turn render parse now ok (On_Incoming In_Error) (e, ch, m) = (e, ch\<lparr>ch_phase := Leaving\<rparr>, m)"
| "conn_turn render parse now ok On_Tick (e, ch, m) =
     (if MAX_MISSED_PONGS \<le> ch_missed ch then (e, ch\<lparr>ch_phase := Leaving\<rparr>, m)
      else (e, ch_send ok (Ws_Ping []) (ch\<lparr>ch_missed := ch_missed ch + 1, ch_last_ping := Some now\<rparr>), m))"
| "conn_turn render parse now ok On_Ping_Request (e, ch, m) =
     (if ae_ping_request e then (e\<lparr>ae_ping_request := False\<rparr>, ch_send ok (Ws_Ping []) ch, m) else (e, ch, m))"

section \<open>The upload request\<close>

definition PCAP_CONTENT_TYPE :: string where "PCAP_CONTENT_TYPE = ''application/vnd.tcpdump.pcap''"

definition is_pcap_content_type :: "(string \<Rightarrow> string option) \<Rightarrow> string option \<Rightarrow> bool" where
  "is_pcap_content_type to_str content_type =
     (case Option.bind content_type to_str of
        None \<Rightarrow> False
      | Some v \<Rightarrow> eq_ignore_ascii_case (trim (hd (split_char (CHR '';'') v))) PCAP_CONTENT_TYPE)"

text \<open>The status of the response; \<open>None\<close> while the upload goes on.\<close>

definition upload_pcap ::
    "(string \<Rightarrow> string option) \<Rightarrow> nat \<Rightarrow> nat \<Rightarrow> string \<Rightarrow> string option \<Rightarrow> string option \<Rightarrow> upload_round list
       \<Rightarrow> tasks \<Rightarrow> nat option \<times> tasks" where
  "upload_pcap to_str stall now job content_type bearer rounds ts =
     (if \<not> is_pcap_content_type to_str content_type then (Some 415, ts)
      else case bearer of
        None \<Rightarrow> (Some 410, ts)
      | Some token \<Rightarrow>
          (case begin_upload job token ts of
             (None, ts) \<Rightarrow> (Some 410, ts)
           | (Some sink, ts) \<Rightarrow>
               (case receive_upload stall (now + stall) rounds sink ts of
                  (None, ts) \<Rightarrow> (None, ts)
                | (Some (Inr _), ts) \<Rightarrow> (Some 200, ts)
                | (Some (Inl failure), ts) \<Rightarrow> (Some (failure_status failure), ts))))"

section \<open>The server\<close>

text \<open>A registered connection has the number of its entry. A remote job is registered, its request is
  sent, over the connection it was registered for, if that is still current (else the job is removed again), and it is removed
  when the request ends, cancelling the agent's side unless a verified result arrived; \<open>sv_sent\<close>
  records, for the proofs, over which entry a job's request went out. \<open>Upload_Op\<close> is any step of an
  upload or of a browser's receivers.\<close>

record agent_server =
  sv_agents :: agent_registry
  sv_jobs :: job_machine
  sv_pending :: "(agent_handshake \<times> key_identity option \<times> string) list"
  sv_channels :: "agent_channel list"
  sv_sent :: "(nat \<times> nat) list"

record server_env =
  se_admission :: admission
  se_render :: "json \<Rightarrow> string option"
  se_hello :: string

datatype server_op =
    Upgrade "string + key_identity option" upgrade_headers string
  | Enter nat bool nat
  | Turn nat nat bool turn_event
  | Leave nat
  | Delete_Key i64
  | Probe nat
  | Start_Job nat string string u64
  | Send_Request nat string string server_message
  | End_Request nat string string bool
  | Upload_Op job_op

fun upload_op :: "job_op \<Rightarrow> bool" where
  "upload_op (Begin_Upload job token) = True"
| "upload_op (Send_Chunk i chunk) = True"
| "upload_op (End_Upload i) = True"
| "upload_op (Fail_Upload i reason) = True"
| "upload_op (Drop_Upload i) = True"
| "upload_op (Close_Receivers i b u r) = True"
| "upload_op _ = False"

definition server_new :: agent_server where
  "server_new = \<lparr>sv_agents = agents_new, sv_jobs = jobs_new, sv_pending = [], sv_channels = [], sv_sent = []\<rparr>"

definition server_turn :: "server_env \<Rightarrow> nat \<Rightarrow> nat \<Rightarrow> bool \<Rightarrow> turn_event \<Rightarrow> agent_server \<Rightarrow> agent_server" where
  "server_turn env i now ok t sv =
     (if \<not> (i < length (sv_channels sv) \<and> ch_phase (sv_channels sv ! i) = Serving) then sv
      else case conn_turn (se_render env) (ad_parse (se_admission env)) now ok t
                (entry (sv_agents sv) i, sv_channels sv ! i, sv_jobs sv) of
        (e, ch, m) \<Rightarrow> sv\<lparr>sv_agents := at_entry i (\<lambda>_. e) (sv_agents sv), sv_jobs := m,
                        sv_channels := (sv_channels sv)[i := ch]\<rparr>)"

text \<open>The teardown after the loop: out of the registry, then the jobs are told, then the queue goes.\<close>

definition server_leave :: "nat \<Rightarrow> agent_server \<Rightarrow> agent_server" where
  "server_leave i sv =
     (if \<not> i < length (sv_channels sv) then sv
      else let c = connection_id_of (entry (sv_agents sv) i);
               ch = sv_channels sv ! i
      in case ch_phase ch of
           Serving \<Rightarrow> sv
         | Leaving \<Rightarrow> sv\<lparr>sv_agents := snd (agents_remove c (sv_agents sv)),
                        sv_channels := (sv_channels sv)[i := ch\<lparr>ch_phase := Removed\<rparr>]\<rparr>
         | Removed \<Rightarrow> sv\<lparr>sv_jobs := job_step (sv_jobs sv) (Agent_Gone c),
                        sv_agents := at_entry i (\<lambda>e. e\<lparr>ae_receiver := False\<rparr>) (sv_agents sv),
                        sv_channels := (sv_channels sv)[i := ch\<lparr>ch_phase := Closed\<rparr>]\<rparr>
         | Closed \<Rightarrow> sv)"

definition server_enter :: "server_env \<Rightarrow> nat \<Rightarrow> bool \<Rightarrow> nat \<Rightarrow> agent_server \<Rightarrow> agent_server" where
  "server_enter env n ok now sv =
     (if \<not> n < length (sv_pending sv) then sv
      else case sv_pending sv ! n of (h, key, remote) \<Rightarrow>
        let sv = sv\<lparr>sv_pending := take n (sv_pending sv) @ drop (Suc n) (sv_pending sv)\<rparr>
        in if \<not> ok then sv
           else case agents_register h key remote now (sv_agents sv) of
             (Inl _, reg) \<Rightarrow> sv\<lparr>sv_agents := reg\<rparr>
           | (Inr i, reg) \<Rightarrow> sv\<lparr>sv_agents := reg,
               sv_channels := sv_channels sv @ [channel_new (Ws_Text (se_hello env))]\<rparr>)"

definition server_send :: "nat \<Rightarrow> string \<Rightarrow> string \<Rightarrow> server_message \<Rightarrow> agent_server \<Rightarrow> agent_server" where
  "server_send i job token message sv =
     (case map_of (ts_map (jm_tasks (sv_jobs sv))) job of
        None \<Rightarrow> sv
      | Some j \<Rightarrow>
          if \<not> owned_by (connection_id_of (entry (sv_agents sv) i)) (ts_store (jm_tasks (sv_jobs sv)) ! j) then sv
          else case try_send_current i message (sv_agents sv) of
            (Inl _, reg) \<Rightarrow> sv\<lparr>sv_jobs := job_step (sv_jobs sv) (Remove_Job job token)\<rparr>
          | (Inr _, reg) \<Rightarrow> sv\<lparr>sv_agents := reg, sv_sent := (j, i) # sv_sent sv\<rparr>)"

definition server_end :: "nat \<Rightarrow> string \<Rightarrow> string \<Rightarrow> bool \<Rightarrow> agent_server \<Rightarrow> agent_server" where
  "server_end i job token cancel_on_drop sv =
     sv\<lparr>sv_agents := (if cancel_on_drop
         then (case try_send (Cancel_Pcap job token) (entry (sv_agents sv) i) of
                 Inl _ \<Rightarrow> sv_agents sv | Inr e \<Rightarrow> at_entry i (\<lambda>_. e) (sv_agents sv))
         else sv_agents sv),
        sv_jobs := job_step (sv_jobs sv) (Remove_Job job token)\<rparr>"

fun server_step :: "server_env \<Rightarrow> agent_server \<Rightarrow> server_op \<Rightarrow> agent_server" where
  "server_step env sv (Upgrade verified h remote) =
     (case websocket (se_admission env) (\<lambda>_. verified) h of
        Inl _ \<Rightarrow> sv
      | Inr (hs, key) \<Rightarrow> sv\<lparr>sv_pending := sv_pending sv @ [(hs, key, remote)]\<rparr>)"
| "server_step env sv (Enter n ok now) = server_enter env n ok now sv"
| "server_step env sv (Turn i now ok t) = server_turn env i now ok t sv"
| "server_step env sv (Leave i) = server_leave i sv"
| "server_step env sv (Delete_Key key_id) = sv\<lparr>sv_agents := snd (revoke_key key_id (sv_agents sv))\<rparr>"
| "server_step env sv (Probe i) =
     (if i < length (sv_channels sv)
      then sv\<lparr>sv_agents := at_entry i (\<lambda>e. snd (probe_start e)) (sv_agents sv)\<rparr> else sv)"
| "server_step env sv (Start_Job i job token max_bytes) =
     (if i < length (sv_channels sv)
      then sv\<lparr>sv_jobs := job_step (sv_jobs sv) (Register_Job job token (ae_name (entry (sv_agents sv) i))
             (ae_generation (entry (sv_agents sv) i)) max_bytes)\<rparr> else sv)"
| "server_step env sv (Send_Request i job token message) =
     (if i < length (sv_channels sv) then server_send i job token message sv else sv)"
| "server_step env sv (End_Request i job token cancel_on_drop) =
     (if i < length (sv_channels sv) then server_end i job token cancel_on_drop sv else sv)"
| "server_step env sv (Upload_Op e) = (if upload_op e then sv\<lparr>sv_jobs := job_step (sv_jobs sv) e\<rparr> else sv)"

end
