(* ===== verification/Agent_Server.thy ===== *)
theory Agent_Server
  imports Agent_Control
begin

text \<open>
  What the server keeps true over every interleaving of upgrades, registrations, turns, teardowns,
  key deletions and dispatches (\<open>Agent_Control.server_step\<close>): one live connection per name, no
  connection on a deleted key, and no job left waiting for a connection that is gone.
\<close>

section \<open>Effects of a turn\<close>

lemma deliver_text_effect:
  "deliver_text parse c s m = (d, m') \<Longrightarrow> m' = m \<or> (\<exists>msg. m' = job_step m (Agent_Says c msg))"
  by (auto simp: deliver_text_def split: option.splits agent_message.splits)

lemma ch_send_phase [simp]: "ch_phase (ch_send ok f ch) = (if ok then ch_phase ch else Leaving)"
  by (simp add: ch_send_def)

definition turn_effect :: "agent_entry \<times> agent_channel \<times> job_machine \<Rightarrow> agent_entry \<times> agent_channel \<times> job_machine \<Rightarrow> bool" where
  "turn_effect s s' \<longleftrightarrow> (case (s, s') of ((e, ch, m), (e', ch', m')) \<Rightarrow>
     same_agent e e' \<and> ae_shutdown e' = ae_shutdown e \<and> (ch_phase ch' = ch_phase ch \<or> ch_phase ch' = Leaving)
     \<and> (m' = m \<or> (\<exists>msg. m' = job_step m (Agent_Says (connection_id_of e) msg))))"

lemma shutdown_ops [simp]:
  "ae_shutdown (touch now e) = ae_shutdown e" "ae_shutdown (set_rtt r e) = ae_shutdown e"
  "ae_shutdown (pong_received e) = ae_shutdown e" "connection_id_of (touch now e) = connection_id_of e"
  "same_agent e (e\<lparr>ae_outbound := q\<rparr>)" "same_agent e (e\<lparr>ae_ping_request := b\<rparr>)" "same_agent e (e\<lparr>ae_receiver := b\<rparr>)"
  by (simp_all add: touch_def set_rtt_def pong_received_def connection_id_of_def same_agent_def)

lemma same_pong [simp]: "same_agent e (pong_received (touch now e))" "same_agent e (set_rtt r (pong_received (touch now e)))"
  by (simp_all add: touch_def set_rtt_def pong_received_def same_agent_def)

lemma take_frame_effect: "turn_effect s (take_frame parse now ok f s)"
proof (cases s)
  case (fields e ch m)
  show ?thesis
  proof (cases f)
    case (Ws_Text str)
    obtain d m' where d: "deliver_text parse (connection_id_of e) str m = (d, m')" by fastforce
    from deliver_text_effect [OF this] d show ?thesis
      unfolding fields Ws_Text by (cases d) (auto simp: turn_effect_def)
  qed (simp_all add: fields turn_effect_def Let_def split: option.splits)
qed

lemma conn_turn_effect: "turn_effect s (conn_turn render parse now ok t s)"
proof (cases s)
  case (fields e ch m)
  show ?thesis
  proof (cases t)
    case (On_Incoming f)
    then show ?thesis by (cases f) (simp add: take_frame_effect, simp_all add: fields turn_effect_def)
  qed (simp_all add: fields turn_effect_def Let_def split: list.splits option.splits)
qed

section \<open>Effects of an operation on jobs\<close>

lemma task_move_owner: "task_move t t' \<Longrightarrow> owned_by c t' = owned_by c t"
  by (erule task_moveE) (auto simp: owned_by_def publish_def send_result_def fail_task_def close_receivers_def)

lemma task_move_result: "task_move t t' \<Longrightarrow> \<not> tk_result_tx t \<Longrightarrow> \<not> tk_result_tx t'"
  by (erule task_moveE) (auto simp: publish_def send_result_def fail_task_def close_receivers_def)

lemma end_sink_map:
  "(\<And>s ts. ts_map (f s ts) = ts_map ts) \<Longrightarrow> ts_map (jm_tasks (end_sink i f m)) = ts_map (jm_tasks m)"
  by (simp add: end_sink_def split: option.splits)

lemma upload_maps [simp]:
  "ts_map (upload_complete s ts) = ts_map ts" "ts_map (upload_fail r s ts) = ts_map ts" "ts_map (upload_drop s ts) = ts_map ts"
  by (simp_all add: upload_complete_def upload_fail_def upload_drop_def)

lemma begin_upload_map [simp]: "ts_map (snd (begin_upload job token ts)) = ts_map ts"
  by (simp add: begin_upload_def Let_def split: option.splits)

lemma sink_send_map [simp]: "ts_map (snd (sink_send chunk s ts)) = ts_map ts"
  by (simp add: sink_send_def Let_def split: option.splits)

lemma task_message_map [simp]: "ts_map (task_message c msg ts) = ts_map ts"
  by (simp add: task_message_def deliver_result_def split: option.splits agent_message.splits)

lemma job_step_map:
  assumes "(k, j) \<in> set (ts_map (jm_tasks (job_step m e)))"
  shows "(k, j) \<in> set (ts_map (jm_tasks m)) \<or> j = length (ts_store (jm_tasks m))"
proof (cases e)
  case (Begin_Upload job token)
  obtain r ts where b: "begin_upload job token (jm_tasks m) = (r, ts)" by fastforce
  with begin_upload_map [of job token "jm_tasks m"] have "ts_map ts = ts_map (jm_tasks m)" by simp
  then show ?thesis using assms Begin_Upload b by (auto split: option.splits)
next
  case (Send_Chunk i chunk)
  show ?thesis
  proof (cases "jm_sinks m i")
    case (Some s)
    obtain r ts where b: "sink_send chunk s (jm_tasks m) = (r, ts)" by fastforce
    with sink_send_map [of chunk s "jm_tasks m"] have "ts_map ts = ts_map (jm_tasks m)" by simp
    then show ?thesis using assms Send_Chunk Some b by (auto split: sum.splits if_splits)
  qed (use assms Send_Chunk in simp)
qed (use assms in \<open>auto simp: task_register_def task_remove_def end_sink_map split: option.splits if_splits\<close>)

section \<open>Effects of an operation on the registry\<close>

text \<open>The ways in which one step changes the registry and the phases of the connections.\<close>

definition phase_step :: "phase \<Rightarrow> phase \<Rightarrow> bool" where
  "phase_step p q \<longleftrightarrow> q = p \<or> (p = Serving \<and> q = Leaving) \<or> (p = Removed \<and> q = Closed)"

inductive reg_move :: "agent_registry \<Rightarrow> phase list \<Rightarrow> agent_registry \<Rightarrow> phase list \<Rightarrow> bool" where
  move_entries: "ar_agents reg' = ar_agents reg \<Longrightarrow> ar_next_generation reg' = ar_next_generation reg \<Longrightarrow>
    ar_revoked reg' = ar_revoked reg \<Longrightarrow> length (ar_entries reg') = length (ar_entries reg) \<Longrightarrow>
    (\<And>i. i < length (ar_entries reg) \<Longrightarrow> same_agent (entry reg i) (entry reg' i)) \<Longrightarrow>
    list_all2 phase_step ps ps' \<Longrightarrow> reg_move reg ps reg' ps'"
| move_register: "agents_register h key remote now reg = (Inr i, reg') \<Longrightarrow> reg_move reg ps reg' (ps @ [Serving])"
| move_remove: "i < length ps \<Longrightarrow> ps ! i = Leaving \<Longrightarrow>
    reg_move reg ps (snd (agents_remove (connection_id_of (entry reg i)) reg)) (ps[i := Removed])"
| move_revoke: "reg_move reg ps (snd (revoke_key key_id reg)) ps"

inductive_cases reg_moveE: "reg_move reg ps reg' ps'"

definition phases :: "agent_server \<Rightarrow> phase list" where
  "phases sv = map ch_phase (sv_channels sv)"

lemma phase_step_refl [simp]: "phase_step p p"
  by (simp add: phase_step_def)

lemma phases_refl [simp]: "list_all2 phase_step ps ps"
  by (simp add: list_all2_refl)

lemma phases_update:
  "i < length ps \<Longrightarrow> phase_step (ps ! i) q \<Longrightarrow> list_all2 phase_step ps (ps[i := q])"
  by (simp add: list_all2_conv_all_nth nth_list_update)

lemma move_at_entry:
  assumes "same_agent (entry reg i) (f (entry reg i))" and "list_all2 phase_step ps ps'"
  shows "reg_move reg ps (at_entry i f reg) ps'"
  by (rule move_entries) (simp_all add: entry_at_entry assms)

lemma move_refl: "reg_move reg ps reg ps"
  by (rule move_entries) simp_all

lemma turn_move:
  "reg_move (sv_agents sv) (phases sv) (sv_agents (server_turn env i now ok t sv)) (phases (server_turn env i now ok t sv))"
proof (cases "i < length (sv_channels sv) \<and> ch_phase (sv_channels sv ! i) = Serving")
  case True
  obtain e ch m where r: "conn_turn (se_render env) (ad_parse (se_admission env)) now ok t
      (entry (sv_agents sv) i, sv_channels sv ! i, sv_jobs sv) = (e, ch, m)" by (cases "conn_turn (se_render env) (ad_parse (se_admission env)) now ok t
      (entry (sv_agents sv) i, sv_channels sv ! i, sv_jobs sv)") auto
  from conn_turn_effect [of "(entry (sv_agents sv) i, sv_channels sv ! i, sv_jobs sv)" "se_render env" "ad_parse (se_admission env)" now ok t] r
  have "same_agent (entry (sv_agents sv) i) e" "ch_phase ch = Serving \<or> ch_phase ch = Leaving"
    using True by (auto simp: turn_effect_def)
  then show ?thesis using True r
    by (auto simp: server_turn_def phases_def map_update phase_step_def intro!: move_at_entry phases_update)
qed (simp add: server_turn_def move_refl)

lemma leave_move:
  "reg_move (sv_agents sv) (phases sv) (sv_agents (server_leave i sv)) (phases (server_leave i sv))"
proof (cases "i < length (sv_channels sv)")
  case True
  then have p: "i < length (phases sv)" "phases sv ! i = ch_phase (sv_channels sv ! i)" by (simp_all add: phases_def)
  show ?thesis
  proof (cases "ch_phase (sv_channels sv ! i)")
    case Leaving
    then show ?thesis using True move_remove [of i "phases sv" "sv_agents sv"] p
      by (simp add: server_leave_def Let_def phases_def map_update)
  next
    case Removed
    have "reg_move (sv_agents sv) (phases sv) (at_entry i (\<lambda>e. e\<lparr>ae_receiver := False\<rparr>) (sv_agents sv)) ((phases sv)[i := Closed])"
      using Removed p by (intro move_at_entry phases_update) (simp_all add: phase_step_def)
    then show ?thesis using True Removed by (simp add: server_leave_def Let_def phases_def map_update)
  qed (use True in \<open>simp_all add: server_leave_def Let_def move_refl\<close>)
qed (simp add: server_leave_def move_refl)

lemma enter_move:
  "reg_move (sv_agents sv) (phases sv) (sv_agents (server_enter env n ok now sv)) (phases (server_enter env n ok now sv))"
proof (cases "n < length (sv_pending sv) \<and> ok")
  case True
  obtain h key remote where q: "sv_pending sv ! n = (h, key, remote)" by (cases "sv_pending sv ! n") auto
  obtain r reg where r: "agents_register h key remote now (sv_agents sv) = (r, reg)" by fastforce
  show ?thesis
  proof (cases r)
    case (Inl e)
    then show ?thesis using True q r register_Inl [of h key remote now "sv_agents sv" e reg]
      by (simp add: server_enter_def phases_def move_refl)
  next
    case (Inr i)
    then show ?thesis using True q r move_register [of h key remote now "sv_agents sv" i reg]
      by (simp add: server_enter_def phases_def channel_new_def)
  qed
qed (auto simp: server_enter_def phases_def move_refl Let_def split: prod.splits)

lemma send_move:
  "reg_move (sv_agents sv) (phases sv) (sv_agents (server_send i job token message sv)) (phases (server_send i job token message sv))"
  by (auto simp: server_send_def try_send_current_def phases_def Let_def move_refl
    split: option.splits sum.splits intro!: move_at_entry dest: try_send_same)

lemma end_move:
  "reg_move (sv_agents sv) (phases sv) (sv_agents (server_end i job token c sv)) (phases (server_end i job token c sv))"
  by (auto simp: server_end_def phases_def move_refl split: sum.splits intro!: move_at_entry dest: try_send_same)

lemma server_step_move:
  "reg_move (sv_agents sv) (phases sv) (sv_agents (server_step env sv op)) (phases (server_step env sv op))"
proof (cases op)
  case (Probe i)
  then show ?thesis using move_at_entry [where f = "\<lambda>e. snd (probe_start e)" and reg = "sv_agents sv" and i = i and ps = "phases sv"]
    by (simp add: phases_def move_refl)
next
  case (Delete_Key key_id)
  then show ?thesis using move_revoke by (simp add: phases_def)
qed (auto simp: turn_move leave_move enter_move send_move end_move move_refl phases_def [of "_\<lparr>sv_jobs := _\<rparr>"]
    phases_def [of "_\<lparr>sv_pending := _\<rparr>"] phases_def [symmetric] split: sum.splits)

section \<open>Connections and phases\<close>

text \<open>A connection that is being served or about to leave is the current one of its name or was
  cancelled, and one that left the registry is not current. Both hold until the generations wrap.\<close>

definition phases_ok :: "agent_registry \<Rightarrow> phase list \<Rightarrow> bool" where
  "phases_ok reg ps \<longleftrightarrow> length ps = length (ar_entries reg) \<and> (length ps < 2 ^ 64 - 1 \<longrightarrow>
     (\<forall>i < length ps.
        (ps ! i \<in> {Serving, Leaving} \<longrightarrow> current_at i reg \<or> ae_shutdown (entry reg i))
        \<and> (ps ! i \<in> {Removed, Closed} \<longrightarrow> \<not> current_at i reg)))"

lemma reg_move_ok: "reg_move reg ps reg' ps' \<Longrightarrow> reg_ok reg \<Longrightarrow> reg_ok reg'"
  by (erule reg_moveE) (auto intro: reg_ok_same reg_ok_register reg_ok_remove reg_ok_revoke)

lemma reg_ok_name: "reg_ok reg \<Longrightarrow> (k, i) \<in> set (ar_agents reg) \<Longrightarrow> i < length (ar_entries reg) \<and> ae_name (entry reg i) = k"
  by (auto simp: reg_ok_def)

lemma current_register:
  assumes "reg_ok reg" and "agents_register h key remote now reg = (Inr i, reg')"
  shows "current_at j reg' \<longleftrightarrow> j = i \<or> (current_at j reg \<and> map_of (ar_agents reg) (hs_name h) \<noteq> Some j)"
proof -
  have d: "distinct (map fst (ar_agents reg))" using assms(1) by (simp add: reg_ok_def)
  have "current_at j reg' \<longleftrightarrow> (\<exists>k. (k, j) \<in> set (AList.update (hs_name h) i (ar_agents reg)))"
    using register_Inr(3) [OF assms(2)] by (force simp: current_at_def)
  also have "\<dots> \<longleftrightarrow> j = i \<or> (\<exists>k. k \<noteq> hs_name h \<and> (k, j) \<in> set (ar_agents reg))"
    unfolding set_update_agents [OF d] by (auto split: if_splits)
  also have "\<dots> \<longleftrightarrow> j = i \<or> (current_at j reg \<and> map_of (ar_agents reg) (hs_name h) \<noteq> Some j)"
  proof -
    have "k = hs_name h" if "(k, j) \<in> set (ar_agents reg)" "map_of (ar_agents reg) (hs_name h) = Some j" for k
      using reg_ok_name [OF assms(1) that(1)] reg_ok_map [OF assms(1) that(2)] by simp
    moreover have "map_of (ar_agents reg) k = Some j" if "(k, j) \<in> set (ar_agents reg)" for k
      using that d by simp
    moreover have "current_at j reg \<longleftrightarrow> (\<exists>k. (k, j) \<in> set (ar_agents reg))" by (force simp: current_at_def)
    ultimately show ?thesis by metis
  qed
  finally show ?thesis .
qed

lemma current_remove:
  assumes "reg_ok reg" and "i < length (ar_entries reg)" and "length (ar_entries reg) < 2 ^ 64 - 1"
  shows "current_at j (snd (agents_remove (connection_id_of (entry reg i)) reg)) \<longleftrightarrow> current_at j reg \<and> j \<noteq> i"
proof (cases "current_at i reg")
  case True
  have d: "distinct (map fst (ar_agents reg))" using assms(1) by (simp add: reg_ok_def)
  obtain k where k: "(k, i) \<in> set (ar_agents reg)" using True by (auto simp: current_at_def)
  then have name: "ae_name (entry reg i) = k" using reg_ok_name [OF assms(1)] by blast
  have "current_at j (snd (agents_remove (connection_id_of (entry reg i)) reg)) \<longleftrightarrow>
      (\<exists>l. (l, j) \<in> set (AList.delete k (ar_agents reg)))"
    using True is_current_iff [OF assms] name
    by (force simp: agents_remove_def connection_id_of_def current_at_def)
  also have "\<dots> \<longleftrightarrow> (\<exists>l. l \<noteq> k \<and> (l, j) \<in> set (ar_agents reg))"
    unfolding set_delete_agents [OF d] by blast
  also have "\<dots> \<longleftrightarrow> current_at j reg \<and> j \<noteq> i"
  proof -
    have "l = k" if "(l, i) \<in> set (ar_agents reg)" for l
      using reg_ok_name [OF assms(1) that] name by simp
    moreover have "j = i" if "(k, j) \<in> set (ar_agents reg)" using that k d by (metis map_of_is_SomeI option.inject)
    ultimately show ?thesis by (force simp: current_at_def)
  qed
  finally show ?thesis .
next
  case False
  then show ?thesis using is_current_iff [OF assms] by (auto simp: agents_remove_def)
qed

lemma phases_entries:
  assumes "phases_ok reg ps" and "ar_agents reg' = ar_agents reg" and "length (ar_entries reg') = length (ar_entries reg)"
    and "\<And>i. i < length (ar_entries reg) \<Longrightarrow> same_agent (entry reg i) (entry reg' i)" and "list_all2 phase_step ps ps'"
  shows "phases_ok reg' ps'"
proof -
  have c: "current_at i reg' = current_at i reg" for i using assms(2) by (simp add: current_at_def)
  have "length ps' = length ps" "\<And>i. i < length ps \<Longrightarrow> phase_step (ps ! i) (ps' ! i)"
    using assms(5) by (auto simp: list_all2_conv_all_nth)
  then show ?thesis using assms(1,3,4) c
    by (fastforce simp: phases_ok_def phase_step_def same_agent_def)
qed

lemma phases_register:
  assumes "phases_ok reg ps" and "reg_ok reg" and "agents_register h key remote now reg = (Inr i, reg')"
  shows "phases_ok reg' (ps @ [Serving])"
proof -
  note r = register_Inr [OF assms(3)] and cur = current_register [OF assms(2,3)]
  have len: "length ps = i" using assms(1) r(1) by (simp add: phases_ok_def)
  have "((ps @ [Serving]) ! j \<in> {Serving, Leaving} \<longrightarrow> current_at j reg' \<or> ae_shutdown (entry reg' j))
      \<and> ((ps @ [Serving]) ! j \<in> {Removed, Closed} \<longrightarrow> \<not> current_at j reg')"
    if b: "Suc i < 2 ^ 64 - 1" and j: "j < Suc i" for j
  proof (cases "j = i")
    case True
    then show ?thesis using len cur by (simp add: nth_append)
  next
    case False
    then have "j < length ps" "length ps < 2 ^ 64 - 1" using b j len by auto
    then have "(ps ! j \<in> {Serving, Leaving} \<longrightarrow> current_at j reg \<or> ae_shutdown (entry reg j))
        \<and> (ps ! j \<in> {Removed, Closed} \<longrightarrow> \<not> current_at j reg)"
      using assms(1) by (simp add: phases_ok_def)
    then show ?thesis using False j len r(7) [of j] cur [of j] by (auto simp: nth_append cancel_def)
  qed
  then show ?thesis using len r(2) by (simp add: phases_ok_def)
qed

lemma phases_remove:
  assumes "phases_ok reg ps" and "reg_ok reg" and "i < length ps"
  shows "phases_ok (snd (agents_remove (connection_id_of (entry reg i)) reg)) (ps[i := Removed])"
proof -
  let ?reg = "snd (agents_remove (connection_id_of (entry reg i)) reg)"
  have len: "length ps = length (ar_entries reg)" using assms(1) by (simp add: phases_ok_def)
  have e: "ar_entries ?reg = ar_entries reg" by (simp add: agents_remove_def)
  then have e': "entry ?reg j = entry reg j" for j by (simp add: entry_def)
  have c: "current_at j ?reg \<longleftrightarrow> current_at j reg \<and> j \<noteq> i" if "length ps < 2 ^ 64 - 1" for j
    using current_remove [OF assms(2), of i j] that assms(3) len by simp
  show ?thesis
    unfolding phases_ok_def using assms(1,3) len e e' c by (auto simp: phases_ok_def nth_list_update)
qed

lemma phases_revoke: "phases_ok reg ps \<Longrightarrow> phases_ok (snd (revoke_key key_id reg)) ps"
  by (erule phases_entries) (simp_all add: revoke_entry phases_refl)

lemma reg_move_phases: "reg_move reg ps reg' ps' \<Longrightarrow> reg_ok reg \<Longrightarrow> phases_ok reg ps \<Longrightarrow> phases_ok reg' ps'"
  by (erule reg_moveE) (auto intro: phases_entries phases_register phases_remove phases_revoke)

definition live_ok :: "agent_server \<Rightarrow> bool" where
  "live_ok sv \<longleftrightarrow> reg_ok (sv_agents sv) \<and> phases_ok (sv_agents sv) (phases sv)"

interpretation live: invariant_machine "server_step env" live_ok for env
  by unfold_locales (use server_step_move reg_move_ok reg_move_phases in \<open>unfold live_ok_def, blast\<close>)

lemma server_new_live: "live_ok server_new"
  by (simp add: live_ok_def server_new_def agents_new_def reg_ok_def phases_ok_def phases_def)

section \<open>Jobs and connections\<close>

text \<open>A job whose request went out belongs to its connection, and once that is closed the job has its
  result, unless its request ended before.\<close>

definition job_settled :: "nat \<Rightarrow> agent_server \<Rightarrow> bool" where
  "job_settled j sv \<longleftrightarrow> j \<in> snd ` set (ts_map (jm_tasks (sv_jobs sv))) \<longrightarrow>
     \<not> tk_result_tx (ts_store (jm_tasks (sv_jobs sv)) ! j)"

definition sent_ok :: "agent_server \<Rightarrow> bool" where
  "sent_ok sv \<longleftrightarrow> (\<forall>(j, i) \<in> set (sv_sent sv).
     i < length (sv_channels sv) \<and> j < length (ts_store (jm_tasks (sv_jobs sv)))
     \<and> owned_by (connection_id_of (entry (sv_agents sv) i)) (ts_store (jm_tasks (sv_jobs sv)) ! j)
     \<and> (length (sv_channels sv) < 2 ^ 64 - 1 \<longrightarrow> phases sv ! i = Closed \<longrightarrow> job_settled j sv))"

text \<open>Steps of the jobs keep it, as do moves of the registry that close no connection.\<close>

definition job_moves :: "job_machine \<Rightarrow> job_machine \<Rightarrow> bool" where
  "job_moves m m' \<longleftrightarrow> length (ts_store (jm_tasks m)) \<le> length (ts_store (jm_tasks m'))
     \<and> (\<forall>j < length (ts_store (jm_tasks m)).
          task_move (ts_store (jm_tasks m) ! j) (ts_store (jm_tasks m') ! j)
          \<and> (j \<in> snd ` set (ts_map (jm_tasks m')) \<longrightarrow> j \<in> snd ` set (ts_map (jm_tasks m))))"

lemma job_moves_refl [simp]: "job_moves m m"
  by (simp add: job_moves_def move_none)

lemma job_step_moves: "job_moves m (job_step m e)"
proof -
  have "j \<in> snd ` set (ts_map (jm_tasks m))"
    if "j < length (ts_store (jm_tasks m))" "(k, j) \<in> set (ts_map (jm_tasks (job_step m e)))" for j k
    using job_step_map [OF that(2)] that(1) by force
  then show ?thesis using job_step_length [of m e] job_step_move [of _ m e] by (auto simp: job_moves_def)
qed

lemma same_connection: "same_agent e e' \<Longrightarrow> connection_id_of e' = connection_id_of e"
  by (simp add: same_agent_def connection_id_of_def)

lemma sent_ok_moves:
  assumes "sent_ok sv" and "job_moves (sv_jobs sv) (sv_jobs sv')" and "set (sv_sent sv') \<subseteq> set (sv_sent sv)"
    and "length (sv_channels sv) \<le> length (sv_channels sv')"
    and "\<And>i. i < length (sv_channels sv) \<Longrightarrow> same_agent (entry (sv_agents sv) i) (entry (sv_agents sv') i)"
    and "\<And>i. i < length (sv_channels sv) \<Longrightarrow> phases sv' ! i = Closed \<Longrightarrow> phases sv ! i = Closed"
  shows "sent_ok sv'"
proof -
  have "i < length (sv_channels sv') \<and> j < length (ts_store (jm_tasks (sv_jobs sv')))
     \<and> owned_by (connection_id_of (entry (sv_agents sv') i)) (ts_store (jm_tasks (sv_jobs sv')) ! j)
     \<and> (length (sv_channels sv') < 2 ^ 64 - 1 \<longrightarrow> phases sv' ! i = Closed \<longrightarrow> job_settled j sv')"
    if "(j, i) \<in> set (sv_sent sv')" for j i
  proof -
    have s: "i < length (sv_channels sv)" "j < length (ts_store (jm_tasks (sv_jobs sv)))"
      "owned_by (connection_id_of (entry (sv_agents sv) i)) (ts_store (jm_tasks (sv_jobs sv)) ! j)"
      "length (sv_channels sv) < 2 ^ 64 - 1 \<Longrightarrow> phases sv ! i = Closed \<Longrightarrow> job_settled j sv"
      using that assms(1,3) by (auto simp: sent_ok_def)
    have m: "task_move (ts_store (jm_tasks (sv_jobs sv)) ! j) (ts_store (jm_tasks (sv_jobs sv')) ! j)"
      "j \<in> snd ` set (ts_map (jm_tasks (sv_jobs sv'))) \<Longrightarrow> j \<in> snd ` set (ts_map (jm_tasks (sv_jobs sv)))"
      "length (ts_store (jm_tasks (sv_jobs sv))) \<le> length (ts_store (jm_tasks (sv_jobs sv')))"
      using assms(2) s(2) by (auto simp: job_moves_def)
    have "job_settled j sv \<Longrightarrow> job_settled j sv'"
      using m task_move_result [OF m(1)] by (auto simp: job_settled_def)
    then show ?thesis
      using s m(3) assms(4) assms(6) [OF s(1)] task_move_owner [OF m(1)] same_connection [OF assms(5) [OF s(1)]]
      by simp
  qed
  then show ?thesis by (auto simp: sent_ok_def)
qed

text \<open>What a move leaves in place.\<close>

lemma reg_move_same:
  assumes "reg_move reg ps reg' ps'" and "i < length ps" and "length ps = length (ar_entries reg)"
  shows "same_agent (entry reg i) (entry reg' i)" "length ps \<le> length ps'"
    "ps' ! i = Closed \<Longrightarrow> ps ! i = Closed \<or> ps ! i = Removed"
proof -
  have "same_agent (entry reg i) (entry reg' i) \<and> length ps \<le> length ps'
      \<and> (ps' ! i = Closed \<longrightarrow> ps ! i = Closed \<or> ps ! i = Removed)"
    using assms(1)
  proof (rule reg_moveE)
    assume "list_all2 phase_step ps ps'" "\<And>i. i < length (ar_entries reg) \<Longrightarrow> same_agent (entry reg i) (entry reg' i)"
    then show ?thesis using assms(2,3) by (auto simp: list_all2_conv_all_nth phase_step_def)
  next
    fix h key remote now n
    assume r: "ps' = ps @ [Serving]" "agents_register h key remote now reg = (Inr n, reg')"
    have "i < n" using register_Inr(1) [OF r(2)] assms(2,3) by simp
    then show ?thesis using r(1) register_Inr(7) [OF r(2), of i] assms(2) by (auto simp: nth_append)
  next
    fix j
    assume "reg' = snd (agents_remove (connection_id_of (entry reg j)) reg)" "ps' = ps[j := Removed]"
    then show ?thesis using assms(2) by (cases "i = j") (auto simp: agents_remove_def entry_def)
  qed (use assms(2,3) revoke_entry in auto)
  then show "same_agent (entry reg i) (entry reg' i)" "length ps \<le> length ps'"
    "ps' ! i = Closed \<Longrightarrow> ps ! i = Closed \<or> ps ! i = Removed" by auto
qed

lemma turn_jobs: "job_moves (sv_jobs sv) (sv_jobs (server_turn env i now ok t sv))"
proof -
  let ?s = "(entry (sv_agents sv) i, sv_channels sv ! i, sv_jobs sv)"
  obtain e ch m where r: "conn_turn (se_render env) (ad_parse (se_admission env)) now ok t ?s = (e, ch, m)"
    by (cases "conn_turn (se_render env) (ad_parse (se_admission env)) now ok t ?s") auto
  have "job_moves (sv_jobs sv) m"
    using conn_turn_effect [of ?s "se_render env" "ad_parse (se_admission env)" now ok t] r job_step_moves
    by (auto simp: turn_effect_def simp del: job_step.simps)
  then show ?thesis using r by (simp add: server_turn_def)
qed

lemma server_step_jobs: "job_moves (sv_jobs sv) (sv_jobs (server_step env sv op))"
  by (cases op) (auto simp: turn_jobs server_enter_def server_leave_def server_send_def server_end_def Let_def job_step_moves
    simp del: job_step.simps split: sum.splits option.splits prod.splits phase.splits)

lemma server_step_sent: "(\<And>i job token m. op \<noteq> Send_Request i job token m) \<Longrightarrow> sv_sent (server_step env sv op) = sv_sent sv"
  by (cases op) (auto simp: server_turn_def server_enter_def server_leave_def server_end_def Let_def
    split: sum.splits option.splits prod.splits phase.splits)

lemma turn_closes:
  assumes "phases (server_turn env i now ok t sv) ! j = Closed"
  shows "phases sv ! j = Closed"
proof (cases "i < length (sv_channels sv) \<and> ch_phase (sv_channels sv ! i) = Serving")
  case True
  let ?s = "(entry (sv_agents sv) i, sv_channels sv ! i, sv_jobs sv)"
  obtain e ch m where r: "conn_turn (se_render env) (ad_parse (se_admission env)) now ok t ?s = (e, ch, m)"
    by (cases "conn_turn (se_render env) (ad_parse (se_admission env)) now ok t ?s") auto
  then have "ch_phase ch \<noteq> Closed"
    using conn_turn_effect [of ?s "se_render env" "ad_parse (se_admission env)" now ok t] True by (auto simp: turn_effect_def)
  then show ?thesis using assms True r by (cases "i = j") (auto simp: server_turn_def phases_def map_update)
qed (use assms in \<open>simp add: server_turn_def\<close>)

lemma enter_closes:
  "j < length (sv_channels sv) \<Longrightarrow> phases (server_enter env n ok now sv) ! j = Closed \<Longrightarrow> phases sv ! j = Closed"
  by (auto simp: server_enter_def phases_def Let_def nth_append split: prod.splits sum.splits if_splits)

lemma server_step_closes:
  assumes "j < length (sv_channels sv)" and "\<And>i. op \<noteq> Leave i" and "phases (server_step env sv op) ! j = Closed"
  shows "phases sv ! j = Closed"
proof (cases op)
  case (Turn i now ok t)
  then show ?thesis using assms(3) turn_closes by simp
next
  case (Enter n ok now)
  then show ?thesis using assms enter_closes by simp
qed (use assms in \<open>auto simp: phases_def server_send_def server_end_def Let_def split: sum.splits option.splits if_splits prod.splits\<close>)

text \<open>The connection that closes tells its jobs first.\<close>

lemma leave_closes:
  assumes "sent_ok sv" and "phases (server_leave i sv) ! k = Closed" and "k < length (sv_channels sv)"
    and "(j, k) \<in> set (sv_sent sv)" and "length (sv_channels sv) < 2 ^ 64 - 1"
  shows "job_settled j (server_leave i sv)"
proof -
  have s: "j < length (ts_store (jm_tasks (sv_jobs sv)))"
    "owned_by (connection_id_of (entry (sv_agents sv) k)) (ts_store (jm_tasks (sv_jobs sv)) ! j)"
    "phases sv ! k = Closed \<Longrightarrow> job_settled j sv"
    using assms(1,4,5) by (auto simp: sent_ok_def)
  have m: "job_moves (sv_jobs sv) (sv_jobs (server_leave i sv))" using server_step_jobs [of sv _ "Leave i"] by simp
  show ?thesis
  proof (cases "phases sv ! k = Closed")
    case True
    then show ?thesis using s m task_move_result unfolding job_moves_def job_settled_def by blast
  next
    case False
    then have "k = i" "ch_phase (sv_channels sv ! i) = Removed"
      using assms(2,3) by (auto simp: server_leave_def Let_def phases_def nth_list_update split: phase.splits if_splits)
    then have "sv_jobs (server_leave i sv) = job_step (sv_jobs sv) (Agent_Gone (connection_id_of (entry (sv_agents sv) k)))"
      using assms(3) by (simp add: server_leave_def Let_def)
    then show ?thesis using s(1,2)
      by (auto simp: job_settled_def fail_pending_nth fail_task_def send_result_def image_iff)
  qed
qed

lemma send_current:
  assumes "live_ok sv" and "i < length (sv_channels sv)" and "length (sv_channels sv) < 2 ^ 64 - 1"
    and "try_send_current i message (sv_agents sv) = (Inr (), reg)"
  shows "phases sv ! i \<noteq> Closed"
proof -
  have r: "reg_ok (sv_agents sv)" "phases_ok (sv_agents sv) (phases sv)" using assms(1) by (auto simp: live_ok_def)
  have len: "length (phases sv) = length (sv_channels sv)" "length (ar_entries (sv_agents sv)) = length (sv_channels sv)"
    using r(2) by (auto simp: phases_ok_def phases_def)
  have "is_current (connection_id_of (entry (sv_agents sv) i)) (sv_agents sv)"
    using assms(4) by (auto simp: try_send_current_def Let_def split: if_splits)
  then have "current_at i (sv_agents sv)" using is_current_iff [OF r(1)] assms(2,3) len by simp
  then show ?thesis using r(2) assms(2,3) len by (auto simp: phases_ok_def)
qed

lemma send_sent_ok:
  assumes "sent_ok sv" and "live_ok sv" and "i < length (sv_channels sv)"
    and "\<And>k. k < length (sv_channels sv) \<Longrightarrow>
      same_agent (entry (sv_agents sv) k) (entry (sv_agents (server_send i job token message sv)) k)"
    and "jobs_ok (sv_jobs sv)"
  shows "sent_ok (server_send i job token message sv)"
proof (cases "map_of (ts_map (jm_tasks (sv_jobs sv))) job")
  case None
  then show ?thesis using assms(1) by (simp add: server_send_def)
next
  case (Some j)
  let ?c = "connection_id_of (entry (sv_agents sv) i)" and ?t = "ts_store (jm_tasks (sv_jobs sv)) ! j"
  show ?thesis
  proof (cases "owned_by ?c ?t")
    case False
    then show ?thesis using Some assms(1) by (simp add: server_send_def)
  next
    case own: True
    obtain r reg where r: "try_send_current i message (sv_agents sv) = (r, reg)" by fastforce
    show ?thesis
    proof (cases r)
      case (Inl e)
      have "sent_ok (sv\<lparr>sv_jobs := job_step (sv_jobs sv) (Remove_Job job token)\<rparr>)"
        by (rule sent_ok_moves [OF assms(1)]) (auto simp: job_step_moves phases_def simp del: job_step.simps)
      then show ?thesis using Some own r Inl by (simp add: server_send_def)
    next
      case (Inr u)
      then have sv': "server_send i job token message sv = sv\<lparr>sv_agents := reg, sv_sent := (j, i) # sv_sent sv\<rparr>"
        using Some own r by (simp add: server_send_def)
      have "sent_ok (sv\<lparr>sv_agents := reg\<rparr>)"
        by (rule sent_ok_moves [OF assms(1)]) (use assms(4) sv' in \<open>auto simp: phases_def\<close>)
      moreover have "phases sv ! i \<noteq> Closed" if "length (sv_channels sv) < 2 ^ 64 - 1"
        using send_current [OF assms(2,3) that] r Inr by simp
      ultimately show ?thesis
        using own assms(3) same_connection [OF assms(4) [OF assms(3)]] assms(5) jobs_ok_map [OF assms(5) Some]
        by (auto simp: sv' sent_ok_def phases_def job_settled_def)
    qed
  qed
qed

lemma server_step_sent_ok:
  assumes "sent_ok sv" and "live_ok sv" and "jobs_ok (sv_jobs sv)"
  shows "sent_ok (server_step env sv op)"
proof -
  have len: "length (phases sv) = length (ar_entries (sv_agents sv))" "length (phases sv) = length (sv_channels sv)"
    using assms(2) by (auto simp: live_ok_def phases_ok_def phases_def)
  note move = server_step_move [of sv env op]
  have same: "same_agent (entry (sv_agents sv) i) (entry (sv_agents (server_step env sv op)) i)" if "i < length (sv_channels sv)" for i
    using reg_move_same(1) [OF move _ len(1)] that len(2) by simp
  have grow: "length (sv_channels sv) \<le> length (sv_channels (server_step env sv op))"
    using move by (cases op) (auto simp: server_turn_def server_enter_def server_leave_def server_send_def server_end_def Let_def
        split: prod.splits sum.splits option.splits phase.splits)
  have other: "sent_ok (server_step env sv op)" if "\<And>i. op \<noteq> Leave i" "\<And>i job token m. op \<noteq> Send_Request i job token m"
    by (rule sent_ok_moves [OF assms(1) server_step_jobs _ grow same])
      (simp_all only: server_step_sent [OF that(2)] subset_refl, rule server_step_closes [OF _ that(1)])
  show ?thesis
  proof (cases op)
    case (Leave i)
    have "j < length (ts_store (jm_tasks (sv_jobs (server_leave i sv))))" if "j < length (ts_store (jm_tasks (sv_jobs sv)))" for j
      using that server_step_jobs [of sv env "Leave i"] by (auto simp: job_moves_def)
    moreover have "owned_by (connection_id_of (entry (sv_agents (server_leave i sv)) k)) (ts_store (jm_tasks (sv_jobs (server_leave i sv))) ! j)"
      if "(j, k) \<in> set (sv_sent sv)" for j k
    proof -
      have o: "k < length (sv_channels sv)" "j < length (ts_store (jm_tasks (sv_jobs sv)))"
        "owned_by (connection_id_of (entry (sv_agents sv) k)) (ts_store (jm_tasks (sv_jobs sv)) ! j)"
        using that assms(1) by (auto simp: sent_ok_def)
      then show ?thesis
        using same_connection [OF same [OF o(1)]] server_step_jobs [of sv env "Leave i"] task_move_owner Leave
        by (auto simp: job_moves_def)
    qed
    moreover have "sv_sent (server_leave i sv) = sv_sent sv" using server_step_sent [of "Leave i" env sv] by simp
    moreover have "length (sv_channels (server_leave i sv)) = length (sv_channels sv)"
      by (simp add: server_leave_def Let_def split: phase.splits)
    ultimately show ?thesis
      using assms(1) leave_closes [OF assms(1), of i] unfolding Leave by (auto simp: sent_ok_def)
  next
    case (Send_Request i job token message)
    show ?thesis
    proof (cases "i < length (sv_channels sv)")
      case True
      have "sent_ok (server_send i job token message sv)"
        using send_sent_ok [OF assms(1,2) True _ assms(3)] same Send_Request True by simp
      then show ?thesis using Send_Request True by simp
    qed (use assms(1) Send_Request in simp)
  qed (rule other; simp)+
qed

text \<open>The jobs themselves keep their own invariant.\<close>

lemma server_step_jobs_ok: "jobs_ok (sv_jobs sv) \<Longrightarrow> jobs_ok (sv_jobs (server_step env sv op))"
proof -
  assume m: "jobs_ok (sv_jobs sv)"
  have "jobs_ok (sv_jobs (server_turn env i now ok t sv))" for i now ok t
  proof -
    let ?s = "(entry (sv_agents sv) i, sv_channels sv ! i, sv_jobs sv)"
    obtain e ch m' where r: "conn_turn (se_render env) (ad_parse (se_admission env)) now ok t ?s = (e, ch, m')"
      by (cases "conn_turn (se_render env) (ad_parse (se_admission env)) now ok t ?s") auto
    have "jobs_ok m'"
      using conn_turn_effect [of ?s "se_render env" "ad_parse (se_admission env)" now ok t] r job_step_ok [OF m] m
      by (auto simp: turn_effect_def simp del: job_step.simps)
    then show ?thesis using r m by (simp add: server_turn_def)
  qed
  then show ?thesis using m
    by (cases op) (auto simp: server_enter_def server_leave_def server_send_def server_end_def Let_def job_step_ok
        simp del: job_step.simps split: sum.splits option.splits prod.splits phase.splits)
qed

definition server_ok :: "agent_server \<Rightarrow> bool" where
  "server_ok sv \<longleftrightarrow> live_ok sv \<and> jobs_ok (sv_jobs sv) \<and> sent_ok sv"

interpretation server: invariant_machine "server_step env" server_ok for env
  by unfold_locales (use server_step_sent_ok server_step_jobs_ok live.step_inv in \<open>unfold server_ok_def, blast\<close>)

lemma server_new_ok: "server_ok server_new"
  using server_new_live jobs_new_ok by (simp add: server_ok_def sent_ok_def server_new_def)

lemma step_channels: "length (sv_channels (server_step env sv op)) \<le> Suc (length (sv_channels sv))"
  by (cases op) (auto simp: server_turn_def server_enter_def server_leave_def server_send_def server_end_def Let_def
    split: prod.splits sum.splits option.splits phase.splits)

lemma run_channels: "length (sv_channels (run_steps (server_step env) sv ops)) \<le> length (sv_channels sv) + length ops"
proof (induction ops arbitrary: sv)
  case (Cons op ops)
  show ?case using Cons.IH [of "server_step env sv op"] step_channels [of env sv op] by simp
qed simp

section \<open>Keys\<close>

text \<open>The key database gives an id one name for ever (unique names, ids never reused, names never
  changed); \<open>key_name\<close> is that name.\<close>

definition key_named :: "(i64 \<Rightarrow> string) \<Rightarrow> string \<Rightarrow> key_identity option \<Rightarrow> bool" where
  "key_named key_name name key \<longleftrightarrow>
     (case key of None \<Rightarrow> True | Some k \<Rightarrow> ki_name k = name \<and> key_name (ki_id k) = name)"

fun op_named :: "(i64 \<Rightarrow> string) \<Rightarrow> server_op \<Rightarrow> bool" where
  "op_named key_name (Upgrade (Inr (Some k)) h remote) = (key_name (ki_id k) = ki_name k)"
| "op_named key_name _ = True"

definition revoked_ok :: "agent_registry \<Rightarrow> bool" where
  "revoked_ok reg \<longleftrightarrow> (\<forall>(n, i) \<in> set (ar_agents reg). \<forall>x \<in> set (ar_revoked reg).
     has_key x (entry reg i) \<longrightarrow> ae_shutdown (entry reg i))"

definition keys_ok :: "(i64 \<Rightarrow> string) \<Rightarrow> agent_server \<Rightarrow> bool" where
  "keys_ok key_name sv \<longleftrightarrow>
     (\<forall>i < length (ar_entries (sv_agents sv)).
        key_named key_name (ae_name (entry (sv_agents sv) i)) (ae_key (entry (sv_agents sv) i)))
     \<and> (\<forall>(h, key, remote) \<in> set (sv_pending sv). key_named key_name (hs_name h) key)
     \<and> revoked_ok (sv_agents sv)"

lemma websocket_named:
  "websocket a (\<lambda>_. v) h = Inr (hs, key) \<Longrightarrow> op_named key_name (Upgrade v h remote) \<Longrightarrow> key_named key_name (hs_name hs) key"
  by (auto simp: websocket_def authenticate_agent_def key_named_def split: sum.splits option.splits if_splits)

lemma has_key_same: "same_agent e e' \<Longrightarrow> has_key x e' = has_key x e"
  by (simp add: same_agent_def has_key_def)

lemma revoked_ok_same:
  assumes "revoked_ok reg" and "reg_ok reg" and "ar_agents reg' = ar_agents reg" and "ar_revoked reg' = ar_revoked reg"
    and "\<And>i. i < length (ar_entries reg) \<Longrightarrow> same_agent (entry reg i) (entry reg' i)"
  shows "revoked_ok reg'"
proof -
  have "ae_shutdown (entry reg' i)"
    if "(n, i) \<in> set (ar_agents reg)" "x \<in> set (ar_revoked reg)" "has_key x (entry reg' i)" for n i x
  proof -
    have e: "same_agent (entry reg i) (entry reg' i)" using assms(5) reg_ok_name [OF assms(2) that(1)] by blast
    have "ae_shutdown (entry reg i)" using assms(1) that has_key_same [OF e] by (auto simp: revoked_ok_def)
    then show ?thesis using e by (simp add: same_agent_def)
  qed
  then show ?thesis using assms(3,4) by (auto simp: revoked_ok_def)
qed

lemma revoked_ok_register:
  assumes "revoked_ok reg" and "reg_ok reg" and "agents_register h key remote now reg = (Inr i, reg')"
  shows "revoked_ok reg'"
proof -
  note r = register_Inr [OF assms(3)]
  obtain slot where slot: "entry reg' i = new_entry h key remote now (ar_next_generation reg) slot" using r(6) by blast
  have d: "distinct (map fst (ar_agents reg))" using assms(2) by (simp add: reg_ok_def)
  have "ae_shutdown (entry reg' j)"
    if a: "(n, j) \<in> set (ar_agents reg')" "x \<in> set (ar_revoked reg)" "has_key x (entry reg' j)" for n j x
  proof (cases "n = hs_name h")
    case True
    then have "j = i" using a(1) r(3) set_update_agents [OF d] by simp
    then show ?thesis using a(2,3) r(8) slot by (auto simp: has_key_def split: option.splits)
  next
    case False
    then have n: "(n, j) \<in> set (ar_agents reg)" using a(1) r(3) set_update_agents [OF d] by simp
    then have "j < i" using reg_ok_name [OF assms(2)] r(1) by blast
    then have e: "same_agent (entry reg j) (entry reg' j)" using r(7) by simp
    then have "has_key x (entry reg j)" using a(3) has_key_same by blast
    then have "ae_shutdown (entry reg j)" using assms(1) n a(2) by (auto simp: revoked_ok_def)
    then show ?thesis using e by (simp add: same_agent_def)
  qed
  then show ?thesis using r(4) by (auto simp: revoked_ok_def)
qed

lemma revoked_ok_remove: "revoked_ok reg \<Longrightarrow> revoked_ok (snd (agents_remove c reg))"
  by (auto simp: revoked_ok_def agents_remove_def AList.delete_eq entry_def)

text \<open>The one connection that holds the key is the one that is found and cancelled.\<close>

lemma revoked_ok_revoke:
  assumes "revoked_ok reg" and "reg_ok reg"
    and "\<And>i. i < length (ar_entries reg) \<Longrightarrow> key_named key_name (ae_name (entry reg i)) (ae_key (entry reg i))"
  shows "revoked_ok (snd (revoke_key x reg))"
proof -
  have d: "distinct (map fst (ar_agents reg))" using assms(2) by (simp add: reg_ok_def)
  have unique: "i = j" if "(n, i) \<in> set (ar_agents reg)" "has_key x (entry reg i)"
    "(m, j) \<in> set (ar_agents reg)" "has_key x (entry reg j)" for n i m j
  proof -
    have "n = key_name x" "m = key_name x"
      using reg_ok_name [OF assms(2) that(1)] reg_ok_name [OF assms(2) that(3)] assms(3) [of i] assms(3) [of j] that(2,4)
      by (auto simp: key_named_def has_key_def split: option.splits)
    then show ?thesis using that(1,3) d by (metis map_of_is_SomeI option.inject)
  qed
  have "ae_shutdown (entry (snd (revoke_key x reg)) i)"
    if a: "(n, i) \<in> set (ar_agents reg)" "y \<in> set (List.insert x (ar_revoked reg))" "has_key y (entry (snd (revoke_key x reg)) i)" for n i y
  proof -
    have l: "i < length (ar_entries reg)" using reg_ok_name [OF assms(2) a(1)] by simp
    have e: "same_agent (entry reg i) (entry (snd (revoke_key x reg)) i)" by (rule revoke_entry [OF l])
    have k: "has_key y (entry reg i)" using a(3) has_key_same [OF e] by simp
    show ?thesis
    proof (cases "y = x")
      case True
      obtain j where j: "find (\<lambda>i. has_key x (entry reg i)) (map snd (ar_agents reg)) = Some j" "j \<in> set (map snd (ar_agents reg))"
          "has_key x (entry reg j)"
        using k a(1) True
        by (cases "find (\<lambda>i. has_key x (entry reg i)) (map snd (ar_agents reg))")
          (force simp: find_None_iff, auto simp: find_Some_iff)
      then have "j = i" using unique a(1) k True by auto
      then show ?thesis using j(1) l entry_at_entry [OF l] by (simp add: revoke_key_def Let_def entry_def at_entry_def cancel_def)
    next
      case False
      then have "ae_shutdown (entry reg i)" using assms(1) a(1,2) k by (auto simp: revoked_ok_def)
      then show ?thesis using e by (simp add: same_agent_def)
    qed
  qed
  then show ?thesis by (auto simp: revoked_ok_def)
qed

lemma reg_move_revoked:
  "reg_move reg ps reg' ps' \<Longrightarrow> revoked_ok reg \<Longrightarrow> reg_ok reg \<Longrightarrow>
    (\<And>i. i < length (ar_entries reg) \<Longrightarrow> key_named key_name (ae_name (entry reg i)) (ae_key (entry reg i))) \<Longrightarrow> revoked_ok reg'"
  by (erule reg_moveE) (auto intro: revoked_ok_same revoked_ok_register revoked_ok_remove revoked_ok_revoke)

lemma key_named_same: "same_agent e e' \<Longrightarrow> key_named f (ae_name e') (ae_key e') = key_named f (ae_name e) (ae_key e)"
  by (simp add: same_agent_def)

lemma step_new_entry:
  assumes "i < length (ar_entries (sv_agents (server_step env sv op)))" and "\<not> i < length (ar_entries (sv_agents sv))"
  shows "\<exists>h key remote. (h, key, remote) \<in> set (sv_pending sv) \<and> ae_name (entry (sv_agents (server_step env sv op)) i) = hs_name h
    \<and> ae_key (entry (sv_agents (server_step env sv op)) i) = key"
proof (cases op)
  case (Enter n ok now)
  obtain h key remote where q: "sv_pending sv ! n = (h, key, remote)" by (cases "sv_pending sv ! n") auto
  obtain r reg where r: "agents_register h key remote now (sv_agents sv) = (r, reg)" by fastforce
  show ?thesis
  proof (cases "n < length (sv_pending sv) \<and> ok")
    case True
    show ?thesis
    proof (cases r)
      case (Inl e)
      then show ?thesis using assms Enter True q r register_Inl [of h key remote now "sv_agents sv" e reg]
        by (simp add: server_enter_def)
    next
      case (Inr j)
      then have a: "agents_register h key remote now (sv_agents sv) = (Inr j, reg)" using r by simp
      have sv': "sv_agents (server_step env sv op) = reg" using Enter True q a by (simp add: server_enter_def)
      have "i = j" using assms sv' register_Inr(1,2) [OF a] by simp
      then show ?thesis using register_Inr(6) [OF a] sv' q True nth_mem [of n "sv_pending sv"] by force
    qed
  qed (use assms Enter q in \<open>auto simp: server_enter_def split: if_splits\<close>)
qed (use assms in \<open>auto simp: server_turn_def server_leave_def server_send_def server_end_def Let_def try_send_current_def agents_remove_def
  split: sum.splits option.splits prod.splits phase.splits if_splits\<close>)

lemma step_pending:
  assumes "(h, key, remote) \<in> set (sv_pending (server_step env sv op))"
    and "\<And>h key remote. (h, key, remote) \<in> set (sv_pending sv) \<Longrightarrow> key_named key_name (hs_name h) key"
    and "op_named key_name op"
  shows "key_named key_name (hs_name h) key"
proof (cases op)
  case (Upgrade v uh rem)
  then show ?thesis using assms websocket_named [where key_name = key_name and remote = rem and v = v and h = uh]
    by (auto split: sum.splits)
qed (use assms in \<open>auto simp: server_turn_def server_enter_def server_leave_def server_send_def server_end_def Let_def
  split: sum.splits option.splits prod.splits phase.splits if_splits dest: in_set_takeD in_set_dropD\<close>)

lemma server_step_keys:
  assumes "keys_ok key_name sv" and "live_ok sv" and "op_named key_name op"
  shows "keys_ok key_name (server_step env sv op)"
proof -
  have named: "key_named key_name (ae_name (entry (sv_agents sv) i)) (ae_key (entry (sv_agents sv) i))"
    if "i < length (ar_entries (sv_agents sv))" for i
    using that assms(1) by (simp add: keys_ok_def)
  have pending: "key_named key_name (hs_name h) key" if "(h, key, remote) \<in> set (sv_pending sv)" for h key remote
    using that assms(1) by (auto simp: keys_ok_def)
  have reg: "reg_ok (sv_agents sv)" "length (phases sv) = length (ar_entries (sv_agents sv))"
    using assms(2) by (auto simp: live_ok_def phases_ok_def)
  note move = server_step_move [of sv env op]
  have "key_named key_name (ae_name (entry (sv_agents (server_step env sv op)) i)) (ae_key (entry (sv_agents (server_step env sv op)) i))"
    if "i < length (ar_entries (sv_agents (server_step env sv op)))" for i
  proof (cases "i < length (ar_entries (sv_agents sv))")
    case True
    then show ?thesis using key_named_same [OF reg_move_same(1) [OF move _ reg(2)]] named reg(2) by simp
  next
    case False
    from step_new_entry [OF that False] show ?thesis using pending by (auto simp del: server_step.simps)
  qed
  moreover have "revoked_ok (sv_agents (server_step env sv op))"
    using reg_move_revoked [OF move _ reg(1) named] assms(1) by (simp add: keys_ok_def)
  moreover have "key_named key_name (hs_name h) key" if "(h, key, remote) \<in> set (sv_pending (server_step env sv op))" for h key remote
    by (rule step_pending [OF that _ assms(3)]) (rule pending)
  ultimately show ?thesis by (auto simp: keys_ok_def)
qed

lemma run_keys:
  "keys_ok key_name sv \<Longrightarrow> live_ok sv \<Longrightarrow> list_all (op_named key_name) ops \<Longrightarrow> keys_ok key_name (run_steps (server_step env) sv ops)"
proof (induction ops arbitrary: sv)
  case (Cons op ops)
  then show ?case using server_step_keys [of key_name sv op env] live.step_inv [of sv env op] by simp
qed simp

lemma server_new_keys: "keys_ok key_name server_new"
  by (simp add: keys_ok_def revoked_ok_def server_new_def agents_new_def)

section \<open>Silence\<close>

text \<open>The turns of one connection until it leaves.\<close>

fun conn_run :: "(json \<Rightarrow> string option) \<Rightarrow> (string \<Rightarrow> json option) \<Rightarrow> (nat \<times> bool \<times> turn_event) list
    \<Rightarrow> agent_entry \<times> agent_channel \<times> job_machine \<Rightarrow> agent_entry \<times> agent_channel \<times> job_machine" where
  "conn_run render parse [] s = s"
| "conn_run render parse ((now, ok, t) # ts) s =
     (if ch_phase (fst (snd s)) \<noteq> Serving then s else conn_run render parse ts (conn_turn render parse now ok t s))"

fun is_pong :: "turn_event \<Rightarrow> bool" where
  "is_pong (On_Incoming (In_Frame (Ws_Pong p))) = True"
| "is_pong _ = False"

lemma missed_turn:
  assumes "\<not> is_pong t" and "conn_turn render parse now ok t (e, ch, m) = (e', ch', m')" and "ch_phase ch' = Serving"
  shows "ch_missed ch' = (if t = On_Tick then ch_missed ch + 1 else ch_missed ch)
    \<and> (t = On_Tick \<longrightarrow> ch_missed ch < MAX_MISSED_PONGS)"
proof (cases t)
  case (On_Incoming f)
  then show ?thesis
  proof (cases f)
    case (In_Frame g)
    then show ?thesis using assms On_Incoming
      by (cases g) (auto simp: ch_send_def split: prod.splits delivery.splits if_splits)
  qed (use assms On_Incoming in auto)
qed (use assms in \<open>auto simp: ch_send_def Let_def split: if_splits list.splits option.splits\<close>)

lemma conn_run_done: "ch_phase (fst (snd s)) \<noteq> Serving \<Longrightarrow> conn_run render parse ts s = s"
  by (cases ts) auto

lemma missed_run:
  assumes "list_all (\<lambda>(now, ok, t). \<not> is_pong t) ts" and "ch_missed ch \<le> MAX_MISSED_PONGS"
    and "3 \<le> unat (ch_missed ch) + length (filter (\<lambda>(now, ok, t). t = On_Tick) ts)"
  shows "ch_phase (fst (snd (conn_run render parse ts (e, ch, m)))) \<noteq> Serving"
  using assms
proof (induction ts arbitrary: e ch m)
  case Nil
  then show ?case by (simp add: MAX_MISSED_PONGS_def word_le_nat_alt)
next
  case (Cons x ts)
  obtain now ok t where x: "x = (now, ok, t)" by (cases x) auto
  show ?case
  proof (cases "ch_phase ch = Serving")
    case True
    obtain e' ch' m' where s': "conn_turn render parse now ok t (e, ch, m) = (e', ch', m')"
      by (cases "conn_turn render parse now ok t (e, ch, m)") auto
    show ?thesis
    proof (cases "ch_phase ch' = Serving")
      case serving: True
      have np: "\<not> is_pong t" using Cons.prems(1) x by simp
      note c = missed_turn [OF np s' serving]
      have "ch_missed ch' \<le> MAX_MISSED_PONGS"
        "unat (ch_missed ch') = unat (ch_missed ch) + (if t = On_Tick then 1 else 0)"
        using c Cons.prems(2) by (auto simp: MAX_MISSED_PONGS_def word_le_nat_alt word_less_nat_alt unat_word_ariths)
      then have "ch_phase (fst (snd (conn_run render parse ts (e', ch', m')))) \<noteq> Serving"
        using Cons.prems(1,3) x by (intro Cons.IH) auto
      then show ?thesis using x True s' by simp
    qed (use x True s' in \<open>simp add: conn_run_done\<close>)
  qed (use x in simp)
qed

section \<open>An example run\<close>

definition example_env :: server_env where
  "example_env = \<lparr>se_admission = \<lparr>ad_to_str = Some, ad_parse = (\<lambda>s. Some (JObj [(''name'', JStr ''a''),
      (''hostname'', JStr ''h''), (''version'', JStr ''1'')])), ad_allow_unauthenticated = False\<rparr>,
     se_render = (\<lambda>v. Some ''m''), se_hello = ''hi''\<rparr>"

definition example_upgrade :: server_op where
  "example_upgrade = Upgrade (Inr (Some \<lparr>ki_id = 7, ki_name = ''a''\<rparr>))
     \<lparr>uh_bearer = Some ''k'', uh_protocols = [''evebox-agent-v1''], uh_agent = Some ''x''\<rparr> ''r''"

definition example_handshake :: agent_handshake where
  "example_handshake = \<lparr>hs_name = ''a'', hs_hostname = ''h'', hs_version = ''1'', hs_capabilities = []\<rparr>"

lemma example_trims: "trim ''a'' = ''a''" "trim ''h'' = ''h''" "trim ''1'' = ''1''"
  "trim ''evebox-agent-v1'' = ''evebox-agent-v1''"
  by (simp_all add: trim_def trim_start_def trim_end_def white_space_def string_eval)

lemma example_read: "read_handshake (JObj [(''name'', JStr ''a''), (''hostname'', JStr ''h''), (''version'', JStr ''1'')])
    = Some example_handshake"
  by (simp add: read_handshake_def need_def with_default_def example_handshake_def)

lemma example_upgraded:
  "server_step example_env sv example_upgrade =
     sv\<lparr>sv_pending := sv_pending sv @ [(example_handshake, Some \<lparr>ki_id = 7, ki_name = ''a''\<rparr>, ''r'')]\<rparr>"
  by (simp add: example_upgrade_def example_env_def websocket_def authenticate_agent_def example_trims
    offers_subprotocol_def map_filter_simps SUBPROTOCOL_def parse_handshake_def HANDSHAKE_HEADER_MAX_SIZE_def
    MAX_AGENT_NAME_BYTES_def example_read, simp add: example_handshake_def example_trims)

definition example_ops :: "server_op list" where
  "example_ops = [example_upgrade, Enter 0 True 1, Start_Job 0 ''1'' ''t'' 10, Send_Request 0 ''1'' ''t'' Unknown_Server]"

definition example_server :: agent_server where
  "example_server = run_steps (server_step example_env) server_new example_ops"

definition example_entry :: agent_entry where
  "example_entry = (new_entry example_handshake (Some \<lparr>ki_id = 7, ki_name = ''a''\<rparr>) ''r'' 1 1 0)\<lparr>ae_outbound := [Unknown_Server]\<rparr>"

lemma example_server_eq:
  "example_server = \<lparr>sv_agents = \<lparr>ar_entries = [example_entry], ar_agents = [(''a'', 0)], ar_revoked = [],
       ar_next_generation = 2, ar_slots = 1\<rparr>,
     sv_jobs = \<lparr>jm_tasks = \<lparr>ts_map = [(''1'', 0)], ts_store = [task_new ''t'' ''a'' 1 10]\<rparr>, jm_sinks = (\<lambda>_. None)\<rparr>,
     sv_pending = [], sv_channels = [channel_new (Ws_Text ''hi'')], sv_sent = [(0, 0)]\<rparr>"
  by (simp add: example_server_def example_ops_def example_upgraded server_new_def agents_new_def jobs_new_def tasks_new_def
    server_enter_def agents_register_def server_send_def try_send_current_def try_send_def is_current_def connection_id_of_def
    entry_def at_entry_def new_entry_def example_handshake_def example_entry_def task_register_def owned_by_def task_new_def
    OUTBOUND_CAPACITY_def example_env_def [THEN arg_cong, of se_hello, simplified])

definition example_then :: "server_op list \<Rightarrow> agent_server" where
  "example_then ops = run_steps (server_step example_env) server_new (example_ops @ ops)"

lemma example_then_eq: "example_then ops = run_steps (server_step example_env) example_server ops"
  by (simp add: example_then_def example_server_def del: run_steps.simps)

definition example_goodbye :: "server_op list" where
  "example_goodbye = [Turn 0 5 True (On_Incoming In_End), Leave 0, Leave 0]"

lemma example_goodbye_eq:
  "sv_sent (example_then example_goodbye) = [(0, 0)]" "map ch_phase (sv_channels (example_then example_goodbye)) = [Closed]"
  "ts_map (jm_tasks (sv_jobs (example_then example_goodbye))) = [(''1'', 0)]"
  by (simp_all add: example_then_eq example_goodbye_def example_server_eq server_turn_def channel_new_def entry_def
    at_entry_def server_leave_def Let_def)

lemma example_delete_eq:
  "sv_agents (example_then [Delete_Key 7]) = \<lparr>ar_entries = [cancel example_entry], ar_agents = [(''a'', 0)], ar_revoked = [7],
       ar_next_generation = 2, ar_slots = 1\<rparr>"
  by (simp add: example_then_eq example_server_eq revoke_key_def Let_def entry_def has_key_def example_entry_def at_entry_def
    new_entry_def)

lemma example_again_eq:
  "length (sv_channels (example_then [example_upgrade, Enter 0 True 2])) = 2"
  "map ch_phase (sv_channels (example_then [example_upgrade, Enter 0 True 2])) = [Serving, Serving]"
  "map ae_name (ar_entries (sv_agents (example_then [example_upgrade, Enter 0 True 2]))) = [''a'', ''a'']"
  by (simp_all add: example_then_eq example_server_eq example_upgraded server_enter_def agents_register_def entry_def
    at_entry_def cancel_def example_entry_def new_entry_def example_handshake_def held_by_other_def channel_new_def Let_def)

section \<open>Properties\<close>

text \<open>C24. Once a connection is closed, every job whose request went out over it has its result, unless the
  request ended before: whatever the interleaving, no browser waits for an agent that is gone.\<close>

theorem no_job_waits_on_closed_connection:
  assumes "sv = run_steps (server_step env) server_new ops" and "length ops < 2 ^ 64 - 1"
    and "(j, i) \<in> set (sv_sent sv)" and "ch_phase (sv_channels sv ! i) = Closed"
    and "j \<in> snd ` set (ts_map (jm_tasks (sv_jobs sv)))"
  shows "\<not> tk_result_tx (ts_store (jm_tasks (sv_jobs sv)) ! j)"
proof -
  have "sent_ok sv" using server.run_inv [OF server_new_ok] assms(1) by (simp add: server_ok_def)
  moreover have "length (sv_channels sv) \<le> length ops"
    using run_channels [of env server_new ops] assms(1) by (simp add: server_new_def)
  ultimately show ?thesis using assms(2-5) by (auto simp: sent_ok_def job_settled_def phases_def)
qed

theorem no_job_waits_on_closed_connection_witness:
  "\<not> tk_result_tx (ts_store (jm_tasks (sv_jobs (example_then example_goodbye))) ! 0)"
proof (rule no_job_waits_on_closed_connection [OF example_then_def, where j = 0 and i = 0])
  show "ch_phase (sv_channels (example_then example_goodbye) ! 0) = Closed"
    using example_goodbye_eq(2) by (cases "sv_channels (example_then example_goodbye)") auto
qed (simp_all add: example_goodbye_eq, simp add: example_ops_def example_goodbye_def)

text \<open>C25. From the deletion of an agent key on, no connection that holds it is served: the one that is
  connected was told to stop, and one that had authenticated before cannot register any more.\<close>

theorem deleted_key_is_cut_off:
  assumes "sv = run_steps (server_step env) server_new ops" and "list_all (op_named key_name) ops"
    and "x \<in> set (ar_revoked (sv_agents sv))" and "(n, i) \<in> set (ar_agents (sv_agents sv))"
    and "has_key x (entry (sv_agents sv) i)"
  shows "ae_shutdown (entry (sv_agents sv) i)"
  using run_keys [OF server_new_keys server_new_live assms(2), of env] assms(1,3-5)
  by (auto simp: keys_ok_def revoked_ok_def)

theorem deleted_key_is_cut_off_witness: "ae_shutdown (entry (sv_agents (example_then [Delete_Key 7])) 0)"
  by (rule deleted_key_is_cut_off [OF example_then_def, where key_name = "\<lambda>_. ''a''" and x = 7 and n = "''a''"])
    (simp_all add: example_ops_def example_upgrade_def example_delete_eq entry_def has_key_def cancel_def example_entry_def new_entry_def)

text \<open>C26. A connection with a key bears the name the key was issued for, and of two connections of the
  same name that are being served at least one was told to stop.\<close>

theorem one_live_connection_per_name:
  assumes "sv = run_steps (server_step env) server_new ops" and "list_all (op_named key_name) ops" and "length ops < 2 ^ 64 - 1"
    and "i < length (sv_channels sv)" and "j < length (sv_channels sv)" and "i \<noteq> j"
    and "ch_phase (sv_channels sv ! i) = Serving" and "ch_phase (sv_channels sv ! j) = Serving"
    and "ae_name (entry (sv_agents sv) i) = ae_name (entry (sv_agents sv) j)"
  shows "(ae_shutdown (entry (sv_agents sv) i) \<or> ae_shutdown (entry (sv_agents sv) j))
    \<and> (case ae_key (entry (sv_agents sv) i) of Some k \<Rightarrow> ki_name k = ae_name (entry (sv_agents sv) i) | None \<Rightarrow> True)"
proof -
  have k: "keys_ok key_name sv" using run_keys [OF server_new_keys server_new_live assms(2)] assms(1) by simp
  have l: "reg_ok (sv_agents sv)" "phases_ok (sv_agents sv) (phases sv)"
    using server.run_inv [OF server_new_ok] assms(1) by (auto simp: server_ok_def live_ok_def)
  have len: "length (phases sv) < 2 ^ 64 - 1" "length (phases sv) = length (ar_entries (sv_agents sv))"
    using run_channels [of env server_new ops] assms(1,3) l(2) by (auto simp: server_new_def phases_def phases_ok_def)
  have c: "current_at n (sv_agents sv) \<or> ae_shutdown (entry (sv_agents sv) n)" if "n = i \<or> n = j" for n
    using that l(2) len assms(4,5,7,8) by (auto simp: phases_ok_def phases_def)
  have "\<not> (current_at i (sv_agents sv) \<and> current_at j (sv_agents sv))"
  proof
    assume "current_at i (sv_agents sv) \<and> current_at j (sv_agents sv)"
    then obtain n m where "(n, i) \<in> set (ar_agents (sv_agents sv))" "(m, j) \<in> set (ar_agents (sv_agents sv))"
      by (auto simp: current_at_def)
    moreover from this have "n = m" using reg_ok_name [OF l(1)] assms(9) by metis
    ultimately show False using l(1) assms(6) by (metis map_of_is_SomeI option.inject reg_ok_def)
  qed
  then show ?thesis using c [of i] c [of j] k assms(4) len by (auto simp: keys_ok_def key_named_def phases_def split: option.splits)
qed

theorem one_live_connection_per_name_witness:
  "let sv = example_then [example_upgrade, Enter 0 True 2]
   in ae_shutdown (entry (sv_agents sv) 0) \<or> ae_shutdown (entry (sv_agents sv) 1)"
proof -
  let ?sv = "example_then [example_upgrade, Enter 0 True 2]"
  obtain a b where ab: "sv_channels ?sv = [a, b]" "ch_phase a = Serving" "ch_phase b = Serving"
    using example_again_eq(2) by auto
  obtain e f where ef: "ar_entries (sv_agents ?sv) = [e, f]" "ae_name e = ''a''" "ae_name f = ''a''"
    using example_again_eq(3) by auto
  have "list_all (op_named (\<lambda>_. ''a'')) (example_ops @ [example_upgrade, Enter 0 True 2])"
    by (simp add: example_ops_def example_upgrade_def)
  from one_live_connection_per_name [OF example_then_def this, where i = 0 and j = 1] ab ef show ?thesis
    by (simp add: example_ops_def entry_def)
qed

text \<open>A peer that answers no ping is left by the third tick of the ping interval, whatever else
  it sends.\<close>

theorem silent_peer_is_left:
  assumes "list_all (\<lambda>(now, ok, t). \<not> is_pong t) ts" and "3 \<le> length (filter (\<lambda>(now, ok, t). t = On_Tick) ts)"
  shows "ch_phase (fst (snd (conn_run render parse ts (e, channel_new hello, m)))) \<noteq> Serving"
  using assms by (intro missed_run) (auto simp: channel_new_def)

theorem silent_peer_is_left_witness:
  "ch_phase (fst (snd (conn_run (\<lambda>v. Some ''m'') (\<lambda>s. None) [(0, True, On_Tick), (1, True, On_Incoming (In_Frame Ws_Binary)),
      (30, True, On_Tick), (60, True, On_Tick)] (example_entry, channel_new (Ws_Text ''hi''), jobs_new)))) \<noteq> Serving"
  by (rule silent_peer_is_left) simp_all

end
