(* ===== verification/Pcap_Routing.thy ===== *)
theory Pcap_Routing
  imports Agent_Registry
begin

text \<open>
  The choice of the source that serves a capture request (\<open>src/src/server/pcap/mod.rs\<close>): the service
  with its operator routing table and its semaphores, the identities an event carries, and
  \<open>resolve_source\<close>. An agent is named by its entry's number in the registry.
\<close>

section \<open>The service\<close>

record routing_rule =
  rr_sensor :: string
  rr_source :: string

record pcap_routing =
  pr_rules :: "routing_rule list"
  pr_default :: "string option"

definition routing_default :: pcap_routing where
  "routing_default = \<lparr>pr_rules = [], pr_default = None\<rparr>"

definition routing_is_empty :: "pcap_routing \<Rightarrow> bool" where
  "routing_is_empty r \<longleftrightarrow> pr_rules r = [] \<and> pr_default r = None"

text \<open>Durations are in nanoseconds.\<close>

record pcap_settings =
  ps_max_bytes :: u64
  ps_request_timeout :: nat
  ps_stall_timeout :: nat
  ps_liveness_timeout :: nat
  ps_max_concurrent :: nat
  ps_wedge_grace :: nat

definition settings_default :: pcap_settings where
  "settings_default = \<lparr>ps_max_bytes = 8000000, ps_request_timeout = 60 * 10 ^ 9, ps_stall_timeout = 60 * 10 ^ 9,
     ps_liveness_timeout = 2 * 10 ^ 9, ps_max_concurrent = 16, ps_wedge_grace = 5 * 10 ^ 9\<rparr>"

text \<open>The permits left of the global semaphore, of the local spool's and of the agents' slots.\<close>

record pcap_service =
  pv_settings :: pcap_settings
  pv_source :: "pcap_source option"
  pv_routing :: pcap_routing
  pv_global :: nat
  pv_local_busy :: nat
  pv_agent_busy :: "nat \<Rightarrow> nat"
  pv_inflight :: nat

definition service_new :: "pcap_settings \<Rightarrow> pcap_source option \<Rightarrow> pcap_service" where
  "service_new settings source = \<lparr>pv_settings = settings, pv_source = source, pv_routing = routing_default,
     pv_global = ps_max_concurrent settings, pv_local_busy = 1, pv_agent_busy = (\<lambda>_. 1), pv_inflight = 0\<rparr>"

definition set_routing :: "pcap_routing \<Rightarrow> pcap_service \<Rightarrow> pcap_service" where
  "set_routing r s = s\<lparr>pv_routing := r\<rparr>"

definition has_source :: "pcap_service \<Rightarrow> bool" where
  "has_source s \<longleftrightarrow> pv_source s \<noteq> None"

definition try_acquire_global :: "pcap_service \<Rightarrow> pcap_service option" where
  "try_acquire_global s = (if pv_global s = 0 then None else Some (s\<lparr>pv_global := pv_global s - 1\<rparr>))"

datatype resolved_source = Resolved_Local pcap_source | Resolved_Agent nat

fun source_name :: "agent_registry \<Rightarrow> resolved_source \<Rightarrow> string" where
  "source_name reg (Resolved_Local s) = LOCAL_PCAP_SOURCE_NAME"
| "source_name reg (Resolved_Agent i) = ae_name (entry reg i)"

fun try_acquire_source :: "agent_registry \<Rightarrow> resolved_source \<Rightarrow> pcap_service \<Rightarrow> pcap_service option" where
  "try_acquire_source reg (Resolved_Local src) s =
     (if pv_local_busy s = 0 then None else Some (s\<lparr>pv_local_busy := pv_local_busy s - 1\<rparr>))"
| "try_acquire_source reg (Resolved_Agent i) s =
     (let slot = ae_pcap_busy (entry reg i)
      in if pv_agent_busy s slot = 0 then None
         else Some (s\<lparr>pv_agent_busy := (pv_agent_busy s)(slot := pv_agent_busy s slot - 1)\<rparr>))"

section \<open>Identities\<close>

definition or_else :: "'a option \<Rightarrow> 'a option \<Rightarrow> 'a option" where
  "or_else a b = (case a of Some x \<Rightarrow> Some x | None \<Rightarrow> b)"

definition sensor_identity :: "json \<Rightarrow> string option" where
  "sensor_identity v = or_else (as_str (json_index v ''host''))
     (or_else (as_str (json_path v [''agent'', ''name''])) (as_str (json_path v [''host'', ''name''])))"

definition stamped_agent_id :: "json \<Rightarrow> string option" where
  "stamped_agent_id v = as_str (json_path v [''evebox'', ''agent'', ''id''])"

definition agent_hostname :: "json \<Rightarrow> string option" where
  "agent_hostname v = as_str (json_path v [''evebox'', ''agent'', ''hostname''])"

section \<open>Resolution\<close>

datatype route_error = NoSource "string option" | Ambiguous "string list" | NoRule "string option"

definition local_source :: "pcap_service \<Rightarrow> resolved_source option" where
  "local_source s = map_option Resolved_Local (pv_source s)"

definition source_by_name :: "pcap_service \<Rightarrow> agent_registry \<Rightarrow> string \<Rightarrow> resolved_source option" where
  "source_by_name s reg name =
     (if name = LOCAL_PCAP_SOURCE_NAME then local_source s else map_option Resolved_Agent (pcap_agent name reg))"

definition named_source :: "pcap_service \<Rightarrow> agent_registry \<Rightarrow> string \<Rightarrow> route_error + resolved_source" where
  "named_source s reg name = ok_or (source_by_name s reg name) (NoSource (Some name))"

text \<open>One source serves, none is the given error, several are ambiguous.\<close>

definition the_source :: "agent_registry \<Rightarrow> route_error \<Rightarrow> resolved_source list \<Rightarrow> route_error + resolved_source" where
  "the_source reg none sources =
     (case sources of
        [] \<Rightarrow> Inl none | [source] \<Rightarrow> Inr source | _ \<Rightarrow> Inl (Ambiguous (sort (map (source_name reg) sources))))"

definition table_source ::
    "pcap_service \<Rightarrow> agent_registry \<Rightarrow> string option \<Rightarrow> route_error + resolved_source" where
  "table_source s reg identity =
     (case or_else (map_option rr_source (find (\<lambda>rule. identity = Some (rr_sensor rule)) (pr_rules (pv_routing s))))
             (pr_default (pv_routing s)) of
        Some name \<Rightarrow> named_source s reg name
      | None \<Rightarrow> Inl (NoRule identity))"

definition any_source :: "pcap_service \<Rightarrow> agent_registry \<Rightarrow> route_error + resolved_source" where
  "any_source s reg = the_source reg (NoSource None)
     ((case local_source s of Some l \<Rightarrow> [l] | None \<Rightarrow> []) @ map Resolved_Agent (pcap_agents reg))"

definition unstamped_source ::
    "pcap_service \<Rightarrow> agent_registry \<Rightarrow> json option \<Rightarrow> string option \<Rightarrow> route_error + resolved_source" where
  "unstamped_source s reg event identity =
     (if event = None then any_source s reg
      else case local_source s of
        Some l \<Rightarrow> Inr l
      | None \<Rightarrow> (case identity of Some name \<Rightarrow> Inl (NoSource (Some name)) | None \<Rightarrow> any_source s reg))"

definition implicit_source ::
    "pcap_service \<Rightarrow> agent_registry \<Rightarrow> json option \<Rightarrow> string option \<Rightarrow> route_error + resolved_source" where
  "implicit_source s reg event identity =
     (case Option.bind identity (\<lambda>name. pcap_agent name reg) of
        Some i \<Rightarrow> Inr (Resolved_Agent i)
      | None \<Rightarrow>
     (case Option.bind event stamped_agent_id of
        Some agent \<Rightarrow> ok_or (map_option Resolved_Agent (pcap_agent agent reg)) (NoSource (Some agent))
      | None \<Rightarrow>
     (case Option.bind event agent_hostname of
        Some hostname \<Rightarrow> the_source reg (NoSource (or_else identity (Some hostname)))
          (map Resolved_Agent (filter (\<lambda>i. ae_hostname (entry reg i) = hostname) (pcap_agents reg)))
      | None \<Rightarrow> unstamped_source s reg event identity)))"

definition resolve_source ::
    "pcap_service \<Rightarrow> agent_registry \<Rightarrow> json option \<Rightarrow> string option \<Rightarrow> route_error + resolved_source" where
  "resolve_source s reg event explicit =
     (case explicit of
        Some name \<Rightarrow> named_source s reg name
      | None \<Rightarrow>
          let identity = Option.bind event sensor_identity
          in if \<not> routing_is_empty (pv_routing s) then table_source s reg identity
             else implicit_source s reg event identity)"

section \<open>Lemmas\<close>

lemma pcap_agent_Some:
  assumes "pcap_agent name reg = Some i" and "reg_ok reg"
  shows "eligible (entry reg i) \<and> ae_name (entry reg i) = name \<and> current_at i reg"
proof -
  have m: "map_of (ar_agents reg) name = Some i" "name \<noteq> LOCAL_PCAP_SOURCE_NAME" "supports CAPABILITY_PCAP (entry reg i)"
    using assms(1) by (auto simp: pcap_agent_def agents_get_def split: if_splits option.splits)
  then show ?thesis using reg_ok_map [OF assms(2) m(1)] map_of_SomeD [OF m(1)] by (force simp: eligible_def current_at_def)
qed

lemma pcap_agents_set: "i \<in> set (pcap_agents reg) \<longleftrightarrow> current_at i reg \<and> eligible (entry reg i)"
  by (auto simp: pcap_agents_def current_at_def)

lemma the_source_Inr: "the_source reg e xs = Inr x \<longleftrightarrow> xs = [x]"
  by (auto simp: the_source_def split: list.splits)

lemma named_source_Inr:
  "named_source s reg name = Inr x \<longleftrightarrow> source_by_name s reg name = Some x"
  by (simp add: named_source_def)

text \<open>A source that can serve: the configured local one, or a connected agent with the capability.\<close>

definition can_serve :: "pcap_service \<Rightarrow> agent_registry \<Rightarrow> resolved_source \<Rightarrow> bool" where
  "can_serve s reg x \<longleftrightarrow>
     (case x of Resolved_Local src \<Rightarrow> pv_source s = Some src
      | Resolved_Agent i \<Rightarrow> current_at i reg \<and> eligible (entry reg i))"

lemma source_by_name_serves:
  "source_by_name s reg name = Some x \<Longrightarrow> reg_ok reg \<Longrightarrow> can_serve s reg x \<and> source_name reg x = name"
  by (auto simp: source_by_name_def can_serve_def local_source_def dest: pcap_agent_Some split: if_splits)

lemma any_source_serves: "any_source s reg = Inr x \<Longrightarrow> can_serve s reg x"
proof -
  assume "any_source s reg = Inr x"
  then have "x \<in> set ((case local_source s of Some l \<Rightarrow> [l] | None \<Rightarrow> []) @ map Resolved_Agent (pcap_agents reg))"
    by (simp add: any_source_def the_source_Inr)
  then show ?thesis by (auto simp: can_serve_def local_source_def pcap_agents_set split: option.splits)
qed

lemma resolve_serves_named:
  assumes "reg_ok reg" and "resolve_source s reg event explicit = Inr x"
  shows "can_serve s reg x \<and> (case explicit of Some name \<Rightarrow> source_name reg x = name | None \<Rightarrow> True)"
proof (cases explicit)
  case (Some name)
  then show ?thesis using assms source_by_name_serves by (auto simp: resolve_source_def named_source_Inr)
next
  case None
  have table: "can_serve s reg x" if "table_source s reg identity = Inr x" for identity
    using that source_by_name_serves [OF _ assms(1)] by (auto simp: table_source_def named_source_Inr split: option.splits)
  have unstamped: "can_serve s reg x" if "unstamped_source s reg event identity = Inr x" for identity
    using that any_source_serves
    by (auto simp: unstamped_source_def can_serve_def local_source_def split: option.splits if_splits)
  have "can_serve s reg x" if "implicit_source s reg event identity = Inr x" for identity
    using that unstamped pcap_agent_Some [OF _ assms(1)]
    by (auto simp: bind_eq_Some_conv implicit_source_def can_serve_def the_source_Inr map_eq_Cons_conv filter_eq_Cons_iff pcap_agents_set
      split: option.splits dest!: arg_cong [where f = set])
  then show ?thesis using assms(2) None table by (auto simp: resolve_source_def Let_def split: if_splits)
qed

lemma resolve_serves: "reg_ok reg \<Longrightarrow> resolve_source s reg event explicit = Inr x \<Longrightarrow> can_serve s reg x"
  using resolve_serves_named by blast

section \<open>Properties\<close>

text \<open>Whatever is asked, a resolved source can serve: it is the configured local spool or the current
  connection of an agent with the capability, and a source asked for by name, by a request or by the
  operator's table, is the one of that name.\<close>

theorem resolved_source_serves:
  assumes "reg_ok reg" and "resolve_source s reg event explicit = Inr x"
  shows "can_serve s reg x \<and> (case explicit of Some name \<Rightarrow> source_name reg x = name | None \<Rightarrow> True)"
  by (rule resolve_serves_named [OF assms])

text \<open>What a request without a named source means: with a routing table, the source of the first rule
  for the event's sensor or else the default, and nothing else; without one, an event stamped by an
  agent is served by an agent it names (its sensor, its importer, or by the older host name stamp)
  and never by the local spool.\<close>

definition table_target :: "pcap_routing \<Rightarrow> string option \<Rightarrow> string option" where
  "table_target r identity =
     or_else (map_option rr_source (find (\<lambda>rule. identity = Some (rr_sensor rule)) (pr_rules r))) (pr_default r)"

text \<open>The routing policy, as documented.\<close>

theorem routing_policy:
  assumes "reg_ok reg" and "resolve_source s reg (Some event) None = Inr x"
  shows "if \<not> routing_is_empty (pv_routing s)
    then table_target (pv_routing s) (sensor_identity event) = Some (source_name reg x)
    else stamped_agent_id event \<noteq> None \<or> agent_hostname event \<noteq> None \<longrightarrow>
      (case x of Resolved_Local src \<Rightarrow> False
       | Resolved_Agent i \<Rightarrow> sensor_identity event = Some (ae_name (entry reg i))
           \<or> stamped_agent_id event = Some (ae_name (entry reg i))
           \<or> stamped_agent_id event = None \<and> agent_hostname event = Some (ae_hostname (entry reg i)))"
proof (cases "routing_is_empty (pv_routing s)")
  case False
  then show ?thesis using assms(2) source_by_name_serves [OF _ assms(1)]
    by (auto simp: resolve_source_def table_source_def table_target_def named_source_Inr Let_def split: option.splits)
next
  case True
  then have i: "implicit_source s reg (Some event) (sensor_identity event) = Inr x"
    using assms(2) by (simp add: resolve_source_def)
  show ?thesis
  proof (cases "Option.bind (sensor_identity event) (\<lambda>name. pcap_agent name reg)")
    case (Some j)
    then show ?thesis using i True pcap_agent_Some [OF _ assms(1)]
      by (auto simp: implicit_source_def bind_eq_Some_conv)
  next
    case None
    then show ?thesis using i True pcap_agent_Some [OF _ assms(1)]
      by (auto simp: implicit_source_def the_source_Inr map_eq_Cons_conv filter_eq_Cons_iff split: option.splits)
  qed
qed

definition example_agents :: agent_registry where
  "example_agents = snd (agents_register \<lparr>hs_name = ''a'', hs_hostname = ''h'', hs_version = ''1'', hs_capabilities = [''pcap'']\<rparr>
     None ''r'' 1 agents_new)"

definition example_event :: json where
  "example_event = JObj [(''evebox'', JObj [(''agent'', JObj [(''id'', JStr ''a'')])]), (''host'', JStr ''s'')]"

lemma example_agents_eq:
  "example_agents = \<lparr>ar_entries = [new_entry \<lparr>hs_name = ''a'', hs_hostname = ''h'', hs_version = ''1'',
     hs_capabilities = [''pcap'']\<rparr> None ''r'' 1 1 0], ar_agents = [(''a'', 0)], ar_revoked = [], ar_next_generation = 2, ar_slots = 1\<rparr>"
  by (simp add: example_agents_def agents_new_def agents_register_def Let_def)

lemma example_agents_ok: "reg_ok example_agents"
  by (simp add: example_agents_eq reg_ok_def entry_def)

lemma example_resolved:
  "resolve_source (service_new settings_default (Some (Files []))) example_agents (Some example_event) None = Inr (Resolved_Agent 0)"
  by (simp add: resolve_source_def service_new_def routing_is_empty_def routing_default_def implicit_source_def
    sensor_identity_def or_else_def example_event_def stamped_agent_id_def pcap_agent_def LOCAL_PCAP_SOURCE_NAME_def
    agents_get_def example_agents_eq entry_def supports_def new_entry_def CAPABILITY_PCAP_def Let_def)

theorem resolved_source_serves_witness:
  "can_serve (service_new settings_default (Some (Files []))) example_agents (Resolved_Agent 0)"
  using resolved_source_serves [OF example_agents_ok example_resolved] by simp

theorem routing_policy_witness:
  "case Resolved_Agent 0 of Resolved_Local src \<Rightarrow> False
   | Resolved_Agent i \<Rightarrow> sensor_identity example_event = Some (ae_name (entry example_agents i))
       \<or> stamped_agent_id example_event = Some (ae_name (entry example_agents i))
       \<or> stamped_agent_id example_event = None \<and> agent_hostname example_event = Some (ae_hostname (entry example_agents i))"
proof -
  have "routing_is_empty (pv_routing (service_new settings_default (Some (Files []))))"
    by (simp add: service_new_def routing_is_empty_def routing_default_def)
  moreover have "stamped_agent_id example_event \<noteq> None" by (simp add: stamped_agent_id_def example_event_def)
  ultimately show ?thesis using routing_policy [OF example_agents_ok example_resolved] by (simp only: not_True_eq_False if_False simp_thms)
qed

end
