(* ===== verification/Pcap_Api.thy ===== *)
theory Pcap_Api
  imports Pcap_Routing Pcap_Timeframe
begin

text \<open>
  From the body of a capture request to what is extracted (\<open>src/src/server/api/pcap.rs\<close>): the modes
  of a request, its limits, the choice of the source and of the permits, and the operator's routing
  table as it is saved. The event store, the duration parser of the humantime crate and the IP address
  parser are parameters; instants and spans are in microseconds. The audit line is kept as a record;
  logging itself, and the values quoted inside some messages, are left out.
\<close>

section \<open>Values in a request\<close>

record request_body =
  rb_event_id :: "string option"
  rb_filter :: "string option"
  rb_start :: "string option"
  rb_duration :: "string option"
  rb_before :: "string option"
  rb_after :: "string option"
  rb_max_size :: "string option"
  rb_source :: "string option"

definition present :: "string option \<Rightarrow> string option" where
  "present value = (case map_option trim value of None \<Rightarrow> None | Some s \<Rightarrow> if s = [] then None else Some s)"

record api_env =
  ap_chrono :: chrono
  ap_humantime :: "string \<Rightarrow> string + int"
  ap_max_span :: int
  ap_ip_parse :: "string \<Rightarrow> ip_addr option"

definition parse_duration_seconds :: "(string \<Rightarrow> string + int) \<Rightarrow> string \<Rightarrow> string + int" where
  "parse_duration_seconds humantime input =
     (case parse_unsigned (2 ^ 64 - 1) (trim input) of
        Some secs \<Rightarrow> Inr (int secs * 1000000) | None \<Rightarrow> humantime input)"

definition parse_span :: "api_env \<Rightarrow> string option \<Rightarrow> string + int" where
  "parse_span env value =
     (let raw = (case present value of Some s \<Rightarrow> s | None \<Rightarrow> ''1m'')
      in try_then (parse_duration_seconds (ap_humantime env) raw)
           (\<lambda>d. if d \<le> ap_max_span env then Inr d else Inl ''duration out of range''))"

text \<open>Upper case matters for ASCII only: no other character becomes part of a unit of size.\<close>

definition to_upper :: "char \<Rightarrow> char" where
  "to_upper c = (if CHR ''a'' \<le> c \<and> c \<le> CHR ''z'' then char_of ((of_char c :: nat) - 32) else c)"

definition parse_max_bytes :: "string \<Rightarrow> string + u64" where
  "parse_max_bytes raw =
     (let trimmed = trim raw; lower = to_ascii_lowercase trimmed
      in if lower = ''0'' \<or> lower = ''none'' \<or> lower = ''unlimited'' then Inr (- 1)
         else try_then (parse_humansize (map to_upper trimmed)) (\<lambda>bytes. Inr (if bytes = 0 then - 1 else of_nat bytes)))"

section \<open>Filter and window\<close>

record request_error =
  re_status :: nat
  re_code :: string
  re_message :: string

definition bad_request :: "string \<Rightarrow> request_error" where
  "bad_request message = \<lparr>re_status = 400, re_code = ''bad-request'', re_message = message\<rparr>"

definition bad_event :: "string \<Rightarrow> request_error" where
  "bad_event message = \<lparr>re_status = 400, re_code = ''bad-event'', re_message = message\<rparr>"

record audit =
  au_mode :: string
  au_filter :: string
  au_window :: "window option"
  au_source :: string
  au_native :: bool

definition audit_new :: "bool \<Rightarrow> audit" where
  "audit_new native = \<lparr>au_mode = ''-'', au_filter = ''-'', au_window = None, au_source = ''-'', au_native = native\<rparr>"

fun window_error_text :: "window_error \<Rightarrow> string" where
  "window_error_text (Bad_Timestamp e) = ''bad timestamp: '' @ e"
| "window_error_text No_Timestamp = ''event has no timestamp''"
| "window_error_text Out_Of_Range = ''timestamp out of range''"
| "window_error_text Ends_Before_Start = ''capture window ends before it starts''"

fun selector_error_text :: "selector_error \<Rightarrow> string" where
  "selector_error_text (Missing_Field f) = ''event has no '' @ f"
| "selector_error_text (Bad_Address s) = ''invalid IP address syntax''"
| "selector_error_text Mixed_Families = ''mixed address families''"
| "selector_error_text (Unsupported_Protocol p) = ''unsupported protocol: '' @ p"
| "selector_error_text (Invalid_Port f) = ''event has invalid '' @ f"

definition describe_selector :: "flow_selector \<Rightarrow> string" where
  "describe_selector s =
     (let port = (\<lambda>p. case p of Some p \<Rightarrow> show_word p | None \<Rightarrow> [])
      in ''proto='' @ show_word (fs_proto s) @ '' '' @ show_ip (fst (fs_a s)) @ '':'' @ port (snd (fs_a s))
         @ '' '' @ show_ip (fst (fs_b s)) @ '':'' @ port (snd (fs_b s)))"

definition map_error :: "('e \<Rightarrow> 'f) \<Rightarrow> 'e + 'a \<Rightarrow> 'f + 'a" where
  "map_error f r = (case r of Inl e \<Rightarrow> Inl (f e) | Inr x \<Rightarrow> Inr x)"

definition derive_flow :: "api_env \<Rightarrow> json \<Rightarrow> audit \<Rightarrow> request_error + flow_selector \<times> audit" where
  "derive_flow env source au =
     (case selector_from_event (ap_ip_parse env) source of
        Inl e \<Rightarrow> Inl (bad_event (selector_error_text e))
      | Inr s \<Rightarrow> Inr (s, au\<lparr>au_filter := describe_selector s\<rparr>))"

definition build_filter_or_all :: "string option \<Rightarrow> audit \<Rightarrow> pcap_filter option \<times> audit" where
  "build_filter_or_all f au =
     (case present f of
        Some e \<Rightarrow> (Some (Expression e), au\<lparr>au_filter := e\<rparr>) | None \<Rightarrow> (None, au\<lparr>au_filter := ''all''\<rparr>))"

definition freeform_request ::
    "api_env \<Rightarrow> request_body \<Rightarrow> string \<Rightarrow> audit \<Rightarrow> request_error + (pcap_filter option \<times> window) \<times> audit" where
  "freeform_request env body start au =
     try_then (map_error (\<lambda>e. bad_request (''bad start time: '' @ e)) (datetime_parse (ch_parse (ap_chrono env)) start None)) (\<lambda>start.
     try_then (map_error (\<lambda>e. bad_request (''bad duration: '' @ e)) (parse_span env (rb_duration body))) (\<lambda>span.
     try_then (map_error (\<lambda>e. bad_request (window_error_text e)) (window_from_start (ap_chrono env) start span)) (\<lambda>w.
       case build_filter_or_all (rb_filter body) (au\<lparr>au_mode := ''freeform'', au_window := Some w\<rparr>) of
         (f, au) \<Rightarrow> Inr ((f, w), au))))"

definition relative_request ::
    "api_env \<Rightarrow> request_body \<Rightarrow> json option \<Rightarrow> audit \<Rightarrow> request_error + (pcap_filter option \<times> window) \<times> audit" where
  "relative_request env body source au =
     try_then (ok_or source (bad_request ''before/after requires an event'')) (\<lambda>source.
     try_then (map_error (\<lambda>e. bad_request (''bad before duration: '' @ e)) (parse_span env (rb_before body))) (\<lambda>before.
     try_then (map_error (\<lambda>e. bad_request (''bad after duration: '' @ e)) (parse_span env (rb_after body))) (\<lambda>after.
     try_then (map_error (\<lambda>e. bad_event (window_error_text e)) (window_around_event (ap_chrono env) source before after)) (\<lambda>w.
       let au = au\<lparr>au_mode := ''relative'', au_window := Some w\<rparr>
       in case present (rb_filter body) of
            Some e \<Rightarrow> Inr ((Some (Expression e), w), au\<lparr>au_filter := e\<rparr>)
          | None \<Rightarrow> try_then (derive_flow env source au) (\<lambda>(s, au). Inr ((Some (Flow s), w), au))))))"

definition default_request ::
    "api_env \<Rightarrow> json \<Rightarrow> audit \<Rightarrow> request_error + (pcap_filter option \<times> window) \<times> audit" where
  "default_request env source au =
     try_then (derive_flow env source (au\<lparr>au_mode := ''default''\<rparr>)) (\<lambda>(s, au).
     try_then (map_error (\<lambda>e. bad_event (window_error_text e)) (derive_window (ap_chrono env) source)) (\<lambda>w.
       Inr ((Some (Flow s), w), au\<lparr>au_window := Some w\<rparr>)))"

definition build_request ::
    "api_env \<Rightarrow> request_body \<Rightarrow> json option \<Rightarrow> audit \<Rightarrow> request_error + (pcap_filter option \<times> window) \<times> audit" where
  "build_request env body source au =
     (case present (rb_start body) of
        Some start \<Rightarrow> freeform_request env body start au
      | None \<Rightarrow>
          if present (rb_before body) \<noteq> None \<or> present (rb_after body) \<noteq> None then relative_request env body source au
          else case source of
            Some source \<Rightarrow> default_request env source au
          | None \<Rightarrow> Inl (bad_request ''start time required''))"

definition to_micros :: "int \<Rightarrow> u64" where
  "to_micros t = (case try_from_int t of Some n \<Rightarrow> n | None \<Rightarrow> 0)"

definition api_filename :: "json option \<Rightarrow> int \<Rightarrow> string" where
  "api_filename source ts_secs =
     (let secs = (if ts_secs < 0 then CHR ''-'' # show_nat (nat (- ts_secs)) else show_nat (nat ts_secs));
          name = (case source of
             None \<Rightarrow> ''capture''
           | Some v \<Rightarrow>
               (case or_else (as_u64 (json_path v [''alert'', ''signature_id''])) (as_u64 (json_index v ''flow_id'')) of
                  Some n \<Rightarrow> show_word n | None \<Rightarrow> ''event''))
      in name @ ''-'' @ secs @ ''.pcap'')"

section \<open>Handling\<close>

text \<open>What a request comes to: an error response with its status and code, the candidates of an
  ambiguous one, the answer of the pre-flight, or an extraction that starts, with the file's name.\<close>

datatype handled =
    Refuse nat string
  | Refuse_Ambiguous "string list"
  | Dry_Run_Ok string
  | Extract_Local pcap_source pcap_request string
  | Extract_Agent nat pcap_request string

definition load_event :: "(string \<Rightarrow> string + json option) \<Rightarrow> string option \<Rightarrow> handled + json option" where
  "load_event events event_id =
     (case event_id of
        None \<Rightarrow> Inr None
      | Some i \<Rightarrow>
          (case events i of
             Inr (Some event) \<Rightarrow> Inr (Some event)
           | Inr None \<Rightarrow> Inl (Refuse 404 ''event-not-found'')
           | Inl err \<Rightarrow> Inl (Refuse 500 ''internal'')))"

definition request_max_bytes :: "pcap_settings \<Rightarrow> string option \<Rightarrow> handled + u64" where
  "request_max_bytes settings max_size =
     (case present max_size of
        None \<Rightarrow> Inr (ps_max_bytes settings)
      | Some raw \<Rightarrow> map_error (\<lambda>_. Refuse 400 ''bad-max-size'') (parse_max_bytes raw))"

fun refuse_route :: "route_error \<Rightarrow> handled" where
  "refuse_route (NoSource sensor) = Refuse 503 ''no-source''"
| "refuse_route (NoRule sensor) = Refuse 503 ''no-source''"
| "refuse_route (Ambiguous candidates) = Refuse_Ambiguous candidates"

definition start_extraction ::
    "agent_registry \<Rightarrow> resolved_source \<Rightarrow> pcap_request \<Rightarrow> string \<Rightarrow> pcap_service \<Rightarrow> handled \<times> pcap_service" where
  "start_extraction reg source request name s =
     (case try_acquire_global s of
        None \<Rightarrow> (Refuse 429 ''busy'', s)
      | Some s1 \<Rightarrow>
          (case try_acquire_source reg source s1 of
             None \<Rightarrow> (Refuse 429 ''source-busy'', s)
           | Some s2 \<Rightarrow>
               (case source of
                  Resolved_Local src \<Rightarrow>
                    (if max 2 (2 * ps_max_concurrent (pv_settings s)) \<le> pv_inflight s then (Refuse 503 ''wedged'', s)
                     else (Extract_Local src request name, s2))
                | Resolved_Agent i \<Rightarrow> (Extract_Agent i request name, s2))))"

definition handle_inner ::
    "api_env \<Rightarrow> (string \<Rightarrow> string + json option) \<Rightarrow> agent_registry \<Rightarrow> request_body \<Rightarrow> bool \<Rightarrow> bool
       \<Rightarrow> pcap_service \<Rightarrow> handled \<times> pcap_service" where
  "handle_inner env events reg body dry_run native s =
     (case load_event events (rb_event_id body) of
        Inl h \<Rightarrow> (h, s)
      | Inr event \<Rightarrow>
     (let source = map_option (\<lambda>e. json_index e ''_source'') event
      in case build_request env body source (audit_new native) of
        Inl e \<Rightarrow> (Refuse (re_status e) (re_code e), s)
      | Inr ((f, w), au) \<Rightarrow>
     (case request_max_bytes (pv_settings s) (rb_max_size body) of
        Inl h \<Rightarrow> (h, s)
      | Inr max_bytes \<Rightarrow>
     (if \<not> dry_run \<and> \<not> native \<and> max_bytes > ps_max_bytes (pv_settings s) then (Refuse 413 ''max-size-too-large'', s)
      else case resolve_source s reg source (present (rb_source body)) of
        Inl e \<Rightarrow> (refuse_route e, s)
      | Inr src \<Rightarrow>
     (let name = api_filename source (w_start w div 1000000)
      in if dry_run then (Dry_Run_Ok name, s)
         else start_extraction reg src \<lparr>rq_filter = f, rq_start = Some (to_micros (w_start w)),
           rq_end = Some (to_micros (w_end w)), rq_limits = limits_default\<lparr>fl_max_bytes := max_bytes,
             fl_deadline := Some (ps_request_timeout (pv_settings s))\<rparr>\<rparr> name s)))))"

section \<open>Sources and the routing table\<close>

record source_row =
  sr_name :: string
  sr_kind :: string
  sr_hostname :: "string option"

definition list_sources :: "pcap_service \<Rightarrow> agent_registry \<Rightarrow> source_row list" where
  "list_sources s reg =
     (if has_source s then [\<lparr>sr_name = LOCAL_PCAP_SOURCE_NAME, sr_kind = ''server'', sr_hostname = None\<rparr>] else [])
     @ map (\<lambda>i. \<lparr>sr_name = ae_name (entry reg i), sr_kind = ''agent'', sr_hostname = Some (ae_hostname (entry reg i))\<rparr>)
         (pcap_agents reg)"

definition ROUTING_MAX_RULES :: nat where "ROUTING_MAX_RULES = 256"

definition trim_rule :: "routing_rule \<Rightarrow> string + routing_rule" where
  "trim_rule r =
     (let sensor = trim (rr_sensor r); source = trim (rr_source r)
      in if sensor = [] \<or> source = [] then Inl ''every routing rule requires a sensor and a source''
         else if MAX_AGENT_NAME_BYTES < length sensor \<or> MAX_AGENT_NAME_BYTES < length source
         then Inl ''sensor and source names are limited''
         else Inr \<lparr>rr_sensor = sensor, rr_source = source\<rparr>)"

fun trim_rules :: "routing_rule list \<Rightarrow> string + routing_rule list" where
  "trim_rules [] = Inr []"
| "trim_rules (r # rs) = try_then (trim_rule r) (\<lambda>r. try_then (trim_rules rs) (\<lambda>rs. Inr (r # rs)))"

definition trim_default :: "string option \<Rightarrow> string + string option" where
  "trim_default d =
     (case d of
        None \<Rightarrow> Inr None
      | Some d \<Rightarrow>
          (let d = trim d
           in if d = [] then Inl ''the default source must not be empty''
              else if MAX_AGENT_NAME_BYTES < length d then Inl ''sensor and source names are limited''
              else Inr (Some d)))"

text \<open>\<open>post_routing\<close>: nothing changes unless the table is valid and the save succeeded.\<close>

definition post_routing ::
    "(pcap_routing \<Rightarrow> string option) \<Rightarrow> pcap_routing \<Rightarrow> pcap_service \<Rightarrow> (string + unit) \<times> pcap_service" where
  "post_routing save routing s =
     (if ROUTING_MAX_RULES < length (pr_rules routing) then (Inl ''the routing table is limited'', s)
      else case try_then (trim_rules (pr_rules routing))
                  (\<lambda>rules. try_then (trim_default (pr_default routing))
                     (\<lambda>d. Inr \<lparr>pr_rules = rules, pr_default = d\<rparr>)) of
        Inl e \<Rightarrow> (Inl e, s)
      | Inr routing \<Rightarrow>
          (case save routing of
             Some e \<Rightarrow> (Inl e, s)
           | None \<Rightarrow> (Inr (), set_routing routing s)))"

section \<open>Lemmas\<close>

lemma map_error_Inr [simp]: "map_error f r = Inr x \<longleftrightarrow> r = Inr x"
  by (simp add: map_error_def split: sum.splits)

lemma freeform_window: "freeform_request env body start au = Inr ((f, w), au') \<Longrightarrow> w_start w \<le> w_end w \<and> w_end w \<le> ch_max (ap_chrono env)"
  by (auto simp: freeform_request_def window_from_start_def build_filter_or_all_def split: option.splits)

lemma relative_window: "relative_request env body source au = Inr ((f, w), au') \<Longrightarrow> w_start w \<le> w_end w \<and> w_end w \<le> ch_max (ap_chrono env)"
  by (auto simp: relative_request_def window_around_event_def Let_def split: option.splits prod.splits)

lemma derive_window_order: "derive_window ch event = Inr w \<Longrightarrow> w_start w \<le> w_end w \<and> w_end w \<le> ch_max ch"
proof -
  assume d: "derive_window ch event = Inr w"
  then obtain fs where fs: "flow_start ch event = Inr fs" by (auto simp: derive_window_def)
  then have "window_ok ch w"
    using d derive_window_flow derive_window_other derive_window_none by (cases fs) blast+
  then show ?thesis by (simp add: window_ok_def)
qed

lemma default_window: "default_request env source au = Inr ((f, w), au') \<Longrightarrow> w_start w \<le> w_end w \<and> w_end w \<le> ch_max (ap_chrono env)"
  by (auto simp: default_request_def split: prod.splits dest: derive_window_order)

lemma request_window: "build_request env body source au = Inr ((f, w), au') \<Longrightarrow> w_start w \<le> w_end w \<and> w_end w \<le> ch_max (ap_chrono env)"
  by (auto simp: build_request_def split: option.splits if_splits dest: freeform_window relative_window default_window)

lemma to_micros_mono: "a \<le> b \<Longrightarrow> b < 2 ^ 64 \<Longrightarrow> to_micros a \<le> to_micros b"
proof -
  assume ab: "a \<le> b" "b < 2 ^ 64"
  have u: "uint (to_micros t) = max 0 t" if "t < 2 ^ 64" for t
    using that by (auto simp: to_micros_def try_from_int_def take_bit_int_eq_self uint_word_of_int)
  show ?thesis using ab by (simp add: word_le_def u)
qed

text \<open>What an extraction is given: both bounds in order, the scan deadline, at most the server's size
  limit unless the response is streamed, and a source that can serve.\<close>

definition request_ok :: "api_env \<Rightarrow> pcap_settings \<Rightarrow> bool \<Rightarrow> pcap_request \<Rightarrow> bool" where
  "request_ok env settings native rq \<longleftrightarrow>
     (case (rq_start rq, rq_end rq) of (Some a, Some b) \<Rightarrow> a \<le> b | _ \<Rightarrow> False)
     \<and> fl_deadline (rq_limits rq) = Some (ps_request_timeout settings)
     \<and> (native \<or> fl_max_bytes (rq_limits rq) \<le> ps_max_bytes settings)"

definition takes_permits :: "agent_registry \<Rightarrow> resolved_source \<Rightarrow> pcap_service \<Rightarrow> pcap_service \<Rightarrow> bool" where
  "takes_permits reg source s s' \<longleftrightarrow> Option.bind (try_acquire_global s) (try_acquire_source reg source) = Some s'"

lemma start_extraction_cases:
  "start_extraction reg source rq name s = (h, s') \<Longrightarrow>
     (case h of Extract_Local src rq' n \<Rightarrow> source = Resolved_Local src \<and> rq' = rq \<and> n = name \<and> takes_permits reg source s s'
      | Extract_Agent i rq' n \<Rightarrow> source = Resolved_Agent i \<and> rq' = rq \<and> n = name \<and> takes_permits reg source s s'
      | Refuse status code \<Rightarrow> s' = s \<and> (status, code) \<in> {(429, ''busy''), (429, ''source-busy''), (503, ''wedged'')}
      | _ \<Rightarrow> False)"
  by (auto simp: start_extraction_def takes_permits_def split: option.splits resolved_source.splits if_splits)

text \<open>A handled request is refused before a source is chosen, or goes on with one.\<close>

definition prepared :: "api_env \<Rightarrow> (string \<Rightarrow> string + json option) \<Rightarrow> agent_registry \<Rightarrow> request_body \<Rightarrow> bool \<Rightarrow> bool
    \<Rightarrow> pcap_service \<Rightarrow> handled + resolved_source \<times> pcap_request \<times> string" where
  "prepared env events reg body dry_run native s =
     try_then (load_event events (rb_event_id body)) (\<lambda>event.
     let source = map_option (\<lambda>e. json_index e ''_source'') event
     in try_then (map_error (\<lambda>e. Refuse (re_status e) (re_code e)) (build_request env body source (audit_new native))) (\<lambda>((f, w), au).
     try_then (request_max_bytes (pv_settings s) (rb_max_size body)) (\<lambda>max_bytes.
     if \<not> dry_run \<and> \<not> native \<and> max_bytes > ps_max_bytes (pv_settings s) then Inl (Refuse 413 ''max-size-too-large'')
     else try_then (map_error refuse_route (resolve_source s reg source (present (rb_source body)))) (\<lambda>src.
       Inr (src, \<lparr>rq_filter = f, rq_start = Some (to_micros (w_start w)), rq_end = Some (to_micros (w_end w)),
         rq_limits = limits_default\<lparr>fl_max_bytes := max_bytes, fl_deadline := Some (ps_request_timeout (pv_settings s))\<rparr>\<rparr>,
         api_filename source (w_start w div 1000000))))))"

lemma handle_inner_prepared:
  "handle_inner env events reg body dry_run native s =
     (case prepared env events reg body dry_run native s of
        Inl h \<Rightarrow> (h, s)
      | Inr (src, rq, name) \<Rightarrow> if dry_run then (Dry_Run_Ok name, s) else start_extraction reg src rq name s)"
proof (cases "load_event events (rb_event_id body)")
  case (Inr event)
  let ?source = "map_option (\<lambda>e. json_index e ''_source'') event"
  show ?thesis
  proof (cases "build_request env body ?source (audit_new native)")
    case (Inr r)
    obtain f w au where r: "r = ((f, w), au)" by (cases r) auto
    show ?thesis
    proof (cases "request_max_bytes (pv_settings s) (rb_max_size body)")
      case (Inr mb)
      then show ?thesis using \<open>load_event events (rb_event_id body) = Inr event\<close> \<open>build_request env body ?source (audit_new native) = Inr r\<close> r
        by (cases "resolve_source s reg ?source (present (rb_source body))")
          (simp_all add: handle_inner_def prepared_def map_error_def Let_def)
    qed (use \<open>load_event events (rb_event_id body) = Inr event\<close> \<open>build_request env body ?source (audit_new native) = Inr r\<close> r in
          \<open>simp add: handle_inner_def prepared_def map_error_def Let_def\<close>)
  qed (use \<open>load_event events (rb_event_id body) = Inr event\<close> in \<open>simp add: handle_inner_def prepared_def map_error_def Let_def\<close>)
qed (simp add: handle_inner_def prepared_def)

fun is_refusal :: "handled \<Rightarrow> bool" where
  "is_refusal (Refuse status code) = True"
| "is_refusal (Refuse_Ambiguous cs) = True"
| "is_refusal _ = False"

lemma refuse_route_refusal [simp]: "is_refusal (refuse_route e)"
  by (cases e) simp_all

lemma prepared_refuses: "prepared env events reg body dry_run native s = Inl h \<Longrightarrow> is_refusal h"
  by (auto simp: prepared_def Let_def load_event_def request_max_bytes_def map_error_def
    split: option.splits sum.splits prod.splits if_splits)

lemma prepared_ok:
  assumes "prepared env events reg body False native s = Inr (src, rq, name)" and "reg_ok reg" and "ch_max (ap_chrono env) < 2 ^ 64"
  shows "request_ok env (pv_settings s) native rq \<and> can_serve s reg src"
proof -
  obtain event f w au mb where b: "build_request env body event (audit_new native) = Inr ((f, w), au)"
    "rq_start rq = Some (to_micros (w_start w))" "rq_end rq = Some (to_micros (w_end w))"
    "fl_deadline (rq_limits rq) = Some (ps_request_timeout (pv_settings s))"
    "native \<or> mb \<le> ps_max_bytes (pv_settings s)" "fl_max_bytes (rq_limits rq) = mb"
    "resolve_source s reg event (present (rb_source body)) = Inr src"
    using assms(1) by (auto simp: prepared_def Let_def not_less split: if_splits) blast+
  have "to_micros (w_start w) \<le> to_micros (w_end w)"
    using request_window [OF b(1)] assms(3) by (intro to_micros_mono) auto
  then show ?thesis using b resolve_serves [OF assms(2) b(7)] by (simp add: request_ok_def)
qed

text \<open>The filter and the window do not depend on the audit record, nor does the preparation on the
  kind of request, as long as the response is not buffered.\<close>

definition same_request :: "'e + ('a \<times> audit) \<Rightarrow> 'e + ('a \<times> audit) \<Rightarrow> bool" where
  "same_request r r' \<longleftrightarrow> (case (r, r') of (Inl e, Inl e') \<Rightarrow> e = e' | (Inr (x, au), Inr (x', au')) \<Rightarrow> x = x' | _ \<Rightarrow> False)"

lemma same_request_simps [simp]:
  "same_request (Inl e) r \<longleftrightarrow> r = Inl e" "same_request (Inr (x, au)) r \<longleftrightarrow> (\<exists>au'. r = Inr (x, au'))"
  by (auto simp: same_request_def split: sum.splits)

lemma same_request_try: "(\<And>x. same_request (f x) (g x)) \<Longrightarrow> same_request (try_then r f) (try_then r g)"
  by (cases r) auto

lemma same_request_bind:
  "same_request r r' \<Longrightarrow> (\<And>x au au'. same_request (f (x, au)) (g (x, au'))) \<Longrightarrow> same_request (try_then r f) (try_then r' g)"
  by (cases r) auto

lemma same_request_freeform: "same_request (freeform_request env body start au) (freeform_request env body start au')"
  unfolding freeform_request_def
  by (intro same_request_try) (auto simp: build_filter_or_all_def split: option.splits)

lemma same_request_flow: "same_request (derive_flow env source au) (derive_flow env source au')"
  by (simp add: derive_flow_def split: sum.splits)

lemma same_request_flow_then:
  "same_request (try_then (derive_flow env v a) (\<lambda>(s, au). Inr ((Some (Flow s), w), au)))
     (try_then (derive_flow env v b) (\<lambda>(s, au). Inr ((Some (Flow s), w), au)))"
  by (rule same_request_bind [OF same_request_flow]) simp

lemma same_request_relative: "same_request (relative_request env body source au) (relative_request env body source au')"
  unfolding relative_request_def Let_def
  by (intro same_request_try) (cases "present (rb_filter body)"; simp only: option.case same_request_flow_then; simp)

lemma same_request_default: "same_request (default_request env source au) (default_request env source au')"
  unfolding default_request_def
  by (rule same_request_bind [OF same_request_flow]) (simp, rule same_request_try, simp)

lemma same_request_build: "same_request (build_request env body source au) (build_request env body source au')"
  using same_request_freeform same_request_relative same_request_default
  by (cases "present (rb_start body)"; cases source) (simp_all add: build_request_def)

lemma prepared_dry:
  "prepared env events reg body True native s = prepared env events reg body False True s"
proof (cases "load_event events (rb_event_id body)")
  case (Inr event)
  let ?source = "map_option (\<lambda>e. json_index e ''_source'') event"
  have "same_request (build_request env body ?source (audit_new native)) (build_request env body ?source (audit_new True))"
    by (rule same_request_build)
  then show ?thesis using Inr
    by (cases "build_request env body ?source (audit_new native)"; cases "build_request env body ?source (audit_new True)")
      (auto simp: prepared_def same_request_def map_error_def Let_def)
qed (simp add: prepared_def)

section \<open>Properties\<close>


definition example_api :: api_env where
  "example_api = \<lparr>ap_chrono = \<lparr>ch_parse = (\<lambda>s. Some 5), ch_min = 0, ch_max = 10 ^ 15\<rparr>, ap_humantime = (\<lambda>s. Inr 60000000),
     ap_max_span = 10 ^ 15, ap_ip_parse = (\<lambda>s. None)\<rparr>"

definition example_body :: request_body where
  "example_body = \<lparr>rb_event_id = None, rb_filter = None, rb_start = Some ''s'', rb_duration = None, rb_before = None,
     rb_after = None, rb_max_size = None, rb_source = None\<rparr>"

lemma example_trim: "trim ''s'' = ''s''" "trim ''1m'' = ''1m''"
  by (simp_all add: trim_def trim_start_def trim_end_def white_space_def string_eval)

lemma example_span: "parse_span example_api None = Inr 60000000"
  by (simp add: parse_span_def present_def parse_duration_seconds_def example_trim example_api_def string_eval)

lemma example_built:
  "build_request example_api example_body None (audit_new True) = Inr ((None, \<lparr>w_start = 5, w_end = 60000005\<rparr>),
     \<lparr>au_mode = ''freeform'', au_filter = ''all'', au_window = Some \<lparr>w_start = 5, w_end = 60000005\<rparr>, au_source = ''-'', au_native = True\<rparr>)"
proof -
  have c: "ch_parse (ap_chrono example_api) = (\<lambda>s. Some 5)" "ch_min (ap_chrono example_api) = 0"
    "ch_max (ap_chrono example_api) = 10 ^ 15"
    by (simp_all add: example_api_def)
  show ?thesis
    by (simp add: build_request_def freeform_request_def example_body_def present_def example_trim datetime_parse_def map_error_def
      example_span window_from_start_def checked_ts_def mk_window_def build_filter_or_all_def audit_new_def c)
qed

definition example_service :: pcap_service where
  "example_service = service_new settings_default (Some (Files []))"

lemma example_route: "resolve_source example_service agents_new None None = Inr (Resolved_Local (Files []))"
  by (simp add: resolve_source_def example_service_def service_new_def routing_is_empty_def routing_default_def
    implicit_source_def unstamped_source_def any_source_def local_source_def pcap_agents_def agents_new_def the_source_def)


text \<open>The pre-flight tells the truth: it refuses exactly what the download refuses, with the same
  refusal, unless the server or the source is too busy to start it, and what it accepts starts with
  the file name it gave.\<close>

theorem preflight_agrees:
  "case fst (handle_inner env events reg body True native s) of
     Dry_Run_Ok name \<Rightarrow>
       (case fst (handle_inner env events reg body False True s) of
          Extract_Local src rq n \<Rightarrow> n = name | Extract_Agent i rq n \<Rightarrow> n = name
        | Refuse status code \<Rightarrow> (status, code) \<in> {(429, ''busy''), (429, ''source-busy''), (503, ''wedged'')}
        | _ \<Rightarrow> False)
   | h \<Rightarrow> fst (handle_inner env events reg body False True s) = h"
proof (cases "prepared env events reg body False True s")
  case (Inl h)
  then show ?thesis using prepared_refuses [OF Inl] by (cases h) (auto simp: handle_inner_prepared prepared_dry)
next
  case (Inr r)
  obtain src rq name where r: "r = (src, rq, name)" by (cases r) auto
  obtain h s' where st: "start_extraction reg src rq name s = (h, s')" by fastforce
  show ?thesis using start_extraction_cases [OF st] Inr r st
    by (auto simp: handle_inner_prepared prepared_dry split: handled.splits)
qed

end
