(* ===== verification/Pcap_Stream.thy ===== *)
theory Pcap_Stream
  imports Pcap_Api Pcap_Tasks
begin

text \<open>
  The response of a capture request (\<open>src/src/server/api/pcap.rs\<close>): the frames a producer sends, the
  body stream the browser reads, the local extraction's writer and response, and the supervisor of a
  remote extraction. A channel is the list of what comes out of it until it is closed; waiting with a
  timeout is an event of its own.
\<close>

section \<open>Frames and cancellation\<close>

datatype producer_end = End_Complete bool | End_NoCandidateFiles | End_NoMatch | End_Format string | End_Io

datatype frame = Data "u8 list" | Done producer_end

definition producer_end_of :: "fetch_error + fetch_stats \<Rightarrow> producer_end" where
  "producer_end_of r =
     (case r of
        Inr stats \<Rightarrow> End_Complete (fs_truncated stats)
      | Inl NoCandidateFiles \<Rightarrow> End_NoCandidateFiles
      | Inl (NoMatch _) \<Rightarrow> End_NoMatch
      | Inl (Format message) \<Rightarrow> End_Format message
      | Inl (Io _) \<Rightarrow> End_Io)"

datatype cancel_cause = Cause_None | Cause_Timeout | Cause_Client

record cancellation =
  cn_cause :: cancel_cause
  cn_cancelled :: bool

definition reason_set :: "cancel_cause \<Rightarrow> cancellation \<Rightarrow> cancellation" where
  "reason_set cause c = (if cn_cause c = Cause_None then c\<lparr>cn_cause := cause\<rparr> else c)"

definition cancel_now :: "cancellation \<Rightarrow> cancellation" where
  "cancel_now c = c\<lparr>cn_cancelled := True\<rparr>"

text \<open>Dropping a guard that was not disarmed.\<close>

definition guard_drop :: "bool \<Rightarrow> cancellation \<Rightarrow> cancellation" where
  "guard_drop done c = (if done then c else cancel_now (reason_set Cause_Client c))"

section \<open>The body\<close>

text \<open>The completion flag is there only for a buffered response.\<close>

record body_state =
  bs_rx :: "frame list"
  bs_queued :: "u8 list list"
  bs_finished :: bool
  bs_completion :: "bool option"
  bs_disarmed :: bool

definition body_end :: "producer_end \<Rightarrow> body_state \<Rightarrow> (string + u8 list) option \<times> body_state" where
  "body_end e st =
     (let st = st\<lparr>bs_disarmed := True, bs_finished := True,
        bs_completion := (if e = End_Complete True then map_option (\<lambda>_. True) (bs_completion st) else bs_completion st)\<rparr>
      in case e of
           End_Format _ \<Rightarrow> (Some (Inl ''pcap extraction failed''), st)
         | End_Io \<Rightarrow> (Some (Inl ''pcap extraction failed''), st)
         | _ \<Rightarrow> (None, st))"

definition body_next :: "body_state \<Rightarrow> (string + u8 list) option \<times> body_state" where
  "body_next st =
     (case bs_queued st of
        chunk # rest \<Rightarrow> (Some (Inr chunk), st\<lparr>bs_queued := rest\<rparr>)
      | [] \<Rightarrow>
          if bs_finished st then (None, st)
          else case bs_rx st of
            Data chunk # rest \<Rightarrow> (Some (Inr chunk), st\<lparr>bs_rx := rest\<rparr>)
          | Done e # rest \<Rightarrow> body_end e (st\<lparr>bs_rx := rest\<rparr>)
          | [] \<Rightarrow> (Some (Inl ''pcap extraction ended unexpectedly''), st\<lparr>bs_disarmed := True, bs_finished := True\<rparr>))"

text \<open>The whole body as it is read: the chunks up to its end, which is clean or an error.\<close>

definition body_size :: "body_state \<Rightarrow> nat" where
  "body_size st = length (bs_queued st) + length (bs_rx st) + (if bs_finished st then 0 else 1)"

lemma body_next_size: "body_next st = (Some x, st') \<Longrightarrow> body_size st' < body_size st"
  by (auto simp: body_next_def body_end_def body_size_def Let_def split: list.splits if_splits frame.splits producer_end.splits)

function body_read :: "body_state \<Rightarrow> u8 list list \<times> string option \<times> body_state" where
  "body_read st =
     (case body_next st of
        (None, st) \<Rightarrow> ([], None, st)
      | (Some (Inl e), st) \<Rightarrow> ([], Some e, st)
      | (Some (Inr chunk), st) \<Rightarrow> (case body_read st of (chunks, e, st) \<Rightarrow> (chunk # chunks, e, st)))"
  by pat_completeness auto

termination by (relation "measure body_size") (auto dest: sym [THEN body_next_size])

declare body_read.simps [simp del]

section \<open>Responses\<close>

datatype response =
    Resp_Error nat string
  | Resp_Empty_Pcap
  | Resp_Empty bool
  | Resp_Chunk "u8 list" bool
  | Resp_Stream body_state

text \<open>\<open>Resp_Empty\<close> and \<open>Resp_Chunk\<close> say whether the truncation header is set.\<close>

definition le32 :: "u32 \<Rightarrow> u8 list" where
  "le32 w = [ucast w, ucast (drop_bit 8 w), ucast (drop_bit 16 w), ucast (drop_bit 24 w)]"

definition empty_pcap_bytes :: "u8 list" where
  "empty_pcap_bytes = le32 0xa1b2c3d4 @ [2, 0, 4, 0] @ replicate 8 0 @ le32 262144 @ le32 1"

definition empty_response :: "bool \<Rightarrow> producer_end \<Rightarrow> response" where
  "empty_response native e =
     (case e of
        End_Format message \<Rightarrow> Resp_Error 502 ''format''
      | End_Io \<Rightarrow> Resp_Error 502 ''io''
      | _ \<Rightarrow>
          if native then Resp_Empty_Pcap
          else case e of
            End_Complete truncated \<Rightarrow> Resp_Empty truncated
          | End_NoCandidateFiles \<Rightarrow> Resp_Error 404 ''no-candidate-files''
          | _ \<Rightarrow> Resp_Error 404 ''no-match'')"

definition stream_of :: "bool \<Rightarrow> u8 list list \<Rightarrow> frame list \<Rightarrow> body_state" where
  "stream_of native queued rx = \<lparr>bs_rx = rx, bs_queued = queued, bs_finished = False,
     bs_completion = (if native then None else Some False), bs_disarmed = False\<rparr>"

text \<open>\<open>buffer_post_body\<close>: a streamed response is read to its end, and sent only if that was clean and
  it fits.\<close>

definition buffer_post_body :: "response \<Rightarrow> u64 \<Rightarrow> response" where
  "buffer_post_body r max_bytes =
     (case r of
        Resp_Stream st \<Rightarrow>
          (if bs_completion st = None then r
           else case body_read st of
             (chunks, e, st) \<Rightarrow>
               (if e \<noteq> None \<or> unat max_bytes < length (concat chunks) then Resp_Error 502 ''io''
                else Resp_Chunk (concat chunks) (bs_completion st = Some True)))
      | _ \<Rightarrow> r)"

section \<open>The local producer\<close>

definition CHUNK_SIZE :: nat where "CHUNK_SIZE = 64 * 1024"

datatype io_kind = Kind_BrokenPipe | Kind_TimedOut | Kind_Other

text \<open>One attempt to send: taken, closed, or full, and then whether the request is cancelled and
  whether the stall timeout has passed.\<close>

datatype send_try = Try_Ok | Try_Closed | Try_Full bool bool

record channel_writer =
  cw_buf :: "u8 list"
  cw_sent :: "frame list"

definition channel_writer_new :: channel_writer where
  "channel_writer_new = \<lparr>cw_buf = [], cw_sent = []\<rparr>"

type_synonym io_result = "(io_kind \<times> string) + unit"

text \<open>The attempts are consumed; when they run out the call has not returned yet, which is no result.\<close>

fun send_frame :: "send_try list \<Rightarrow> frame \<Rightarrow> channel_writer \<Rightarrow> (io_result \<times> channel_writer \<times> send_try list) option" where
  "send_frame [] f w = None"
| "send_frame (Try_Ok # ts) f w = Some (Inr (), w\<lparr>cw_sent := cw_sent w @ [f]\<rparr>, ts)"
| "send_frame (Try_Closed # ts) f w = Some (Inl (Kind_BrokenPipe, ''pcap receiver dropped''), w, ts)"
| "send_frame (Try_Full cancelled late # ts) f w =
     (if cancelled then Some (Inl (Kind_BrokenPipe, ''pcap request cancelled''), w, ts)
      else if late then Some (Inl (Kind_TimedOut, ''pcap client stalled''), w, ts)
      else send_frame ts f w)"

definition writer_push :: "send_try list \<Rightarrow> channel_writer \<Rightarrow> (io_result \<times> channel_writer \<times> send_try list) option" where
  "writer_push ts w =
     (if cw_buf w = [] then Some (Inr (), w, ts) else send_frame ts (Data (cw_buf w)) (w\<lparr>cw_buf := []\<rparr>))"

datatype writer_op = Write_Bytes "u8 list" | Flush_Bytes

definition writer_do :: "writer_op \<Rightarrow> send_try list \<Rightarrow> channel_writer \<Rightarrow> (io_result \<times> channel_writer \<times> send_try list) option" where
  "writer_do op ts w =
     (case op of
        Write_Bytes data \<Rightarrow>
          (let w = w\<lparr>cw_buf := cw_buf w @ data\<rparr>
           in if CHUNK_SIZE \<le> length (cw_buf w) then writer_push ts w else Some (Inr (), w, ts))
      | Flush_Bytes \<Rightarrow> writer_push ts w)"

text \<open>The fetch ends at the first error of its output.\<close>

fun writer_run :: "writer_op list \<Rightarrow> send_try list \<Rightarrow> channel_writer \<Rightarrow> (io_result \<times> channel_writer \<times> send_try list) option" where
  "writer_run [] ts w = Some (Inr (), w, ts)"
| "writer_run (op # ops) ts w =
     (case writer_do op ts w of
        Some (Inr _, w, ts) \<Rightarrow> writer_run ops ts w
      | r \<Rightarrow> r)"

text \<open>\<open>run_extraction\<close>: the fetch, given by what it writes and what it returns when the output takes
  all of it, and the final flush. An output error becomes the fetch's own error.\<close>

type_synonym extraction = "(io_kind \<times> fetch_error) + fetch_stats"

definition run_extraction ::
    "writer_op list \<Rightarrow> extraction \<Rightarrow> send_try list \<Rightarrow> channel_writer
       \<Rightarrow> (extraction \<times> channel_writer \<times> send_try list) option" where
  "run_extraction ops result ts w =
     (case writer_run ops ts w of
        None \<Rightarrow> None
      | Some (Inl (kind, e), w, ts) \<Rightarrow> Some (Inl (kind, Io e), w, ts)
      | Some (Inr _, w, ts) \<Rightarrow>
          (case result of
             Inl e \<Rightarrow> Some (Inl e, w, ts)
           | Inr stats \<Rightarrow>
               (case writer_push ts w of
                  None \<Rightarrow> None
                | Some (Inl (kind, e), w, ts) \<Rightarrow> Some (Inl (kind, Io e), w, ts)
                | Some (Inr _, w, ts) \<Rightarrow> Some (Inr stats, w, ts))))"

definition client_gone :: "extraction \<Rightarrow> bool" where
  "client_gone r \<longleftrightarrow>
     (case r of Inl (kind, Io e) \<Rightarrow> kind = Kind_TimedOut \<or> kind = Kind_BrokenPipe | _ \<Rightarrow> False)"

definition plain_result :: "extraction \<Rightarrow> fetch_error + fetch_stats" where
  "plain_result r = map_error snd r"

definition finish_producer ::
    "extraction \<Rightarrow> send_try list \<Rightarrow> channel_writer \<Rightarrow> (extraction \<times> channel_writer) option" where
  "finish_producer result ts w =
     (if client_gone result then Some (result, w)
      else case send_frame ts (Done (producer_end_of (plain_result result))) w of
        None \<Rightarrow> None
      | Some (Inr _, w, ts) \<Rightarrow> Some (result, w)
      | Some (Inl (kind, e), w, ts) \<Rightarrow>
          (case result of
             Inr stats \<Rightarrow> (if kind = Kind_TimedOut \<or> kind = Kind_BrokenPipe then Some (Inl (kind, Io e), w) else Some (result, w))
           | Inl _ \<Rightarrow> Some (result, w)))"

definition local_producer ::
    "writer_op list \<Rightarrow> extraction \<Rightarrow> send_try list \<Rightarrow> (extraction \<times> channel_writer) option" where
  "local_producer ops result ts =
     (case run_extraction ops result ts channel_writer_new of
        None \<Rightarrow> None | Some (r, w, ts) \<Rightarrow> finish_producer r ts w)"

text \<open>What the handler got while it waited for the first frame, then a second look at the channel.\<close>

datatype first_wait = Wait_Timeout | Wait_Frames "frame list"

definition local_response :: "bool \<Rightarrow> first_wait \<Rightarrow> bool \<Rightarrow> cancellation \<Rightarrow> response \<times> cancellation" where
  "local_response native first ready c =
     (case first of
        Wait_Timeout \<Rightarrow> (Resp_Error 504 ''timeout'', cancel_now (reason_set Cause_Timeout c))
      | Wait_Frames [] \<Rightarrow> (Resp_Error 500 ''internal'', c)
      | Wait_Frames (Done e # rest) \<Rightarrow> (empty_response native e, c)
      | Wait_Frames (Data chunk # rest) \<Rightarrow>
          (if \<not> ready then (Resp_Stream (stream_of native [chunk] rest), c)
           else case rest of
             Done (End_Format message) # _ \<Rightarrow> (Resp_Error 502 ''format'', c)
           | Done End_Io # _ \<Rightarrow> (Resp_Error 502 ''io'', c)
           | Done e # _ \<Rightarrow> (Resp_Chunk chunk (e = End_Complete True), c)
           | Data chunk2 # rest \<Rightarrow> (Resp_Stream (stream_of native [chunk, chunk2] rest), c)
           | [] \<Rightarrow> (Resp_Stream (stream_of native [chunk] []), c)))"

text \<open>\<open>await_outcome\<close>: the producer resolves, the request is cancelled (and the producer may still
  resolve within the grace), or a check finds when the last frame was handed off. \<open>Some None\<close>
  is the producer given up; \<open>None\<close>, still waiting.\<close>

datatype 'r await_event = Await_Resolved 'r | Await_Cancelled "'r option" | Await_Tick nat nat

fun await_outcome :: "nat \<Rightarrow> 'r await_event list \<Rightarrow> 'r option option" where
  "await_outcome idle_bound_ms [] = None"
| "await_outcome idle_bound_ms (Await_Resolved r # es) = Some (Some r)"
| "await_outcome idle_bound_ms (Await_Cancelled r # es) = Some r"
| "await_outcome idle_bound_ms (Await_Tick elapsed last_progress # es) =
     (if idle_bound_ms \<le> elapsed - last_progress then Some None else await_outcome idle_bound_ms es)"

section \<open>The remote extraction\<close>

text \<open>Waiting for the first byte of a remote extraction: what the handles of the job deliver.\<close>

datatype job_event = Job_Body "u8 list option" | Job_Result "pcap_result option" | Job_Upload "upload_state option"

datatype remote_first =
    First_Data "u8 list"
  | First_Terminal remote_outcome "wire_stats option"
  | First_Upload_Failed string
  | First_Timeout

record remote_wait =
  rw_terminal :: "pcap_result option"
  rw_body_open :: bool
  rw_result_open :: bool
  rw_upload :: upload_state

definition remote_wait_new :: remote_wait where
  "remote_wait_new = \<lparr>rw_terminal = None, rw_body_open = True, rw_result_open = True, rw_upload = Pending\<rparr>"

definition result_closed :: pcap_result where
  "result_closed = \<lparr>res_code = Code_Error, res_upload = Upload_Failed,
     res_message = Some ''agent result channel closed'', res_stats = None\<rparr>"

definition wait_check :: "remote_wait \<Rightarrow> remote_first option" where
  "wait_check st =
     (case rw_upload st of
        Broken reason n \<Rightarrow> Some (First_Upload_Failed reason)
      | upload \<Rightarrow>
          (case rw_terminal st of
             None \<Rightarrow> None
           | Some r \<Rightarrow>
               (case classify_result r upload (rw_body_open st) 0 of
                  Wait \<Rightarrow> None | outcome \<Rightarrow> Some (First_Terminal outcome (res_stats r)))))"

text \<open>The list ends when the request times out.\<close>

fun wait_first :: "job_event list \<Rightarrow> remote_wait \<Rightarrow> remote_first \<times> remote_wait" where
  "wait_first [] st = (case wait_check st of Some first \<Rightarrow> (first, st) | None \<Rightarrow> (First_Timeout, st))"
| "wait_first (e # es) st =
     (case wait_check st of
        Some first \<Rightarrow> (first, st)
      | None \<Rightarrow>
          (case e of
             Job_Body (Some chunk) \<Rightarrow> if rw_body_open st then (First_Data chunk, st) else wait_first es st
           | Job_Body None \<Rightarrow> wait_first es (st\<lparr>rw_body_open := False\<rparr>)
           | Job_Result r \<Rightarrow>
               (if rw_result_open st
                then wait_first es (st\<lparr>rw_result_open := False, rw_terminal := Some (case r of Some r \<Rightarrow> r | None \<Rightarrow> result_closed)\<rparr>)
                else wait_first es st)
           | Job_Upload (Some u) \<Rightarrow> wait_first es (st\<lparr>rw_upload := u\<rparr>)
           | Job_Upload None \<Rightarrow> (First_Upload_Failed ''upload-state-closed'', st)))"

text \<open>\<open>remote_empty_response\<close>; \<open>Wait\<close> is never terminal.\<close>

definition remote_empty_response :: "bool \<Rightarrow> remote_outcome \<Rightarrow> response option" where
  "remote_empty_response native outcome =
     (case outcome of
        Wait \<Rightarrow> None
      | Remote_Complete stats \<Rightarrow> Some (empty_response native (End_Complete (ws_truncated stats)))
      | Remote_NoCandidateFiles \<Rightarrow> Some (empty_response native End_NoCandidateFiles)
      | Remote_NoMatch \<Rightarrow> Some (empty_response native End_NoMatch)
      | Remote_Cancelled m \<Rightarrow> Some (Resp_Error 502 ''agent-cancelled'')
      | Remote_Error m \<Rightarrow> Some (Resp_Error 502 ''agent-error'')
      | Protocol d \<Rightarrow> Some (Resp_Error 502 ''agent-protocol''))"

text \<open>The supervisor that forwards the rest: its state, what a wait brings it, and how it ends. What came
  of forwarding a chunk to the response within the stall timeout comes with the chunk.\<close>

datatype forward = Forwarded | Body_Closed | Body_Stalled

datatype remote_event =
    Ev_Data "u8 list option" forward
  | Ev_Upload "upload_state option"
  | Ev_Result "pcap_result option"
  | Ev_Cancelled
  | Ev_Idle

record remote_state =
  rm_bytes :: u64
  rm_result :: "pcap_result option"
  rm_upload :: upload_state
  rm_body_open :: bool
  rm_result_open :: bool
  rm_sent :: "frame list"

type_synonym remote_end = "producer_end \<times> (string \<times> string)"

definition remote_check :: "remote_state \<Rightarrow> remote_end option" where
  "remote_check st =
     (case rm_upload st of
        Broken reason n \<Rightarrow> Some (End_Io, (''agent-upload-error'', reason))
      | upload \<Rightarrow>
          (case rm_result st of
             None \<Rightarrow> None
           | Some r \<Rightarrow>
               (case classify_result r upload (rm_body_open st) (rm_bytes st) of
                  Wait \<Rightarrow> None
                | Remote_Complete stats \<Rightarrow> Some (End_Complete (ws_truncated stats), ([], []))
                | Remote_NoCandidateFiles \<Rightarrow> Some (End_Io, (''agent-protocol'', ''empty result arrived after an upload had started''))
                | Remote_NoMatch \<Rightarrow> Some (End_Io, (''agent-protocol'', ''empty result arrived after an upload had started''))
                | Remote_Cancelled m \<Rightarrow> Some (End_Io, (''agent-cancelled'', or_message m ''pcap agent cancelled the request''))
                | Remote_Error m \<Rightarrow> Some (End_Io, (''agent-error'', m))
                | Protocol d \<Rightarrow> Some (End_Io, (''agent-protocol'', d)))))"

definition remote_data :: "u64 \<Rightarrow> u8 list \<Rightarrow> forward \<Rightarrow> remote_state \<Rightarrow> remote_end + remote_state" where
  "remote_data max_bytes chunk fwd st =
     (let len = (case try_from_int (int (length chunk)) of Some n \<Rightarrow> n | None \<Rightarrow> - 1)
      in case checked_add (rm_bytes st) len of
           None \<Rightarrow> Inl (End_Io, (''agent-protocol'', ''pcap upload byte count overflowed''))
         | Some total_bytes \<Rightarrow>
             if total_bytes > max_bytes then Inl (End_Io, (''agent-protocol'', ''pcap upload exceeded its dispatched byte limit''))
             else case fwd of
               Forwarded \<Rightarrow> Inr (st\<lparr>rm_bytes := total_bytes, rm_sent := rm_sent st @ [Data chunk]\<rparr>)
             | Body_Closed \<Rightarrow> Inl (End_Io, (''client-closed'', ''browser response body closed''))
             | Body_Stalled \<Rightarrow> Inl (End_Io, (''client-stalled'', ''browser did not drain pcap output'')))"

fun remote_on :: "u64 \<Rightarrow> remote_event \<Rightarrow> remote_state \<Rightarrow> remote_end + remote_state" where
  "remote_on max_bytes (Ev_Data (Some chunk) fwd) st =
     (if rm_body_open st then remote_data max_bytes chunk fwd st else Inr st)"
| "remote_on max_bytes (Ev_Data None fwd) st = Inr (st\<lparr>rm_body_open := False\<rparr>)"
| "remote_on max_bytes (Ev_Upload (Some u)) st = Inr (st\<lparr>rm_upload := u\<rparr>)"
| "remote_on max_bytes (Ev_Upload None) st = Inr (st\<lparr>rm_upload := Broken ''upload-state-closed'' (rm_bytes st)\<rparr>)"
| "remote_on max_bytes (Ev_Result r) st =
     (if \<not> rm_result_open st then Inr st
      else case r of
        Some r \<Rightarrow> Inr (st\<lparr>rm_result_open := False, rm_result := Some r\<rparr>)
      | None \<Rightarrow> Inl (End_Io, (''agent-error'', ''agent result channel closed'')))"
| "remote_on max_bytes Ev_Cancelled st = Inl (End_Io, (''client-closed'', ''browser cancelled the pcap response''))"
| "remote_on max_bytes Ev_Idle st =
     Inl (End_Io, if \<not> rm_body_open st \<and> rm_result st = None \<and> (case rm_upload st of Uploaded n \<Rightarrow> True | _ \<Rightarrow> False)
       then (''agent-result-timeout'', ''pcap agent omitted its terminal result after upload EOF'')
       else (''agent-stalled'', ''pcap agent made no upload or result progress''))"

text \<open>No end: the supervisor still waits after the given events.\<close>

fun remote_run :: "u64 \<Rightarrow> remote_event list \<Rightarrow> remote_state \<Rightarrow> remote_end option \<times> remote_state" where
  "remote_run max_bytes [] st = (remote_check st, st)"
| "remote_run max_bytes (e # es) st =
     (case remote_check st of
        Some r \<Rightarrow> (Some r, st)
      | None \<Rightarrow>
          (case remote_on max_bytes e st of
             Inl r \<Rightarrow> (Some r, st)
           | Inr st \<Rightarrow> remote_run max_bytes es st))"

definition remote_start :: "u8 list \<Rightarrow> remote_wait \<Rightarrow> upload_state \<Rightarrow> remote_state" where
  "remote_start first st upload = \<lparr>rm_bytes = (case try_from_int (int (length first)) of Some n \<Rightarrow> n | None \<Rightarrow> - 1),
     rm_result = rw_terminal st, rm_upload = upload, rm_body_open = rw_body_open st, rm_result_open = rw_result_open st,
     rm_sent = []\<rparr>"

text \<open>What the response's channel carries in the end: the forwarded chunks and, unless it could not be
  sent any more, the terminal frame.\<close>

definition remote_frames :: "remote_end \<Rightarrow> bool \<Rightarrow> remote_state \<Rightarrow> frame list" where
  "remote_frames r ok st = rm_sent st @ (if ok then [Done (fst r)] else [])"

section \<open>Lemmas: the body\<close>

text \<open>The data of a channel up to its terminal frame, and whether that ends the body cleanly.\<close>

fun frames_data :: "frame list \<Rightarrow> u8 list list" where
  "frames_data (Data chunk # fs) = chunk # frames_data fs"
| "frames_data _ = []"

fun frames_end :: "frame list \<Rightarrow> producer_end option" where
  "frames_end (Data chunk # fs) = frames_end fs"
| "frames_end (Done e # fs) = Some e"
| "frames_end [] = None"

fun clean_end :: "producer_end option \<Rightarrow> bool" where
  "clean_end (Some (End_Format m)) = False"
| "clean_end (Some End_Io) = False"
| "clean_end None = False"
| "clean_end _ = True"

lemma body_read_queued:
  "body_read (st\<lparr>bs_queued := q @ qs\<rparr>) =
     (case body_read (st\<lparr>bs_queued := qs\<rparr>) of (chunks, e, st) \<Rightarrow> (q @ chunks, e, st))"
proof (induction q)
  case (Cons c q)
  then show ?case by (subst body_read.simps) (simp add: body_next_def split: prod.splits)
qed (simp split: prod.splits)

lemma body_read_rx:
  "\<not> bs_finished st \<Longrightarrow> bs_queued st = [] \<Longrightarrow> \<exists>st'. body_read (st\<lparr>bs_rx := fs\<rparr>) =
     (frames_data fs, if clean_end (frames_end fs) then None else Some (if frames_end fs = None
       then ''pcap extraction ended unexpectedly'' else ''pcap extraction failed''), st')
     \<and> bs_disarmed st' \<and> bs_completion st' = (if frames_end fs = Some (End_Complete True)
         then map_option (\<lambda>_. True) (bs_completion st) else bs_completion st)"
proof (induction fs rule: frames_end.induct)
  case (1 chunk fs)
  then obtain st' where IH: "body_read (st\<lparr>bs_rx := fs\<rparr>) =
     (frames_data fs, if clean_end (frames_end fs) then None else Some (if frames_end fs = None
       then ''pcap extraction ended unexpectedly'' else ''pcap extraction failed''), st')"
    "bs_disarmed st'" "bs_completion st' = (if frames_end fs = Some (End_Complete True)
         then map_option (\<lambda>_. True) (bs_completion st) else bs_completion st)" by blast
  have "body_read (st\<lparr>bs_rx := Data chunk # fs\<rparr>) =
      (case body_read (st\<lparr>bs_rx := fs\<rparr>) of (chunks, e, st) \<Rightarrow> (chunk # chunks, e, st))"
    using 1(2,3) by (subst body_read.simps) (simp add: body_next_def)
  then show ?case using IH by simp
next
  case (2 e fs)
  then show ?case
    by (subst body_read.simps) (cases e, auto simp: body_next_def body_end_def Let_def)
next
  case 3
  then show ?case by (subst body_read.simps) (simp add: body_next_def)
qed

lemma body_of_stream:
  "\<exists>st'. body_read (stream_of native q fs) =
     (q @ frames_data fs, if clean_end (frames_end fs) then None else Some (if frames_end fs = None
       then ''pcap extraction ended unexpectedly'' else ''pcap extraction failed''), st')
     \<and> bs_disarmed st' \<and> bs_completion st' = (if native then None else Some (frames_end fs = Some (End_Complete True)))"
proof -
  have "\<exists>st'. body_read (stream_of native [] fs) =
     (frames_data fs, if clean_end (frames_end fs) then None else Some (if frames_end fs = None
       then ''pcap extraction ended unexpectedly'' else ''pcap extraction failed''), st')
     \<and> bs_disarmed st' \<and> bs_completion st' = (if native then None else Some (frames_end fs = Some (End_Complete True)))"
    using body_read_rx [of "stream_of native [] []" fs] by (auto simp: stream_of_def)
  then show ?thesis using body_read_queued [where st = "stream_of native [] fs" and q = q and qs = "[]"] by (auto simp: stream_of_def)
qed

section \<open>Lemmas: the writer\<close>

fun ops_data :: "writer_op list \<Rightarrow> u8 list" where
  "ops_data [] = []"
| "ops_data (Write_Bytes data # ops) = data @ ops_data ops"
| "ops_data (Flush_Bytes # ops) = ops_data ops"

text \<open>What a writer has taken: the data frames it sent and its buffer; nothing but data was sent.\<close>

definition writer_taken :: "channel_writer \<Rightarrow> u8 list" where
  "writer_taken w = concat (frames_data (cw_sent w)) @ cw_buf w"

definition only_data :: "frame list \<Rightarrow> bool" where
  "only_data fs \<longleftrightarrow> list_all (\<lambda>f. case f of Data c \<Rightarrow> True | Done e \<Rightarrow> False) fs"

lemma only_data_append [simp]: "only_data (fs @ gs) \<longleftrightarrow> only_data fs \<and> only_data gs"
  by (simp add: only_data_def)

lemma frames_append: "only_data fs \<Longrightarrow> frames_data (fs @ gs) = frames_data fs @ frames_data gs"
  by (induction fs) (auto simp: only_data_def split: frame.splits)

lemma frames_end_append: "only_data fs \<Longrightarrow> frames_end (fs @ gs) = frames_end gs"
  by (induction fs) (auto simp: only_data_def split: frame.splits)

lemma send_frame_sent:
  "send_frame ts f w = Some (r, w', ts') \<Longrightarrow>
     (case r of Inr _ \<Rightarrow> w' = w\<lparr>cw_sent := cw_sent w @ [f]\<rparr> | Inl e \<Rightarrow> w' = w)"
  by (induction ts f w rule: send_frame.induct) (auto split: if_splits)

lemma send_frame_kind: "send_frame ts f w = Some (Inl (kind, e), w', ts') \<Longrightarrow> kind \<noteq> Kind_Other"
  by (induction ts f w rule: send_frame.induct) (auto split: if_splits)

lemma writer_push_taken:
  assumes "writer_push ts w = Some (r, w', ts')" and "only_data (cw_sent w)"
  shows "only_data (cw_sent w') \<and> prefix (writer_taken w') (writer_taken w)
    \<and> (is_ok r \<longrightarrow> writer_taken w' = writer_taken w \<and> cw_buf w' = [])"
proof (cases "cw_buf w = []")
  case False
  then have s: "send_frame ts (Data (cw_buf w)) (w\<lparr>cw_buf := []\<rparr>) = Some (r, w', ts')"
    using assms(1) by (simp add: writer_push_def)
  show ?thesis
    using send_frame_sent [OF s] assms(2)
    by (cases r) (auto simp: writer_taken_def frames_append only_data_def [of "[_]"])
qed (use assms in \<open>auto simp: writer_push_def\<close>)

lemma writer_run_taken:
  assumes "writer_run ops ts w = Some (r, w', ts')" and "only_data (cw_sent w)"
  shows "only_data (cw_sent w') \<and> prefix (writer_taken w') (writer_taken w @ ops_data ops)
    \<and> (is_ok r \<longrightarrow> writer_taken w' = writer_taken w @ ops_data ops)"
  using assms
proof (induction ops arbitrary: ts w)
  case (Cons op ops)
  obtain q w1 ts1 where q: "writer_do op ts w = Some (q, w1, ts1)"
    using Cons.prems(1) by (cases "writer_do op ts w") auto
  have one: "only_data (cw_sent w1) \<and> prefix (writer_taken w1) (writer_taken w @ ops_data [op])
      \<and> (is_ok q \<longrightarrow> writer_taken w1 = writer_taken w @ ops_data [op])"
  proof (cases op)
    case (Write_Bytes data)
    let ?w = "w\<lparr>cw_buf := cw_buf w @ data\<rparr>"
    have t: "writer_taken ?w = writer_taken w @ data" by (simp add: writer_taken_def)
    show ?thesis
    proof (cases "CHUNK_SIZE \<le> length (cw_buf ?w)")
      case True
      then have "writer_push ts ?w = Some (q, w1, ts1)" using q Write_Bytes by (simp add: writer_do_def)
      from writer_push_taken [OF this] show ?thesis using t Cons.prems(2) Write_Bytes by simp
    next
      case False
      then show ?thesis using q Write_Bytes t Cons.prems(2) by (auto simp: writer_do_def)
    qed
  next
    case Flush_Bytes
    then have "writer_push ts w = Some (q, w1, ts1)" using q by (simp add: writer_do_def)
    from writer_push_taken [OF this] show ?thesis using Cons.prems(2) Flush_Bytes by simp
  qed
  have split: "ops_data (op # ops) = ops_data [op] @ ops_data ops" by (cases op) simp_all
  show ?case
  proof (cases q)
    case (Inl e)
    then have "r = q" "w' = w1" using Cons.prems(1) q by auto
    then show ?thesis
      using one Inl split prefix_prefix [of "writer_taken w1" "writer_taken w @ ops_data [op]" "ops_data ops"] by simp
  next
    case (Inr u)
    then have "writer_run ops ts1 w1 = Some (r, w', ts')" using Cons.prems(1) q by simp
    from Cons.IH [OF this] show ?thesis using one Inr split by simp
  qed
qed auto

text \<open>No empty chunk is sent.\<close>

lemma push_no_empty:
  "writer_push ts w = Some (r, w', ts') \<Longrightarrow> Data [] \<notin> set (cw_sent w) \<Longrightarrow> Data [] \<notin> set (cw_sent w')"
proof (cases "cw_buf w = []")
  case False
  assume p: "writer_push ts w = Some (r, w', ts')" "Data [] \<notin> set (cw_sent w)"
  have "send_frame ts (Data (cw_buf w)) (w\<lparr>cw_buf := []\<rparr>) = Some (r, w', ts')" using p(1) False by (simp add: writer_push_def)
  from send_frame_sent [OF this] show ?thesis using False p(2) by (cases r) auto
qed (auto simp: writer_push_def)

lemma run_no_empty:
  "writer_run ops ts w = Some (r, w', ts') \<Longrightarrow> Data [] \<notin> set (cw_sent w) \<Longrightarrow> Data [] \<notin> set (cw_sent w')"
proof (induction ops arbitrary: ts w)
  case (Cons op ops)
  obtain q w1 ts1 where q: "writer_do op ts w = Some (q, w1, ts1)"
    using Cons.prems(1) by (cases "writer_do op ts w") auto
  have "Data [] \<notin> set (cw_sent w1)"
    using q Cons.prems(2) push_no_empty
    by (cases op) (fastforce simp: writer_do_def Let_def split: if_splits)+
  then show ?case using Cons.prems(1) q Cons.IH by (cases q) auto
qed simp

lemma producer_no_empty: "local_producer ops result ts = Some (r, w) \<Longrightarrow> Data [] \<notin> set (cw_sent w)"
proof -
  assume "local_producer ops result ts = Some (r, w)"
  then obtain q w1 ts1 where q: "run_extraction ops result ts channel_writer_new = Some (q, w1, ts1)"
    "finish_producer q ts1 w1 = Some (r, w)"
    by (auto simp: local_producer_def split: option.splits)
  obtain p w2 ts2 where p: "writer_run ops ts channel_writer_new = Some (p, w2, ts2)"
    using q(1) by (auto simp: run_extraction_def split: option.splits)
  have "Data [] \<notin> set (cw_sent w2)" using run_no_empty [OF p] by (simp add: channel_writer_new_def)
  then have "Data [] \<notin> set (cw_sent w1)"
    using q(1) p push_no_empty by (auto simp: run_extraction_def split: sum.splits option.splits prod.splits)
  moreover have "set (cw_sent w) \<subseteq> insert (Done (producer_end_of (plain_result q))) (set (cw_sent w1))"
    using q(2) by (auto simp: finish_producer_def split: if_splits option.splits sum.splits dest!: send_frame_sent)
  ultimately show ?thesis by blast
qed

lemma frames_data_set: "c \<in> set (frames_data fs) \<Longrightarrow> Data c \<in> set fs"
  by (induction fs rule: frames_data.induct) auto

text \<open>What the producer sent when it is over.\<close>

lemma local_producer_sent:
  assumes "local_producer ops result ts = Some (r, w)"
  shows "prefix (concat (frames_data (cw_sent w))) (ops_data ops)
    \<and> (case r of
         Inr stats \<Rightarrow> result = Inr stats \<and> concat (frames_data (cw_sent w)) = ops_data ops
           \<and> frames_end (cw_sent w) = Some (End_Complete (fs_truncated stats))
       | Inl (kind, e) \<Rightarrow> \<not> clean_end (frames_end (cw_sent w)) \<or> result = Inl (kind, e) \<and> (e = NoCandidateFiles \<or> (\<exists>s. e = NoMatch s)))"
proof -
  obtain q w1 ts1 where q: "run_extraction ops result ts channel_writer_new = Some (q, w1, ts1)"
    "finish_producer q ts1 w1 = Some (r, w)"
    using assms by (auto simp: local_producer_def split: option.splits)
  have sent: "only_data (cw_sent w1) \<and> prefix (concat (frames_data (cw_sent w1))) (ops_data ops)
      \<and> (case q of Inr stats \<Rightarrow> result = Inr stats \<and> concat (frames_data (cw_sent w1)) = ops_data ops
         | Inl (kind, e) \<Rightarrow> result = Inl (kind, e) \<or> (\<exists>s. e = Io s))"
  proof -
    obtain p w2 ts2 where p: "writer_run ops ts channel_writer_new = Some (p, w2, ts2)"
      using q(1) by (auto simp: run_extraction_def split: option.splits)
    have new: "only_data (cw_sent channel_writer_new)" "writer_taken channel_writer_new = []"
      by (simp_all add: channel_writer_new_def only_data_def writer_taken_def)
    note run = writer_run_taken [OF p new(1), unfolded new(2) append_Nil]
    have pre: "prefix (concat (frames_data (cw_sent v))) xs" if "prefix (writer_taken v) xs" for v xs
      using that by (auto simp: writer_taken_def dest: append_prefixD)
    show ?thesis
    proof (cases p)
      case (Inl e)
      then show ?thesis using q(1) p run pre by (cases e) (auto simp: run_extraction_def)
    next
      case (Inr u)
      show ?thesis
      proof (cases result)
        case (Inl e)
        then show ?thesis using q(1) p run pre \<open>p = Inr u\<close> by (cases e) (auto simp: run_extraction_def)
      next
        case (Inr stats)
        obtain f w3 ts3 where f: "writer_push ts2 w2 = Some (f, w3, ts3)"
          using q(1) p \<open>p = Inr u\<close> Inr by (auto simp: run_extraction_def split: option.splits)
        have w2: "only_data (cw_sent w2)" "writer_taken w2 = ops_data ops" using run \<open>p = Inr u\<close> by auto
        note pushed = writer_push_taken [OF f w2(1), unfolded w2(2)]
        have "w1 = w3 \<and> (case q of Inr st \<Rightarrow> st = stats \<and> is_ok f | Inl (kind, e) \<Rightarrow> \<exists>s. e = Io s)"
          using q(1) p \<open>p = Inr u\<close> Inr f by (cases f) (auto simp: run_extraction_def)
        then show ?thesis using pushed pre Inr by (cases q) (auto simp: writer_taken_def)
      qed
    qed
  qed
  have d: "frames_data [Done e] = []" "only_data [Done e] = False" for e by (simp_all add: only_data_def)
  show ?thesis
  proof (cases "client_gone q")
    case True
    then have rw: "r = q" "w = w1" using q(2) by (auto simp: finish_producer_def)
    have "frames_end (cw_sent w1) = None" using frames_end_append [of "cw_sent w1" "[]"] sent by simp
    then show ?thesis using rw sent True by (auto simp: client_gone_def split: sum.splits)
  next
    case False
    obtain f w3 ts3 where f: "send_frame ts1 (Done (producer_end_of (plain_result q))) w1 = Some (f, w3, ts3)"
      using q(2) False by (auto simp: finish_producer_def split: option.splits)
    note s = send_frame_sent [OF f]
    have none: "frames_end (cw_sent w1) = None" using frames_end_append [of "cw_sent w1" "[]"] sent by simp
    show ?thesis
    proof (cases f)
      case (Inl ke)
      obtain kind e where ke: "f = Inl (kind, e)" "kind \<noteq> Kind_Other" "w3 = w1"
        using Inl s f send_frame_kind by (cases ke) auto
      then have "w = w1" "\<not> is_ok r" using q(2) False f
        by (cases q; cases kind; auto simp: finish_producer_def)+
      then show ?thesis using none sent by (cases r) auto
    next
      case (Inr u)
      then have "w = w1\<lparr>cw_sent := cw_sent w1 @ [Done (producer_end_of (plain_result q))]\<rparr>" "r = q"
        using s q(2) False f by (auto simp: finish_producer_def)
      then show ?thesis using sent frames_append [of "cw_sent w1" "[Done _]"] frames_end_append [of "cw_sent w1" "[Done _]"]
        by (cases q) (auto simp: d producer_end_of_def plain_result_def map_error_def split: fetch_error.splits)
    qed
  qed
qed

section \<open>Lemmas: the remote supervisor\<close>

fun event_fits :: "remote_event \<Rightarrow> bool" where
  "event_fits (Ev_Data (Some chunk) fwd) \<longleftrightarrow> length chunk < 2 ^ 64"
| "event_fits _ \<longleftrightarrow> True"

text \<open>The chunks that the upload delivers.\<close>

fun events_data :: "remote_event list \<Rightarrow> u8 list list" where
  "events_data [] = []"
| "events_data (Ev_Data (Some chunk) fwd # es) = chunk # events_data es"
| "events_data (Ev_Data None fwd # es) = []"
| "events_data (_ # es) = events_data es"

text \<open>The count is what was handed to the response, the first chunk included.\<close>

definition remote_ok :: "u8 list \<Rightarrow> u64 \<Rightarrow> remote_state \<Rightarrow> bool" where
  "remote_ok first max_bytes st \<longleftrightarrow> only_data (rm_sent st)
     \<and> unat (rm_bytes st) = length (first @ concat (frames_data (rm_sent st)))
     \<and> length (first @ concat (frames_data (rm_sent st))) \<le> max (length first) (unat max_bytes)"

lemma len_fits: "length (chunk :: u8 list) < 2 ^ 64 \<Longrightarrow>
    unat (case try_from_int (int (length chunk)) of Some n \<Rightarrow> n | None \<Rightarrow> (- 1 :: u64)) = length chunk"
  by (simp add: try_from_int_def unsigned_of_nat take_bit_nat_eq_self)

lemma remote_data_ok:
  assumes "remote_data max_bytes chunk fwd st = Inr st'" and "remote_ok first max_bytes st" and "length chunk < 2 ^ 64"
  shows "remote_ok first max_bytes st' \<and> st' = st\<lparr>rm_bytes := rm_bytes st', rm_sent := rm_sent st @ [Data chunk]\<rparr>"
proof -
  let ?len = "case try_from_int (int (length chunk)) of Some n \<Rightarrow> n | None \<Rightarrow> (- 1 :: u64)"
  obtain n where n: "checked_add (rm_bytes st) ?len = Some n" "n \<le> max_bytes"
    "st' = st\<lparr>rm_bytes := n, rm_sent := rm_sent st @ [Data chunk]\<rparr>"
    using assms(1) by (auto simp: remote_data_def Let_def not_less split: option.splits if_splits forward.splits)
  have "unat n = unat (rm_bytes st) + length chunk" using n(1) len_fits [OF assms(3)] by (simp add: checked_add_Some)
  then show ?thesis using n assms(2)
    by (auto simp: remote_ok_def frames_append only_data_def [of "[_]"] word_le_nat_alt)
qed

lemma remote_on_ok:
  assumes "remote_on max_bytes e st = Inr st'" and "remote_ok first max_bytes st" and "event_fits e"
  shows "remote_ok first max_bytes st'
    \<and> (rm_sent st' = rm_sent st \<or> (\<exists>chunk fwd. e = Ev_Data (Some chunk) fwd \<and> rm_sent st' = rm_sent st @ [Data chunk] \<and> rm_body_open st))
    \<and> (rm_body_open st' \<longrightarrow> rm_body_open st) \<and> (\<forall>fwd. e = Ev_Data None fwd \<longrightarrow> \<not> rm_body_open st')
    \<and> (rm_sent st' = rm_sent st \<longrightarrow> (\<exists>chunk fwd. e = Ev_Data (Some chunk) fwd) \<longrightarrow> \<not> rm_body_open st')"
proof (cases e)
  case (Ev_Data c fwd)
  show ?thesis
  proof (cases c)
    case (Some chunk)
    show ?thesis
    proof (cases "rm_body_open st")
      case True
      then have d: "remote_data max_bytes chunk fwd st = Inr st'" using assms(1) Ev_Data Some by simp
      have l: "length chunk < 2 ^ 64" using assms(3) Ev_Data Some by simp
      from remote_data_ok [OF d assms(2) l] have ok: "remote_ok first max_bytes st'"
        and st': "st' = st\<lparr>rm_bytes := rm_bytes st', rm_sent := rm_sent st @ [Data chunk]\<rparr>" by auto
      have "rm_sent st' = rm_sent st @ [Data chunk]" "rm_body_open st' = rm_body_open st"
        by (subst st', simp)+
      then show ?thesis using ok True Ev_Data Some by auto
    qed (use assms Ev_Data Some in auto)
  qed (use assms Ev_Data in \<open>auto simp: remote_ok_def\<close>)
next
  case (Ev_Upload u)
  then show ?thesis using assms by (cases u) (auto simp: remote_ok_def)
next
  case (Ev_Result r)
  then show ?thesis using assms by (cases r) (auto simp: remote_ok_def split: if_splits)
qed (use assms in auto)

lemma remote_run_ok:
  assumes "remote_run max_bytes es st = (Some r, st')" and "remote_ok first max_bytes st" and "list_all event_fits es"
  shows "remote_ok first max_bytes st'
    \<and> (\<exists>cs. prefix cs (if rm_body_open st then events_data es else []) \<and> rm_sent st' = rm_sent st @ map Data cs)
    \<and> (remote_check st' = Some r \<or> fst r = End_Io)"
  using assms
proof (induction es arbitrary: st)
  case (Cons e es)
  show ?case
  proof (cases "remote_check st")
    case (Some q)
    then show ?thesis using Cons.prems by auto
  next
    case None
    show ?thesis
    proof (cases "remote_on max_bytes e st")
      case (Inl q)
      have "fst q = End_Io"
        using Inl by (cases "(max_bytes, e, st)" rule: remote_on.cases)
          (auto simp: remote_data_def Let_def split: option.splits if_splits forward.splits)
      then show ?thesis using Cons.prems None Inl by auto
    next
      case (Inr st1)
      have fits: "event_fits e" using Cons.prems(3) by simp
      note one = remote_on_ok [OF Inr Cons.prems(2) fits]
      have run: "remote_run max_bytes es st1 = (Some r, st')" using Cons.prems(1) None Inr by simp
      have ok1: "remote_ok first max_bytes st1" using one by blast
      have fits1: "list_all event_fits es" using Cons.prems(3) by simp
      from Cons.IH [OF run ok1 fits1] obtain cs where cs: "prefix cs (if rm_body_open st1 then events_data es else [])"
        "rm_sent st' = rm_sent st1 @ map Data cs" "remote_ok first max_bytes st'" "remote_check st' = Some r \<or> fst r = End_Io"
        by blast
      have "\<exists>ds. prefix ds (if rm_body_open st then events_data (e # es) else []) \<and> rm_sent st' = rm_sent st @ map Data ds"
      proof (cases "rm_sent st1 = rm_sent st")
        case True
        show ?thesis
        proof (cases "rm_body_open st1")
          case open1: True
          have "e \<noteq> Ev_Data c fwd" for c fwd using one True open1 by (cases c) blast+
          then have "events_data (e # es) = events_data es" "rm_body_open st"
            using one open1 by (cases e, auto)
          then show ?thesis using cs(1,2) True open1 by auto
        next
          case False
          then show ?thesis using cs(1,2) True by (intro exI [of _ "[]"]) auto
        qed
      next
        case False
        then obtain chunk fwd where c: "e = Ev_Data (Some chunk) fwd" "rm_sent st1 = rm_sent st @ [Data chunk]" "rm_body_open st"
          using one by blast
        have "prefix cs (events_data es)" using cs(1) by (auto split: if_splits)
        then show ?thesis using c cs(2) by (intro exI [of _ "chunk # cs"]) auto
      qed
      then show ?thesis using cs(3,4) by blast
    qed
  qed
qed (auto intro: exI [of _ "[]"])

section \<open>Properties\<close>

text \<open>What the browser is given: the bytes of a body that ended cleanly.\<close>

definition delivered :: "response \<Rightarrow> u8 list option" where
  "delivered r =
     (case r of
        Resp_Stream st \<Rightarrow> (case body_read st of (chunks, None, _) \<Rightarrow> Some (concat chunks) | _ \<Rightarrow> None)
      | Resp_Chunk chunk truncated \<Rightarrow> Some chunk
      | _ \<Rightarrow> None)"

lemma delivered_stream:
  "delivered (Resp_Stream (stream_of native q fs)) = (if clean_end (frames_end fs) then Some (concat (q @ frames_data fs)) else None)"
  using body_of_stream [of native q fs] by (auto simp: delivered_def)

lemma local_delivered:
  assumes "delivered (fst (local_response native (Wait_Frames fs) ready c)) = Some bytes"
  shows "clean_end (frames_end fs) \<and> bytes = concat (frames_data fs) \<and> frames_data fs \<noteq> []"
  using assms
  by (auto simp: local_response_def delivered_stream delivered_def [of "Resp_Error _ _"] delivered_def [of "Resp_Chunk _ _"]
    empty_response_def delivered_def [of Resp_Empty_Pcap] delivered_def [of "Resp_Empty _"]
    split: list.splits frame.splits producer_end.splits if_splits)



lemma remote_delivered:
  assumes "remote_run max_bytes es (remote_start first st0 upload) = (Some r, st)"
    and "first \<noteq> []" and "length first < 2 ^ 64" and "list_all event_fits es"
    and "delivered (Resp_Stream (stream_of native [first] (remote_frames r ok st))) = Some bytes"
  shows "\<exists>cs result stats. prefix cs (events_data es) \<and> bytes = concat (first # cs)
    \<and> rm_result st = Some result \<and> res_code result = Code_Complete \<and> res_stats result = Some stats
    \<and> rm_upload st = Uploaded (ws_bytes stats) \<and> unat (ws_bytes stats) = length bytes
    \<and> length bytes \<le> max (length first) (unat max_bytes)"
proof -
  have start: "remote_ok first max_bytes (remote_start first st0 upload)"
    using len_fits [OF assms(3)] by (simp add: remote_ok_def remote_start_def only_data_def)
  obtain cs where cs: "prefix cs (if rm_body_open (remote_start first st0 upload) then events_data es else [])"
    "rm_sent st = map Data cs" "remote_ok first max_bytes st" "remote_check st = Some r \<or> fst r = End_Io"
    using remote_run_ok [OF assms(1) start assms(4)] by (auto simp: remote_start_def)
  have only: "only_data (rm_sent st)" using cs(3) by (simp add: remote_ok_def)
  have data: "frames_data (map Data cs) = cs" by (induction cs) auto
  have clean: "clean_end (frames_end (remote_frames r ok st))"
    and bytes: "bytes = concat (first # cs)"
    using assms(5) frames_append [OF only] data cs(2)
    by (auto simp: delivered_stream remote_frames_def split: if_splits)
  then have ok: ok and e: "clean_end (Some (fst r))"
    using frames_end_append [OF only] by (auto simp: remote_frames_def split: if_splits)
  then have "remote_check st = Some r" "fst r \<noteq> End_Io" using cs(4) by auto
  then obtain result stats where c: "rm_result st = Some result"
    "classify_result result (rm_upload st) (rm_body_open st) (rm_bytes st) = Remote_Complete stats"
    using e by (auto simp: remote_check_def split: upload_state.splits option.splits remote_outcome.splits)
  have len: "unat (rm_bytes st) = length bytes" "length bytes \<le> max (length first) (unat max_bytes)"
    using cs(2,3) data bytes by (auto simp: remote_ok_def)
  then have "rm_bytes st \<noteq> 0" using bytes assms(2) by auto
  then have "rm_upload st = Uploaded (ws_bytes stats)" "res_code result = Code_Complete" "res_stats result = Some stats"
    "ws_bytes stats = rm_bytes st"
    using classify_complete [OF c(2)] by (auto split: if_splits)
  moreover have "prefix cs (events_data es)" using cs(1) by (auto split: if_splits)
  ultimately show ?thesis using bytes c(1) len by auto
qed

text \<open>A remote download that ends cleanly is what the agent extracted: the body is the chunks of the
  upload in order, of exactly the number of bytes that the upload's end and the agent's result both
  state, and within the limit of the request.\<close>

theorem remote_download_exact:
  assumes "remote_run max_bytes es (remote_start first st0 upload) = (Some r, st)"
    and "first \<noteq> []" and "length first < 2 ^ 64" and "list_all event_fits es"
    and "delivered (Resp_Stream (stream_of native [first] (remote_frames r ok st))) = Some bytes"
  shows "\<exists>cs result stats. prefix cs (events_data es) \<and> bytes = concat (first # cs)
    \<and> rm_result st = Some result \<and> res_code result = Code_Complete \<and> res_stats result = Some stats
    \<and> rm_upload st = Uploaded (ws_bytes stats) \<and> unat (ws_bytes stats) = length bytes
    \<and> length bytes \<le> max (length first) (unat max_bytes)"
  by (rule remote_delivered [OF assms])

definition example_events :: "remote_event list" where
  "example_events = [Ev_Upload (Some Streaming), Ev_Data (Some [2, 3]) Forwarded, Ev_Upload (Some (Uploaded 3)),
     Ev_Data None Forwarded, Ev_Result (Some \<lparr>res_code = Code_Complete, res_upload = Upload_Complete, res_message = None,
       res_stats = Some \<lparr>ws_packets = 1, ws_bytes = 3, ws_files_scanned = 1, ws_files_vanished = 0, ws_truncated = False\<rparr>\<rparr>)]"

theorem remote_download_exact_witness:
  "\<exists>r st cs. remote_run 100 example_events (remote_start [1] remote_wait_new Pending) = (Some r, st)
     \<and> prefix cs (events_data example_events) \<and> [1, 2, 3] = concat ([1] # cs)"
proof -
  let ?st = "\<lparr>rm_bytes = 3, rm_result = Some \<lparr>res_code = Code_Complete, res_upload = Upload_Complete, res_message = None,
      res_stats = Some \<lparr>ws_packets = 1, ws_bytes = 3, ws_files_scanned = 1, ws_files_vanished = 0, ws_truncated = False\<rparr>\<rparr>,
    rm_upload = Uploaded 3, rm_body_open = False, rm_result_open = False, rm_sent = [Data [2, 3]]\<rparr>"
  let ?r = "(End_Complete False, ([], []))"
  have run: "remote_run 100 example_events (remote_start [1] remote_wait_new Pending) = (Some ?r, ?st)"
    by (simp add: example_events_def remote_start_def remote_wait_new_def remote_check_def remote_data_def try_from_int_def
      checked_add_def classify_result_def)
  have fits: "list_all event_fits example_events" by (simp add: example_events_def)
  have d: "delivered (Resp_Stream (stream_of True [[1]] (remote_frames ?r True ?st))) = Some [1, 2, 3]"
    by (simp add: delivered_stream remote_frames_def)
  from remote_download_exact [OF run _ _ fits d] show ?thesis using run by auto
qed

end
