(* ===== verification/Agent_Channel.thy ===== *)
theory Agent_Channel
  imports Agent_Control
begin

text \<open>
  The agent's end of the control channel (\<open>src/src/agent/channel.rs\<close>): when it connects again, what it
  accepts from the server, and the capture jobs of one connection. The connection is a machine whose
  steps are what \<open>select!\<close> chose and the end of a job's worker; what a worker does is the theory
  \<open>Agent_Job\<close>. Durations are in nanoseconds; the socket, the JSON text and the random source are
  parameters.
\<close>

section \<open>Connecting again\<close>

definition MIN_BACKOFF :: nat where "MIN_BACKOFF = 10 ^ 9"
definition MAX_BACKOFF :: nat where "MAX_BACKOFF = 30 * 10 ^ 9"
definition HEALTHY_CONNECTION_AGE :: nat where "HEALTHY_CONNECTION_AGE = 60 * 10 ^ 9"
definition MAX_ACTIVE_JOBS :: nat where "MAX_ACTIVE_JOBS = 16"

datatype connection_outcome = Disconnected nat | ConnectFailed | ServerTooOld | Unauthorized

record connect_warnings =
  wn_too_old :: bool
  wn_unauthorized :: bool

definition warnings_default :: connect_warnings where
  "warnings_default = \<lparr>wn_too_old = False, wn_unauthorized = False\<rparr>"

definition next_backoff :: "nat \<Rightarrow> nat \<Rightarrow> nat \<times> nat" where
  "next_backoff backoff connected_for =
     (if connected_for \<ge> HEALTHY_CONNECTION_AGE then (MIN_BACKOFF, MIN_BACKOFF)
      else (backoff, min (backoff * 2) MAX_BACKOFF))"

text \<open>The random source picks a number up to its argument.\<close>

definition jitter :: "(nat \<Rightarrow> nat) \<Rightarrow> nat \<Rightarrow> nat" where
  "jitter pick delay =
     (let max_millis = (delay div 10 ^ 6 div 2) mod 2 ^ 64
      in if max_millis = 0 then 0 else pick max_millis * 10 ^ 6)"

text \<open>The delay chosen after a connection, and the backoff from then on.\<close>

fun retry_delay :: "nat \<Rightarrow> connection_outcome \<Rightarrow> nat \<times> nat" where
  "retry_delay backoff (Disconnected connected_for) = next_backoff backoff connected_for"
| "retry_delay backoff ConnectFailed = next_backoff backoff 0"
| "retry_delay backoff ServerTooOld = (MAX_BACKOFF, backoff)"
| "retry_delay backoff Unauthorized = (MAX_BACKOFF, backoff)"

text \<open>How an attempt ended: nothing could be sent, a connection with the selected subprotocol that lived
  for some time, an HTTP answer, another error, or the timeout.\<close>

datatype connect_result =
    Not_Attempted
  | Connected "string option" nat
  | Http_Status nat
  | Connect_Error
  | Connect_Timeout

fun connect_and_run :: "connect_result \<Rightarrow> connect_warnings \<Rightarrow> connection_outcome \<times> connect_warnings" where
  "connect_and_run Not_Attempted w = (ConnectFailed, w)"
| "connect_and_run (Connected selected connected_for) w =
     (if selected \<noteq> Some SUBPROTOCOL then (ConnectFailed, w) else (Disconnected connected_for, warnings_default))"
| "connect_and_run (Http_Status status) w =
     (if status = 404 then (ServerTooOld, w\<lparr>wn_too_old := True\<rparr>)
      else if status = 401 \<or> status = 403 then (Unauthorized, w\<lparr>wn_unauthorized := True\<rparr>)
      else (ConnectFailed, w))"
| "connect_and_run Connect_Error w = (ConnectFailed, w)"
| "connect_and_run Connect_Timeout w = (ConnectFailed, w)"

text \<open>The loop of \<open>run\<close> over the attempts: how long it slept after each.\<close>

fun run_agent :: "(nat \<Rightarrow> nat) \<Rightarrow> connect_result list \<Rightarrow> nat \<Rightarrow> connect_warnings \<Rightarrow> nat list" where
  "run_agent pick [] backoff w = []"
| "run_agent pick (r # rs) backoff w =
     (case connect_and_run r w of
        (outcome, w) \<Rightarrow>
          (case retry_delay backoff outcome of
             (delay, backoff) \<Rightarrow> (delay + jitter pick delay) # run_agent pick rs backoff w))"

section \<open>What the agent accepts\<close>

datatype control_state = AwaitingHello | Ready bool

fun accept :: "control_state \<Rightarrow> server_message \<Rightarrow> bool \<times> control_state" where
  "accept AwaitingHello (Hello version capabilities) =
     (True, Ready (list_ex (\<lambda>value. value = CAPABILITY_PCAP) capabilities))"
| "accept (Ready pcap) (Hello version capabilities) = (False, Ready pcap)"
| "accept s Unknown_Server = (True, s)"
| "accept AwaitingHello m = (False, AwaitingHello)"
| "accept (Ready False) (Start_Pcap job token f start end limits) = (False, Ready False)"
| "accept (Ready pcap) m = (True, Ready pcap)"

section \<open>The jobs of a connection\<close>

record active_job =
  aj_token :: string
  aj_cancel :: bool

text \<open>The jobs in the map, the workers that run, the results that wait to be sent, what was sent. The
  messages handled and the jobs started are kept as history.\<close>

record agent_conn =
  ac_control :: control_state
  ac_jobs :: "(string \<times> active_job) list"
  ac_workers :: "(string \<times> string) list"
  ac_results :: "agent_message list"
  ac_sent :: "ws_frame list"
  ac_open :: bool
  ac_answered :: "agent_message list"
  ac_seen :: "server_message list"
  ac_started :: "(string \<times> string) list"

definition conn_new :: agent_conn where
  "conn_new = \<lparr>ac_control = AwaitingHello, ac_jobs = [], ac_workers = [], ac_results = [], ac_sent = [], ac_open = True,
     ac_answered = [], ac_seen = [], ac_started = []\<rparr>"

datatype start_job_outcome = Started | Duplicate | Conflict | AtCapacity

definition start_job :: "string \<Rightarrow> string \<Rightarrow> agent_conn \<Rightarrow> start_job_outcome \<times> agent_conn" where
  "start_job job token c =
     (case map_of (ac_jobs c) job of
        Some existing \<Rightarrow> ((if aj_token existing = token then Duplicate else Conflict), c)
      | None \<Rightarrow>
          if MAX_ACTIVE_JOBS \<le> length (ac_jobs c) then (AtCapacity, c)
          else (Started, c\<lparr>ac_jobs := (job, \<lparr>aj_token = token, aj_cancel = False\<rparr>) # ac_jobs c,
                  ac_workers := (job, token) # ac_workers c, ac_started := (job, token) # ac_started c\<rparr>))"

definition cancel_job :: "string \<Rightarrow> string \<Rightarrow> agent_conn \<Rightarrow> agent_conn" where
  "cancel_job job token c =
     c\<lparr>ac_jobs := map (\<lambda>(k, j). (k, if k = job \<and> aj_token j = token then j\<lparr>aj_cancel := True\<rparr> else j)) (ac_jobs c)\<rparr>"

datatype message_outcome = Msg_Continue | Msg_Fatal

definition handle_message ::
    "(string \<Rightarrow> server_message option) \<Rightarrow> string \<Rightarrow> agent_conn \<Rightarrow> message_outcome \<times> agent_conn" where
  "handle_message decode s c =
     (case decode s of
        None \<Rightarrow> (Msg_Fatal, c)
      | Some message \<Rightarrow>
          (case accept (ac_control c) message of
             (False, control) \<Rightarrow> (Msg_Fatal, c\<lparr>ac_control := control\<rparr>)
           | (True, control) \<Rightarrow>
               let c = c\<lparr>ac_control := control, ac_seen := ac_seen c @ [message]\<rparr>
               in case message of
                    Start_Pcap job token f start end limits \<Rightarrow>
                      (case start_job job token c of
                         (Conflict, c) \<Rightarrow> (Msg_Fatal, c)
                       | (AtCapacity, c) \<Rightarrow> (Msg_Fatal, c)
                       | (_, c) \<Rightarrow> (Msg_Continue, c))
                  | Cancel_Pcap job token \<Rightarrow> (Msg_Continue, cancel_job job token c)
                  | _ \<Rightarrow> (Msg_Continue, c)))"

text \<open>The end of the loop: every job still in the map is cancelled.\<close>

definition leave :: "agent_conn \<Rightarrow> agent_conn" where
  "leave c = c\<lparr>ac_open := False, ac_jobs := map (\<lambda>(k, j). (k, j\<lparr>aj_cancel := True\<rparr>)) (ac_jobs c)\<rparr>"

definition send_control :: "bool \<Rightarrow> ws_frame \<Rightarrow> agent_conn \<Rightarrow> agent_conn" where
  "send_control ok f c = (if ok then c\<lparr>ac_sent := ac_sent c @ [f]\<rparr> else leave c)"

text \<open>The supervisor of a worker: the job leaves the map, its result is given to the connection, which
  takes it as long as it lives.\<close>

definition worker_ends :: "nat \<Rightarrow> pcap_result \<Rightarrow> agent_conn \<Rightarrow> agent_conn" where
  "worker_ends n result c =
     (if \<not> n < length (ac_workers c) then c
      else case ac_workers c ! n of (job, token) \<Rightarrow>
        let c = c\<lparr>ac_workers := take n (ac_workers c) @ drop (Suc n) (ac_workers c),
                  ac_jobs := filter (\<lambda>(k, j). (k, aj_token j) \<noteq> (job, token)) (ac_jobs c)\<rparr>
        in if ac_open c then c\<lparr>ac_results := ac_results c @ [Pcap_Result job token result]\<rparr> else c)"

text \<open>A turn of the loop; the flag says whether a frame sent in it went out in time.\<close>

datatype conn_event =
    Ev_Incoming incoming bool
  | Ev_Idle
  | Ev_Result bool
  | Ev_Worker nat pcap_result

definition run_turn ::
    "(agent_message \<Rightarrow> string option) \<Rightarrow> (string \<Rightarrow> server_message option) \<Rightarrow> conn_event \<Rightarrow> agent_conn \<Rightarrow> agent_conn" where
  "run_turn encode decode e c =
     (case e of
        Ev_Incoming (In_Frame (Ws_Text s)) ok \<Rightarrow>
          (case handle_message decode s c of (Msg_Fatal, c) \<Rightarrow> leave c | (Msg_Continue, c) \<Rightarrow> c)
      | Ev_Incoming (In_Frame (Ws_Ping payload)) ok \<Rightarrow> send_control ok (Ws_Pong payload) c
      | Ev_Incoming (In_Frame Ws_Close) ok \<Rightarrow> leave c
      | Ev_Incoming (In_Frame f) ok \<Rightarrow> c
      | Ev_Incoming _ ok \<Rightarrow> leave c
      | Ev_Idle \<Rightarrow> leave c
      | Ev_Result ok \<Rightarrow>
          (case ac_results c of
             [] \<Rightarrow> c
           | m # rest \<Rightarrow>
               let c = c\<lparr>ac_results := rest, ac_answered := ac_answered c @ [m]\<rparr>
               in case encode m of None \<Rightarrow> c | Some s \<Rightarrow> send_control ok (Ws_Text s) c)
      | Ev_Worker n result \<Rightarrow> c)"

definition conn_step ::
    "(agent_message \<Rightarrow> string option) \<Rightarrow> (string \<Rightarrow> server_message option) \<Rightarrow> agent_conn \<Rightarrow> conn_event \<Rightarrow> agent_conn" where
  "conn_step encode decode c e =
     (case e of
        Ev_Worker n result \<Rightarrow> worker_ends n result c
      | _ \<Rightarrow> if ac_open c then run_turn encode decode e c else c)"

section \<open>Lemmas: the pause between connections\<close>

lemma jitter_le: "(\<And>m. pick m \<le> m) \<Longrightarrow> jitter pick delay \<le> delay div 2"
proof -
  assume pick: "\<And>m. pick m \<le> m"
  let ?m = "(delay div 10 ^ 6 div 2) mod 2 ^ 64"
  have "?m \<le> delay div 10 ^ 6 div 2" by (rule mod_less_eq_dividend)
  then have "pick ?m \<le> delay div 10 ^ 6 div 2" using pick [of ?m] by linarith
  then have "pick ?m * 10 ^ 6 \<le> delay div 10 ^ 6 div 2 * 10 ^ 6" by simp
  also have "\<dots> = delay div 2 div 10 ^ 6 * 10 ^ 6" by (simp add: div_mult2_eq [symmetric] mult.commute)
  also have "\<dots> \<le> delay div 2" by (rule div_times_less_eq_dividend)
  finally show ?thesis by (simp add: jitter_def Let_def)
qed

definition backoff_ok :: "nat \<Rightarrow> bool" where
  "backoff_ok backoff \<longleftrightarrow> MIN_BACKOFF \<le> backoff \<and> backoff \<le> MAX_BACKOFF"

lemma retry_delay_ok:
  "backoff_ok backoff \<Longrightarrow> backoff_ok (fst (retry_delay backoff outcome)) \<and> backoff_ok (snd (retry_delay backoff outcome))"
  by (cases outcome) (auto simp: backoff_ok_def next_backoff_def MIN_BACKOFF_def MAX_BACKOFF_def)

text \<open>Whatever becomes of the attempts to connect, the agent never stops trying and never hammers the
  server: after each it sleeps at least a second and at most 45 seconds.\<close>

theorem retry_pause_bounded:
  assumes "\<And>m. pick m \<le> m" and "MIN_BACKOFF \<le> backoff" and "backoff \<le> MAX_BACKOFF"
  shows "length (run_agent pick rs backoff w) = length rs
    \<and> list_all (\<lambda>pause. 10 ^ 9 \<le> pause \<and> pause \<le> 45 * 10 ^ 9) (run_agent pick rs backoff w)"
  using assms(2,3)
proof (induction rs arbitrary: backoff w)
  case (Cons r rs)
  obtain outcome w' where o: "connect_and_run r w = (outcome, w')" by fastforce
  obtain delay backoff' where d: "retry_delay backoff outcome = (delay, backoff')" by fastforce
  have ok: "backoff_ok delay" "backoff_ok backoff'"
    using retry_delay_ok [of backoff outcome] Cons.prems d by (simp_all add: backoff_ok_def)
  have "jitter pick delay \<le> delay div 2" by (rule jitter_le) (rule assms(1))
  moreover have "delay div 2 \<le> 15 * 10 ^ 9"
    using ok(1) div_le_mono [of delay "30 * 10 ^ 9" 2] by (simp add: backoff_ok_def MAX_BACKOFF_def)
  ultimately show ?case
    using ok o d Cons.IH [of backoff' w'] by (simp add: backoff_ok_def MIN_BACKOFF_def MAX_BACKOFF_def)
qed simp

theorem retry_pause_bounded_witness:
  "list_all (\<lambda>pause. 10 ^ 9 \<le> pause \<and> pause \<le> 45 * 10 ^ 9)
     (run_agent (\<lambda>m. m) [Connect_Error, Http_Status 401, Connected (Some SUBPROTOCOL) (70 * 10 ^ 9)] MIN_BACKOFF warnings_default)"
  by (rule conjunct2, rule retry_pause_bounded) (simp_all add: MIN_BACKOFF_def MAX_BACKOFF_def)

section \<open>Lemmas: the jobs of a connection\<close>

definition job_key :: "string \<times> active_job \<Rightarrow> string \<times> string" where
  "job_key x = (fst x, aj_token (snd x))"

fun answer_key :: "agent_message \<Rightarrow> string \<times> string" where
  "answer_key (Pcap_Result job token result) = (job, token)"
| "answer_key Unknown_Agent = ([], [])"

text \<open>Every job in the map has its worker; while the connection lives every job that was started is
  running or has its one answer, and is cancelled only on a request with its token.\<close>

definition conn_ok :: "agent_conn \<Rightarrow> bool" where
  "conn_ok c \<longleftrightarrow> distinct (map fst (ac_jobs c)) \<and> length (ac_jobs c) \<le> MAX_ACTIVE_JOBS
     \<and> mset (ac_workers c) = mset (map job_key (ac_jobs c))
     \<and> (if ac_open c
        then mset (ac_started c) = mset (ac_workers c) + mset (map answer_key (ac_answered c @ ac_results c))
          \<and> (\<forall>x \<in> set (ac_jobs c). aj_cancel (snd x) \<longrightarrow> Cancel_Pcap (fst x) (aj_token (snd x)) \<in> set (ac_seen c))
        else \<forall>x \<in> set (ac_jobs c). aj_cancel (snd x))"

lemma conn_new_ok: "conn_ok conn_new"
  by (simp add: conn_ok_def conn_new_def)

lemma leave_ok:
  assumes "conn_ok c"
  shows "conn_ok (leave c)"
proof -
  let ?f = "\<lambda>(k, j). (k, j\<lparr>aj_cancel := True\<rparr>)"
  have "map fst (map ?f (ac_jobs c)) = map fst (ac_jobs c)" "map job_key (map ?f (ac_jobs c)) = map job_key (ac_jobs c)"
    by (simp_all add: job_key_def case_prod_beta)
  then show ?thesis using assms by (auto simp: conn_ok_def leave_def simp del: map_map)
qed

lemma cancel_ok:
  assumes "conn_ok c" and "ac_open c" and "Cancel_Pcap job token \<in> set (ac_seen c)"
  shows "conn_ok (cancel_job job token c)"
proof -
  let ?f = "\<lambda>(k, j). (k, if k = job \<and> aj_token j = token then j\<lparr>aj_cancel := True\<rparr> else j)"
  have "map fst (map ?f (ac_jobs c)) = map fst (ac_jobs c)" "map job_key (map ?f (ac_jobs c)) = map job_key (ac_jobs c)"
    by (simp_all add: job_key_def case_prod_beta)
  moreover have "Cancel_Pcap k (aj_token j) \<in> set (ac_seen c)"
    if "(k, j) \<in> set (map ?f (ac_jobs c))" "aj_cancel j" for k j
    using that assms by (force simp: conn_ok_def split: if_splits)
  ultimately show ?thesis using assms by (auto simp: conn_ok_def cancel_job_def simp del: map_map set_map)
qed

lemma start_ok:
  "conn_ok c \<Longrightarrow> ac_open c \<Longrightarrow> conn_ok (snd (start_job job token c)) \<and> ac_open (snd (start_job job token c))"
  by (auto simp: conn_ok_def start_job_def job_key_def map_of_eq_None_iff split: option.splits)

lemma seen_ok: "conn_ok c \<Longrightarrow> conn_ok (c\<lparr>ac_control := s, ac_seen := ac_seen c @ [m]\<rparr>)"
  by (auto simp: conn_ok_def)

lemma control_ok: "conn_ok (c\<lparr>ac_control := s\<rparr>) = conn_ok c"
  by (simp add: conn_ok_def)

lemma handle_message_ok:
  assumes "conn_ok c" and "ac_open c"
  shows "conn_ok (snd (handle_message decode s c)) \<and> ac_open (snd (handle_message decode s c))"
proof (cases "decode s")
  case (Some m)
  obtain ok control where a: "accept (ac_control c) m = (ok, control)" by fastforce
  let ?c = "c\<lparr>ac_control := control, ac_seen := ac_seen c @ [m]\<rparr>"
  have c: "conn_ok ?c" "ac_open ?c" using assms by (simp_all add: seen_ok)
  show ?thesis
  proof (cases ok)
    case True
    show ?thesis
    proof (cases m)
      case (Start_Pcap job token f t0 t1 limits)
      then show ?thesis
        using True a Some start_ok [OF c, of job token]
        by (cases "start_job job token ?c"; cases "fst (start_job job token ?c)") (simp_all add: handle_message_def)
    next
      case (Cancel_Pcap job token)
      then show ?thesis
        using True a Some cancel_ok [OF c, of job token] c(2) by (simp add: handle_message_def cancel_job_def)
    qed (use True a Some c in \<open>simp_all add: handle_message_def\<close>)
  qed (use a Some assms in \<open>simp add: handle_message_def control_ok\<close>)
qed (use assms in \<open>simp add: handle_message_def\<close>)

lemma send_control_ok: "conn_ok c \<Longrightarrow> conn_ok (send_control ok f c)"
  by (cases ok) (simp_all add: send_control_def leave_ok, simp add: conn_ok_def)

lemma filter_distinct_mset:
  "distinct xs \<Longrightarrow> mset (filter (\<lambda>y. y \<noteq> x) xs) = mset xs - {#x#}"
  by (induction xs) (auto simp: filter_id_conv)

lemma job_key_filter:
  "map job_key (filter (\<lambda>(k, j). (k, aj_token j) \<noteq> x) xs) = filter (\<lambda>y. y \<noteq> x) (map job_key xs)"
  by (induction xs) (auto simp: job_key_def)

lemma worker_ends_ok:
  assumes "conn_ok c"
  shows "conn_ok (worker_ends n result c)"
proof (cases "n < length (ac_workers c)")
  case True
  obtain job token where w: "ac_workers c ! n = (job, token)" by fastforce
  let ?jobs = "filter (\<lambda>(k, j). (k, aj_token j) \<noteq> (job, token)) (ac_jobs c)"
  let ?ws = "take n (ac_workers c) @ drop (Suc n) (ac_workers c)"
  have ws: "mset (ac_workers c) = add_mset (job, token) (mset ?ws)"
    using True w id_take_nth_drop [OF True] by (metis mset.simps(2) mset_append union_mset_add_mset_right)
  have jobs: "map job_key ?jobs = filter (\<lambda>y. y \<noteq> (job, token)) (map job_key (ac_jobs c))"
    by (rule job_key_filter)
  have "distinct (map job_key (ac_jobs c))"
    using assms by (auto simp: conn_ok_def distinct_map job_key_def inj_on_def)
  from filter_distinct_mset [OF this] have f: "mset (map job_key ?jobs) = mset (map job_key (ac_jobs c)) - {#(job, token)#}"
    unfolding jobs .
  have "mset (map job_key (ac_jobs c)) = add_mset (job, token) (mset ?ws)" using ws assms unfolding conn_ok_def by metis
  then have "mset (map job_key ?jobs) = mset ?ws" unfolding f by simp
  moreover have "distinct (map fst ?jobs)" "length ?jobs \<le> MAX_ACTIVE_JOBS"
    using assms by (auto simp: conn_ok_def distinct_map_filter intro: order_trans [OF length_filter_le])
  ultimately show ?thesis
    using assms True w ws by (auto simp: worker_ends_def conn_ok_def Let_def)
qed (use assms in \<open>simp add: worker_ends_def\<close>)

lemma run_turn_ok: "conn_ok c \<Longrightarrow> ac_open c \<Longrightarrow> conn_ok (run_turn encode decode e c)"
proof (cases e)
  case (Ev_Incoming i ok)
  assume c: "conn_ok c" "ac_open c"
  show ?thesis
  proof (cases i)
    case (In_Frame f)
    show ?thesis
    proof (cases f)
      case (Ws_Text s)
      then show ?thesis
        using Ev_Incoming In_Frame leave_ok handle_message_ok [OF c, of decode s]
        by (cases "handle_message decode s c"; cases "fst (handle_message decode s c)") (simp_all add: run_turn_def)
    qed (use In_Frame Ev_Incoming c leave_ok send_control_ok in \<open>simp_all add: run_turn_def\<close>)
  qed (use Ev_Incoming c leave_ok in \<open>simp_all add: run_turn_def\<close>)
next
  case (Ev_Result ok)
  assume c: "conn_ok c" "ac_open c"
  show ?thesis
  proof (cases "ac_results c")
    case (Cons m rest)
    have "conn_ok (c\<lparr>ac_results := rest, ac_answered := ac_answered c @ [m]\<rparr>)"
      using c Cons by (simp add: conn_ok_def)
    then show ?thesis
      using Ev_Result Cons send_control_ok by (cases "encode m") (simp_all add: run_turn_def Let_def)
  qed (use Ev_Result c in \<open>simp add: run_turn_def\<close>)
qed (simp_all add: run_turn_def leave_ok)

lemma conn_step_ok: "conn_ok c \<Longrightarrow> conn_ok (conn_step encode decode c e)"
  using run_turn_ok worker_ends_ok by (auto simp: conn_step_def split: conn_event.splits)

interpretation agent_conn: invariant_machine "conn_step encode decode" conn_ok for encode decode
  by unfold_locales (rule conn_step_ok)

text \<open>C18. The jobs of an agent's connection, in every history: at most 16 run, under different ids; while
  the connection lives every job that was started either runs or has exactly one answer, and a running
  one is cancelled only if the server asked for it with the job's token; once it is gone, every job
  that still runs is cancelled.\<close>

theorem agent_jobs_accounted:
  "let c = run_steps (conn_step encode decode) conn_new es
   in length (ac_jobs c) \<le> 16 \<and> distinct (map fst (ac_jobs c))
    \<and> (if ac_open c
       then mset (ac_started c) = mset (map job_key (ac_jobs c)) + mset (map answer_key (ac_answered c @ ac_results c))
         \<and> list_all (\<lambda>x. if aj_cancel (snd x) then list_ex (\<lambda>m. m = Cancel_Pcap (fst x) (aj_token (snd x))) (ac_seen c) else True)
             (ac_jobs c)
       else list_all (\<lambda>x. aj_cancel (snd x)) (ac_jobs c))"
  using agent_conn.run_inv [OF conn_new_ok, of encode decode es]
  unfolding conn_ok_def Let_def MAX_ACTIVE_JOBS_def by (force simp: list_all_iff list_ex_iff)

end
