(* ===== verification/Agent_Job.thy ===== *)
theory Agent_Job
  imports Pcap_Stream
begin

text \<open>
  A capture job on the agent (\<open>run_job\<close> of \<open>src/src/agent/channel.rs\<close>): the writer between the
  blocking fetch and the upload, the body of the upload, the race of fetch, upload, progress, deadline
  and cancellation, and the terminal result. The fetch is given by what it writes and returns, the
  upload by its response; times are in nanoseconds.
\<close>

section \<open>The writer\<close>

definition UPLOAD_CHUNK_SIZE :: nat where "UPLOAD_CHUNK_SIZE = 64 * 1024"
definition UPLOAD_STALL_TIMEOUT :: nat where "UPLOAD_STALL_TIMEOUT = 60 * 10 ^ 9"
definition UPLOAD_RESPONSE_TIMEOUT :: nat where "UPLOAD_RESPONSE_TIMEOUT = 60 * 10 ^ 9"

record upload_writer =
  uw_buf :: "u8 list"
  uw_first_sent :: bool
  uw_sent :: "u8 list list"

definition upload_writer_new :: upload_writer where
  "upload_writer_new = \<lparr>uw_buf = [], uw_first_sent = False, uw_sent = []\<rparr>"

text \<open>The attempts to send are consumed; no result means that the call still waits. An interrupted
  request has the kind of the other errors.\<close>

fun upload_send ::
    "send_try list \<Rightarrow> u8 list \<Rightarrow> upload_writer \<Rightarrow> (io_result \<times> upload_writer \<times> send_try list) option" where
  "upload_send [] chunk w = None"
| "upload_send (Try_Ok # ts) chunk w = Some (Inr (), w\<lparr>uw_first_sent := True, uw_sent := uw_sent w @ [chunk]\<rparr>, ts)"
| "upload_send (Try_Closed # ts) chunk w = Some (Inl (Kind_BrokenPipe, ''PCAP upload receiver closed''), w, ts)"
| "upload_send (Try_Full cancelled late # ts) chunk w =
     (if cancelled then Some (Inl (Kind_Other, ''PCAP request cancelled''), w, ts)
      else if late then Some (Inl (Kind_TimedOut, ''PCAP upload stalled''), w, ts)
      else upload_send ts chunk w)"

definition upload_push ::
    "send_try list \<Rightarrow> upload_writer \<Rightarrow> (io_result \<times> upload_writer \<times> send_try list) option" where
  "upload_push ts w =
     (if uw_buf w = [] then Some (Inr (), w, ts) else upload_send ts (uw_buf w) (w\<lparr>uw_buf := []\<rparr>))"

lemma upload_send_sent:
  "upload_send ts chunk w = Some (r, w', ts') \<Longrightarrow>
     (case r of Inr _ \<Rightarrow> w' = w\<lparr>uw_first_sent := True, uw_sent := uw_sent w @ [chunk]\<rparr> | Inl e \<Rightarrow> w' = w)"
  by (induction ts chunk w rule: upload_send.induct) (auto split: if_splits)

lemma upload_push_buf: "upload_push ts w = Some (r, w', ts') \<Longrightarrow> uw_buf w' = []"
  by (auto simp: upload_push_def split: if_splits sum.splits dest!: upload_send_sent)

text \<open>The loop of \<open>write\<close>; a buffer beyond the chunk size would overflow the subtraction, which is no
  result here (it never is).\<close>

definition fill :: "u8 list \<Rightarrow> upload_writer \<Rightarrow> u8 list \<times> upload_writer" where
  "fill rest w =
     (let n = min (UPLOAD_CHUNK_SIZE - length (uw_buf w)) (length rest)
      in (drop n rest, w\<lparr>uw_buf := uw_buf w @ take n rest\<rparr>))"

function upload_write ::
    "send_try list \<Rightarrow> u8 list \<Rightarrow> upload_writer \<Rightarrow> (io_result \<times> upload_writer \<times> send_try list) option" where
  "upload_write ts rest w =
     (if rest = [] then Some (Inr (), w, ts)
      else if UPLOAD_CHUNK_SIZE < length (uw_buf w) then None
      else case fill rest w of (rest', w') \<Rightarrow>
        if \<not> uw_first_sent w' \<or> length (uw_buf w') = UPLOAD_CHUNK_SIZE then
          (case upload_push ts w' of
             Some (Inr _, w'', ts') \<Rightarrow> upload_write ts' rest' w''
           | r \<Rightarrow> r)
        else upload_write ts rest' w')"
  by pat_completeness auto

termination
  by (relation "measure (\<lambda>(ts, rest, w). 2 * length rest + (if UPLOAD_CHUNK_SIZE \<le> length (uw_buf w) then 1 else 0))")
    (auto simp: fill_def Let_def UPLOAD_CHUNK_SIZE_def min_def split: if_splits dest: upload_push_buf)

declare upload_write.simps [simp del]

definition upload_do ::
    "writer_op \<Rightarrow> send_try list \<Rightarrow> upload_writer \<Rightarrow> (io_result \<times> upload_writer \<times> send_try list) option" where
  "upload_do op ts w = (case op of Write_Bytes data \<Rightarrow> upload_write ts data w | Flush_Bytes \<Rightarrow> upload_push ts w)"

fun upload_run ::
    "writer_op list \<Rightarrow> send_try list \<Rightarrow> upload_writer \<Rightarrow> (io_result \<times> upload_writer \<times> send_try list) option" where
  "upload_run [] ts w = Some (Inr (), w, ts)"
| "upload_run (op # ops) ts w =
     (case upload_do op ts w of
        Some (Inr _, w, ts) \<Rightarrow> upload_run ops ts w
      | r \<Rightarrow> r)"

text \<open>The blocking closure: the fetch and the final flush; what the channel has been given in the end.\<close>

definition job_extraction ::
    "writer_op list \<Rightarrow> extraction \<Rightarrow> send_try list \<Rightarrow> (extraction \<times> u8 list list) option" where
  "job_extraction ops result ts =
     (case upload_run ops ts upload_writer_new of
        None \<Rightarrow> None
      | Some (Inl (kind, e), w, ts) \<Rightarrow> Some (Inl (kind, Io e), uw_sent w)
      | Some (Inr _, w, ts) \<Rightarrow>
          (case result of
             Inl e \<Rightarrow> Some (Inl e, uw_sent w)
           | Inr stats \<Rightarrow>
               (case upload_push ts w of
                  None \<Rightarrow> None
                | Some (Inl (kind, e), w, ts) \<Rightarrow> Some (Inl (kind, Io e), uw_sent w)
                | Some (Inr _, w, ts) \<Rightarrow> Some (Inr stats, uw_sent w))))"

section \<open>The body of the upload\<close>

datatype upload_progress = Progress_Pending | Progress_Bytes u64 | Progress_Eof | Progress_Cancelled

record upload_body =
  ub_first :: "u8 list option"
  ub_rx :: "u8 list list"
  ub_progress :: upload_progress
  ub_bytes :: u64
  ub_stopped :: bool

definition upload_body_new :: "u8 list \<Rightarrow> u8 list list \<Rightarrow> upload_body" where
  "upload_body_new first rx = \<lparr>ub_first = Some first, ub_rx = rx, ub_progress = Progress_Pending, ub_bytes = 0,
     ub_stopped = False\<rparr>"

definition body_record :: "u8 list \<Rightarrow> upload_body \<Rightarrow> upload_body" where
  "body_record chunk b =
     (let len = (case try_from_int (int (length chunk)) of Some n \<Rightarrow> n | None \<Rightarrow> - 1);
          n = saturating_add (ub_bytes b) len
      in b\<lparr>ub_bytes := n, ub_progress := Progress_Bytes n\<rparr>)"

datatype body_poll = Poll_Pending | Poll_End | Poll_Chunk "u8 list" | Poll_Cancelled

text \<open>A poll, with whether the request is cancelled and whether the channel has something to say.\<close>

definition poll_next :: "bool \<Rightarrow> bool \<Rightarrow> upload_body \<Rightarrow> body_poll \<times> upload_body" where
  "poll_next cancelled ready b =
     (if ub_stopped b then (Poll_End, b)
      else if cancelled then (Poll_Cancelled, b\<lparr>ub_stopped := True, ub_progress := Progress_Cancelled\<rparr>)
      else case ub_first b of
        Some first \<Rightarrow> (Poll_Chunk first, body_record first (b\<lparr>ub_first := None\<rparr>))
      | None \<Rightarrow>
          if \<not> ready then (Poll_Pending, b)
          else case ub_rx b of
            chunk # rest \<Rightarrow> (Poll_Chunk chunk, body_record chunk (b\<lparr>ub_rx := rest\<rparr>))
          | [] \<Rightarrow> (Poll_End, b\<lparr>ub_stopped := True, ub_progress := Progress_Eof\<rparr>))"

text \<open>The chunks that a sequence of polls gives.\<close>

fun body_polls :: "(bool \<times> bool) list \<Rightarrow> upload_body \<Rightarrow> u8 list list \<times> upload_body" where
  "body_polls [] b = ([], b)"
| "body_polls ((cancelled, ready) # ps) b =
     (case poll_next cancelled ready b of
        (Poll_Chunk chunk, b) \<Rightarrow> (case body_polls ps b of (chunks, b) \<Rightarrow> (chunk # chunks, b))
      | (_, b) \<Rightarrow> body_polls ps b)"

section \<open>The terminal result\<close>

type_synonym fetch_join = "string + (fetch_error + fetch_stats)"

datatype upload_join = Up_Response nat | Up_Error string | Up_Panic string

fun upload_succeeded :: "upload_join \<Rightarrow> bool" where
  "upload_succeeded (Up_Response status) \<longleftrightarrow> 200 \<le> status \<and> status < 300"
| "upload_succeeded _ \<longleftrightarrow> False"

definition classify_upload :: "upload_join \<Rightarrow> upload_status \<times> string option" where
  "classify_upload u =
     (if upload_succeeded u then (Upload_Complete, None)
      else (Upload_Failed, Some (case u of
        Up_Response status \<Rightarrow> ''PCAP upload rejected with '' @ show_nat status
      | Up_Error e \<Rightarrow> ''PCAP upload failed: '' @ e
      | Up_Panic e \<Rightarrow> ''PCAP upload task failed: '' @ e)))"

definition terminal_from_fetch ::
    "fetch_join \<Rightarrow> bool \<Rightarrow> upload_status \<Rightarrow> string option \<Rightarrow> pcap_result" where
  "terminal_from_fetch fetched cancelled upload upload_error =
     (let stats = (case fetched of
            Inr (Inr stats) \<Rightarrow> Some (wire_of_stats stats)
          | Inr (Inl (NoMatch stats)) \<Rightarrow> Some (wire_of_stats stats)
          | Inr (Inl NoCandidateFiles) \<Rightarrow> Some wire_stats_default
          | _ \<Rightarrow> None)
      in if cancelled then result_cancelled upload stats
         else case upload_error of
           Some message \<Rightarrow> \<lparr>res_code = Code_Error, res_upload = upload, res_message = Some message, res_stats = stats\<rparr>
         | None \<Rightarrow>
             (case fetched of
                Inr (Inr stats) \<Rightarrow> \<lparr>res_code = Code_Complete, res_upload = upload, res_message = None,
                  res_stats = Some (wire_of_stats stats)\<rparr>
              | Inr (Inl NoCandidateFiles) \<Rightarrow> \<lparr>res_code = Code_NoCandidateFiles, res_upload = upload, res_message = None,
                  res_stats = Some wire_stats_default\<rparr>
              | Inr (Inl (NoMatch stats)) \<Rightarrow> \<lparr>res_code = Code_NoMatch, res_upload = upload, res_message = None,
                  res_stats = Some (wire_of_stats stats)\<rparr>
              | Inr (Inl (Format message)) \<Rightarrow> \<lparr>res_code = Code_Error, res_upload = upload, res_message = Some message,
                  res_stats = None\<rparr>
              | Inr (Inl (Io err)) \<Rightarrow> \<lparr>res_code = Code_Error, res_upload = upload, res_message = Some err, res_stats = None\<rparr>
              | Inl err \<Rightarrow> \<lparr>res_code = Code_Error, res_upload = upload,
                  res_message = Some (''PCAP extraction task failed: '' @ err), res_stats = None\<rparr>))"

section \<open>The job\<close>

text \<open>How the wait for the extraction permit ended (and whether the job was cancelled right after), and
  the wait for the first chunk.\<close>

datatype permit_wait = Permit_Cancelled | Permit_Stopped | Permit_Got bool

datatype first_chunk = First_Cancelled | First_Chunk "u8 list" | First_Closed

datatype job_turn =
    Turn_Cancelled
  | Turn_Fetched
  | Turn_Uploaded upload_join
  | Turn_Progress nat "upload_progress option"
  | Turn_Deadline nat

record job_run =
  jr_fetched :: bool
  jr_uploaded :: "upload_join option"
  jr_eof :: bool
  jr_open :: bool
  jr_deadline :: nat

definition job_run_new :: "nat \<Rightarrow> job_run" where
  "job_run_new now = \<lparr>jr_fetched = False, jr_uploaded = None, jr_eof = False, jr_open = True,
     jr_deadline = now + UPLOAD_STALL_TIMEOUT\<rparr>"

datatype loop_end = Loop_Cancelled | Loop_Failed string | Loop_Done upload_join

definition body_progress :: "nat \<Rightarrow> upload_progress option \<Rightarrow> job_run \<Rightarrow> job_run" where
  "body_progress now p st =
     (case p of
        None \<Rightarrow> st\<lparr>jr_open := False\<rparr>
      | Some (Progress_Bytes n) \<Rightarrow> (if jr_eof st then st else st\<lparr>jr_deadline := now + UPLOAD_STALL_TIMEOUT\<rparr>)
      | Some Progress_Eof \<Rightarrow> st\<lparr>jr_eof := True, jr_deadline := now + UPLOAD_RESPONSE_TIMEOUT\<rparr>
      | _ \<Rightarrow> st)"

definition timeout_message :: "job_run \<Rightarrow> string" where
  "timeout_message st =
     (if jr_eof st then ''PCAP upload response timed out after body EOF'' else ''PCAP upload made no progress'')"

text \<open>The loop over what \<open>select!\<close> chose; a branch that is disabled or not ready is no step. No result
  means that it still waits.\<close>

fun job_loop :: "job_turn list \<Rightarrow> job_run \<Rightarrow> loop_end option" where
  "job_loop ts st =
     (if jr_fetched st \<and> jr_uploaded st \<noteq> None then Some (Loop_Done (the (jr_uploaded st)))
      else case ts of
        [] \<Rightarrow> None
      | Turn_Cancelled # ts \<Rightarrow> Some Loop_Cancelled
      | Turn_Fetched # ts \<Rightarrow> job_loop ts (st\<lparr>jr_fetched := True\<rparr>)
      | Turn_Uploaded u # ts \<Rightarrow>
          (if jr_uploaded st \<noteq> None then job_loop ts st
           else if upload_succeeded u then job_loop ts (st\<lparr>jr_uploaded := Some u\<rparr>)
           else Some (Loop_Failed (or_message (snd (classify_upload u)) ''PCAP upload failed'')))
      | Turn_Progress now p # ts \<Rightarrow>
          (if jr_uploaded st = None \<and> jr_open st then job_loop ts (body_progress now p st) else job_loop ts st)
      | Turn_Deadline now # ts \<Rightarrow>
          (if jr_uploaded st = None \<and> jr_deadline st \<le> now then Some (Loop_Failed (timeout_message st)) else job_loop ts st))"

declare job_loop.simps [simp del]

text \<open>The whole job, with the outcome of the blocking fetch, which is awaited on every path after it was
  started, and whether the job is cancelled when the terminal result is made.\<close>

definition run_job ::
    "u64 \<Rightarrow> u64 \<Rightarrow> permit_wait \<Rightarrow> first_chunk \<Rightarrow> nat \<Rightarrow> job_turn list \<Rightarrow> fetch_join \<Rightarrow> bool \<Rightarrow> pcap_result option" where
  "run_job start_us end_us permit first now turns fetched cancelled =
     (if start_us > end_us then Some (result_error ''PCAP request start is after end'')
      else case permit of
        Permit_Cancelled \<Rightarrow> Some (result_cancelled Upload_None None)
      | Permit_Stopped \<Rightarrow> Some (result_error ''PCAP extraction worker stopped'')
      | Permit_Got True \<Rightarrow> Some (result_cancelled Upload_None None)
      | Permit_Got False \<Rightarrow>
          (case first of
             First_Cancelled \<Rightarrow> Some (terminal_from_fetch fetched True Upload_None None)
           | First_Closed \<Rightarrow> Some (terminal_from_fetch fetched cancelled Upload_None None)
           | First_Chunk chunk \<Rightarrow>
               (case job_loop turns (job_run_new now) of
                  None \<Rightarrow> None
                | Some Loop_Cancelled \<Rightarrow> Some (terminal_from_fetch fetched True Upload_Failed None)
                | Some (Loop_Failed message) \<Rightarrow> Some (terminal_from_fetch fetched cancelled Upload_Failed (Some message))
                | Some (Loop_Done u) \<Rightarrow>
                    (case classify_upload u of (upload, e) \<Rightarrow> Some (terminal_from_fetch fetched cancelled upload e)))))"

text \<open>A worker that panics still ends with a result.\<close>

definition terminal_after_worker :: "string + pcap_result \<Rightarrow> pcap_result" where
  "terminal_after_worker worker =
     (case worker of Inr terminal \<Rightarrow> terminal | Inl err \<Rightarrow> result_error (''PCAP worker failed: '' @ err))"

section \<open>Lemmas: the writer\<close>

text \<open>What the writer has taken, and its state between the operations: no chunk is empty or longer than
  64 KiB, and nothing waits in the buffer before the first chunk is out.\<close>

definition upload_taken :: "upload_writer \<Rightarrow> u8 list" where
  "upload_taken w = concat (uw_sent w) @ uw_buf w"

definition chunk_ok :: "u8 list \<Rightarrow> bool" where
  "chunk_ok c \<longleftrightarrow> c \<noteq> [] \<and> length c \<le> UPLOAD_CHUNK_SIZE"

definition sent_chunks_ok :: "upload_writer \<Rightarrow> bool" where
  "sent_chunks_ok w \<longleftrightarrow> list_all chunk_ok (uw_sent w) \<and> length (uw_buf w) \<le> UPLOAD_CHUNK_SIZE
     \<and> uw_first_sent w = (uw_sent w \<noteq> [])"

definition upload_writer_ok :: "upload_writer \<Rightarrow> bool" where
  "upload_writer_ok w \<longleftrightarrow> sent_chunks_ok w \<and> (uw_first_sent w \<or> uw_buf w = [])"

text \<open>An operation forwards its data: after it the writer is in order and has taken the data, all of it
  unless it failed.\<close>

definition forwards :: "upload_writer \<Rightarrow> u8 list \<Rightarrow> io_result \<Rightarrow> upload_writer \<Rightarrow> bool" where
  "forwards w data r w' \<longleftrightarrow> upload_writer_ok w' \<and> prefix (upload_taken w') (upload_taken w @ data)
     \<and> (is_ok r \<longrightarrow> upload_taken w' = upload_taken w @ data)"

lemma forwards_trans:
  "forwards w a (Inr u) w' \<Longrightarrow> forwards w' b r w'' \<Longrightarrow> forwards w (a @ b) r w''"
  by (simp add: forwards_def)

lemma forwards_fails: "forwards w a (Inl e) w' \<Longrightarrow> forwards w (a @ b) (Inl e) w'"
  by (auto simp: forwards_def intro: prefix_prefix [of _ "upload_taken w @ a" b, simplified])

lemma upload_writer_new_ok: "upload_writer_ok upload_writer_new" "upload_taken upload_writer_new = []"
  by (simp_all add: upload_writer_ok_def sent_chunks_ok_def upload_writer_new_def upload_taken_def)

lemma push_forwards:
  assumes "upload_push ts w = Some (r, w', ts')" and "sent_chunks_ok w"
  shows "forwards w [] r w'"
proof (cases "uw_buf w = []")
  case True
  then show ?thesis using assms by (auto simp: upload_push_def forwards_def upload_writer_ok_def)
next
  case False
  then have "upload_send ts (uw_buf w) (w\<lparr>uw_buf := []\<rparr>) = Some (r, w', ts')"
    using assms(1) by (simp add: upload_push_def)
  from upload_send_sent [OF this] show ?thesis
    using False assms(2)
    by (cases r) (auto simp: forwards_def upload_writer_ok_def sent_chunks_ok_def upload_taken_def chunk_ok_def)
qed

lemma fill_taken:
  assumes "fill rest w = (rest', w')" and "sent_chunks_ok w"
  shows "\<exists>d. rest = d @ rest' \<and> upload_taken w' = upload_taken w @ d \<and> sent_chunks_ok w'
    \<and> uw_first_sent w' = uw_first_sent w"
  using assms
  by (intro exI [of _ "take (min (UPLOAD_CHUNK_SIZE - length (uw_buf w)) (length rest)) rest"])
    (auto simp: fill_def Let_def upload_taken_def sent_chunks_ok_def)

lemma write_forwards:
  "upload_write ts rest w = Some (r, w', ts') \<Longrightarrow> upload_writer_ok w \<Longrightarrow> forwards w rest r w'"
proof (induction ts rest w rule: upload_write.induct)
  case (1 ts rest w)
  show ?case
  proof (cases "rest = []")
    case True
    then show ?thesis using "1.prems" by (subst (asm) upload_write.simps) (auto simp: forwards_def)
  next
    case False
    obtain rest1 w1 where f: "fill rest w = (rest1, w1)" by fastforce
    have ok: "sent_chunks_ok w" "\<not> UPLOAD_CHUNK_SIZE < length (uw_buf w)"
      using "1.prems"(2) by (simp_all add: upload_writer_ok_def sent_chunks_ok_def)
    from fill_taken [OF f ok(1)] obtain d where d: "rest = d @ rest1" "upload_taken w1 = upload_taken w @ d"
      "sent_chunks_ok w1" "uw_first_sent w1 = uw_first_sent w" by blast
    show ?thesis
    proof (cases "\<not> uw_first_sent w1 \<or> length (uw_buf w1) = UPLOAD_CHUNK_SIZE")
      case push: True
      obtain q w2 ts2 where q: "upload_push ts w1 = Some (q, w2, ts2)"
        using "1.prems"(1) False ok(2) f push by (subst (asm) upload_write.simps) (auto split: option.splits)
      have "forwards w1 [] q w2" by (rule push_forwards [OF q d(3)])
      then have w2: "forwards w d q w2" using d(2) by (simp add: forwards_def)
      show ?thesis
      proof (cases q)
        case (Inl e)
        then have "r = Inl e \<and> w' = w2"
          using "1.prems"(1) False ok(2) f push q by (simp add: upload_write.simps [of ts rest w])
        then show ?thesis using forwards_fails [of w d e w2 rest1] w2 Inl d(1) by simp
      next
        case (Inr u)
        have "upload_write ts2 rest1 w2 = Some (r, w', ts')"
          using "1.prems"(1) False ok(2) f push q Inr by (subst (asm) upload_write.simps) simp
        moreover have "upload_writer_ok w2" using w2 by (simp add: forwards_def)
        ultimately have "forwards w2 rest1 r w'"
          by (rule "1.IH"(1) [OF False ok(2) f [symmetric] push q refl Inr refl])
        then show ?thesis using forwards_trans [of w d u w2 rest1 r w'] w2 Inr d(1) by simp
      qed
    next
      case go: False
      have "upload_write ts rest1 w1 = Some (r, w', ts')"
        using "1.prems"(1) False ok(2) f go by (subst (asm) upload_write.simps) simp
      moreover have "upload_writer_ok w1" using d(3) go by (simp add: upload_writer_ok_def)
      ultimately have "forwards w1 rest1 r w'" by (rule "1.IH"(2) [OF False ok(2) f [symmetric] go])
      then show ?thesis using d(1,2) by (simp add: forwards_def)
    qed
  qed
qed

lemma do_forwards: "upload_do op ts w = Some (r, w', ts') \<Longrightarrow> upload_writer_ok w \<Longrightarrow> forwards w (ops_data [op]) r w'"
  by (cases op) (auto simp: upload_do_def upload_writer_ok_def dest: push_forwards write_forwards)

lemma run_forwards:
  "upload_run ops ts w = Some (r, w', ts') \<Longrightarrow> upload_writer_ok w \<Longrightarrow> forwards w (ops_data ops) r w'"
proof (induction ops arbitrary: ts w)
  case (Cons op ops)
  obtain q w1 ts1 where q: "upload_do op ts w = Some (q, w1, ts1)"
    using Cons.prems(1) by (cases "upload_do op ts w") auto
  have one: "forwards w (ops_data [op]) q w1" by (rule do_forwards [OF q Cons.prems(2)])
  have split: "ops_data (op # ops) = ops_data [op] @ ops_data ops" by (cases op) simp_all
  show ?case
  proof (cases q)
    case (Inl e)
    then show ?thesis using Cons.prems(1) q one forwards_fails unfolding split by fastforce
  next
    case (Inr u)
    have "upload_writer_ok w1" using one by (simp add: forwards_def)
    moreover have "upload_run ops ts1 w1 = Some (r, w', ts')" using Cons.prems(1) q Inr by simp
    ultimately have "forwards w1 (ops_data ops) r w'" by (rule Cons.IH [rotated])
    then show ?thesis using forwards_trans one Inr unfolding split by blast
  qed
qed (simp add: forwards_def)

lemma job_extraction_sent:
  assumes "job_extraction ops result ts = Some (r, chunks)"
  shows "list_all chunk_ok chunks \<and> prefix (concat chunks) (ops_data ops)
    \<and> (case r of Inr stats \<Rightarrow> result = Inr stats \<and> concat chunks = ops_data ops
       | Inl (kind, e) \<Rightarrow> result = Inl (kind, e) \<or> (\<exists>msg. e = Io msg))"
proof -
  obtain q w ts1 where q: "upload_run ops ts upload_writer_new = Some (q, w, ts1)"
    using assms by (auto simp: job_extraction_def split: option.splits)
  have f: "forwards upload_writer_new (ops_data ops) q w" by (rule run_forwards [OF q upload_writer_new_ok(1)])
  have "prefix (upload_taken w) (ops_data ops)" using f by (simp add: forwards_def upload_writer_new_ok)
  moreover have "prefix (concat (uw_sent w)) (upload_taken w)" by (simp add: upload_taken_def)
  ultimately have p: "prefix (concat (uw_sent w)) (ops_data ops)" by (rule prefix_order.trans [rotated])
  have w: "list_all chunk_ok (uw_sent w)" "sent_chunks_ok w"
    using f by (auto simp: forwards_def upload_writer_ok_def sent_chunks_ok_def)
  show ?thesis
  proof (cases "is_ok q \<and> is_ok result")
    case False
    then show ?thesis using assms q w p by (auto simp: job_extraction_def split: sum.splits)
  next
    case True
    then obtain u stats where u: "q = Inr u" "result = Inr stats" by (cases q; cases result) auto
    obtain z w2 ts2 where p': "upload_push ts1 w = Some (z, w2, ts2)"
      using assms q u by (auto simp: job_extraction_def split: option.splits)
    have "forwards w [] z w2" by (rule push_forwards [OF p' w(2)])
    then have "forwards upload_writer_new (ops_data ops) z w2"
      using f u(1) forwards_trans [of upload_writer_new "ops_data ops" u w "[]" z w2] by simp
    then have "list_all chunk_ok (uw_sent w2) \<and> prefix (upload_taken w2) (ops_data ops)
        \<and> (is_ok z \<longrightarrow> upload_taken w2 = ops_data ops)"
      by (simp add: forwards_def upload_writer_new_ok upload_writer_ok_def sent_chunks_ok_def)
    moreover have "upload_taken w2 = concat (uw_sent w2)" using upload_push_buf [OF p'] by (simp add: upload_taken_def)
    ultimately show ?thesis using assms q u p' by (cases z) (auto simp: job_extraction_def)
  qed
qed

section \<open>Lemmas: the body\<close>

definition body_left :: "upload_body \<Rightarrow> u8 list list" where
  "body_left b = (case ub_first b of Some c \<Rightarrow> [c] | None \<Rightarrow> []) @ ub_rx b"

lemma poll_next_left:
  assumes "poll_next cancelled ready b = (p, b')"
  shows "body_left b = (case p of Poll_Chunk c \<Rightarrow> [c] | _ \<Rightarrow> []) @ body_left b'"
    and "(ub_progress b = Progress_Eof \<longrightarrow> ub_stopped b \<and> body_left b = []) \<Longrightarrow>
      (ub_progress b' = Progress_Eof \<longrightarrow> ub_stopped b' \<and> body_left b' = [])"
  using assms
  by (auto simp: poll_next_def body_record_def body_left_def Let_def split: if_splits option.splits list.splits)

lemma body_polls_left:
  "body_polls ps b = (chunks, b') \<Longrightarrow> (ub_progress b = Progress_Eof \<longrightarrow> ub_stopped b \<and> body_left b = []) \<Longrightarrow>
     body_left b = chunks @ body_left b' \<and> (ub_progress b' = Progress_Eof \<longrightarrow> body_left b' = [])"
proof (induction ps b arbitrary: chunks b' rule: body_polls.induct)
  case (2 cancelled ready ps b)
  obtain p b1 where p: "poll_next cancelled ready b = (p, b1)" by fastforce
  obtain cs b2 where q: "body_polls ps b1 = (cs, b2)" by fastforce
  note left = poll_next_left [OF p]
  have "body_left b1 = cs @ body_left b2 \<and> (ub_progress b2 = Progress_Eof \<longrightarrow> body_left b2 = [])"
    using "2.IH" p q left(2) [OF "2.prems"(2)] by (cases p) auto
  then show ?case using "2.prems"(1) p q left(1) by (cases p) auto
qed simp


section \<open>Lemmas: the result\<close>

lemma job_loop_done:
  "job_loop ts st = Some (Loop_Done u) \<Longrightarrow> (case jr_uploaded st of Some v \<Rightarrow> upload_succeeded v | None \<Rightarrow> True) \<Longrightarrow>
     upload_succeeded u"
proof (induction ts st rule: job_loop.induct)
  case (1 ts st)
  show ?case
  proof (cases "jr_fetched st \<and> jr_uploaded st \<noteq> None")
    case True
    then show ?thesis using "1.prems" by (auto simp: job_loop.simps [of ts st])
  next
    case go: False
    show ?thesis
    proof (cases ts)
      case (Cons t ts')
      show ?thesis
      proof (cases t)
        case (Turn_Progress now p)
        have "jr_uploaded (body_progress now p st) = jr_uploaded st"
          by (simp add: body_progress_def split: option.splits upload_progress.splits)
        then show ?thesis
          using 1 go Cons Turn_Progress by (simp add: job_loop.simps [of "Turn_Progress now p # ts'" st] split: if_splits)
      next
        case Turn_Cancelled
        then show ?thesis using 1 go Cons by (auto simp: job_loop.simps [of "Turn_Cancelled # ts'" st] split: if_splits)
      next
        case Turn_Fetched
        then show ?thesis using 1 go Cons by (auto simp: job_loop.simps [of "Turn_Fetched # ts'" st] split: if_splits)
      next
        case (Turn_Uploaded v)
        then show ?thesis using 1 go Cons by (auto simp: job_loop.simps [of "Turn_Uploaded v # ts'" st] split: if_splits)
      next
        case (Turn_Deadline now)
        then show ?thesis using 1 go Cons by (auto simp: job_loop.simps [of "Turn_Deadline now # ts'" st] split: if_splits)
      qed
    next
      case Nil
      then show ?thesis using "1.prems" go by (auto simp: job_loop.simps [of "[]" st] split: if_splits)
    qed
  qed
qed

lemma job_run_done: "job_loop ts (job_run_new now) = Some (Loop_Done u) \<Longrightarrow> upload_succeeded u"
  by (erule job_loop_done) (simp add: job_run_new_def)

text \<open>The ways a job ends.\<close>

definition gave_up :: "pcap_result \<Rightarrow> bool" where
  "gave_up r \<longleftrightarrow> res_code r = Code_Error \<or> res_code r = Code_Cancelled"

lemma terminal_gave_up:
  "cancelled \<or> e \<noteq> None \<Longrightarrow> gave_up (terminal_from_fetch fetched cancelled u e)"
  "gave_up (terminal_from_fetch (Inl m) cancelled u e)"
  "gave_up (terminal_from_fetch (Inr (Inl (Format m))) cancelled u e)"
  "gave_up (terminal_from_fetch (Inr (Inl (Io m))) cancelled u e)"
  by (auto simp: terminal_from_fetch_def gave_up_def result_cancelled_def Let_def split: option.splits)

lemma run_job_ends:
  assumes "run_job start_us end_us permit first now turns fetched cancelled = Some res"
  shows "gave_up res \<or> first = First_Closed \<and> res = terminal_from_fetch fetched cancelled Upload_None None
    \<or> (\<exists>chunk. first = First_Chunk chunk) \<and> res = terminal_from_fetch fetched cancelled Upload_Complete None"
proof (cases "end_us < start_us \<or> permit \<noteq> Permit_Got False")
  case True
  then show ?thesis
    using assms by (auto simp: run_job_def gave_up_def result_error_def result_cancelled_def
        split: if_splits permit_wait.splits bool.splits)
next
  case False
  note run = assms [unfolded run_job_def]
  show ?thesis
  proof (cases first)
    case (First_Chunk chunk)
    then show ?thesis
      using run False
      by (auto simp: terminal_gave_up classify_upload_def job_run_done split: option.splits loop_end.splits if_splits)
  qed (use run False in \<open>auto simp: terminal_gave_up\<close>)
qed

text \<open>What the server can see of a job when it has this result: no upload when none was made, the whole
  upload when it was accepted, anything when it failed.\<close>

definition server_sees :: "pcap_result \<Rightarrow> nat \<Rightarrow> upload_state \<Rightarrow> bool \<Rightarrow> u64 \<Rightarrow> bool" where
  "server_sees r n upload body_open streamed \<longleftrightarrow>
     (case res_upload r of
        Upload_None \<Rightarrow> upload = Pending \<and> streamed = 0
      | Upload_Complete \<Rightarrow> upload = Uploaded (of_nat n) \<and> (body_open \<or> streamed = of_nat n)
      | Upload_Failed \<Rightarrow> True)"

text \<open>What the fetch promises: it counts what it writes, writes nothing without a match, and reports an
  empty success only when a limit or the cancellation stopped it.\<close>

definition fetch_reports :: "bool \<Rightarrow> writer_op list \<Rightarrow> extraction \<Rightarrow> bool" where
  "fetch_reports cancelled ops result \<longleftrightarrow>
     (case result of
        Inr stats \<Rightarrow> fs_bytes stats = of_nat (length (ops_data ops)) \<and> (ops_data ops = [] \<longrightarrow> fs_truncated stats \<or> cancelled)
      | Inl (kind, NoCandidateFiles) \<Rightarrow> ops_data ops = []
      | Inl (kind, NoMatch stats) \<Rightarrow> ops_data ops = []
      | Inl (kind, _) \<Rightarrow> True)"

lemma gave_up_class:
  "gave_up r \<Longrightarrow> server_sees r n upload body_open streamed \<Longrightarrow>
     (\<exists>m. classify_result r upload body_open streamed = Remote_Error m)
     \<or> (\<exists>m. classify_result r upload body_open streamed = Remote_Cancelled m)"
  by (auto simp: gave_up_def server_sees_def classify_result_def split: upload_status.splits)

definition agrees :: "extraction \<Rightarrow> u8 list \<Rightarrow> bool \<Rightarrow> u64 \<Rightarrow> remote_outcome \<Rightarrow> bool" where
  "agrees r data body_open streamed outcome \<longleftrightarrow>
     (case outcome of
        Protocol detail \<Rightarrow> False
      | Wait \<Rightarrow> body_open
      | Remote_Complete stats \<Rightarrow> streamed = of_nat (length data) \<and> (\<exists>fs. r = Inr fs \<and> stats = wire_of_stats fs)
      | _ \<Rightarrow> True)"

lemma gave_up_agrees:
  "gave_up r \<Longrightarrow> server_sees r n upload body_open streamed \<Longrightarrow> agrees x data body_open streamed (classify_result r upload body_open streamed)"
  by (drule (1) gave_up_class) (auto simp: agrees_def)

text \<open>The fetch was awaited: what it reported, or that its task failed.\<close>

lemma terminal_agrees:
  assumes "fetched = Inr (plain_result r) \<or> (\<exists>e. fetched = Inl e)"
    and "server_sees (terminal_from_fetch fetched cancelled u None) n upload body_open streamed"
    and "\<And>fs. r = Inr fs \<Longrightarrow> \<not> cancelled \<Longrightarrow> fs_bytes fs = of_nat (length data)
      \<and> (if u = Upload_None then data = [] \<and> fs_truncated fs else u = Upload_Complete \<and> n = length data)"
    and "\<And>kind e. r = Inl (kind, e) \<Longrightarrow> u \<noteq> Upload_None \<Longrightarrow> \<exists>m. e = Io m \<or> e = Format m"
  shows "agrees r data body_open streamed (classify_result (terminal_from_fetch fetched cancelled u None) upload body_open streamed)"
proof (cases "gave_up (terminal_from_fetch fetched cancelled u None)")
  case True
  then show ?thesis by (rule gave_up_agrees [OF _ assms(2)])
next
  case False
  then have c: "\<not> cancelled" and f: "fetched = Inr (plain_result r)"
    using assms(1) terminal_gave_up(1,2) by blast+
  show ?thesis
  proof (cases r)
    case (Inl ke)
    obtain kind e where ke: "ke = (kind, e)" by fastforce
    have "u = Upload_None" and e: "e = NoCandidateFiles \<or> (\<exists>st. e = NoMatch st)"
      using assms(4) [of kind e] False f Inl ke terminal_gave_up(3,4) [of _ cancelled u None]
      by (cases e; auto simp: plain_result_def map_error_def)+
    then show ?thesis
      using assms(2) c f Inl ke
      by (auto simp: terminal_from_fetch_def plain_result_def map_error_def server_sees_def classify_result_def agrees_def)
  next
    case (Inr fs)
    show ?thesis
      using assms(2) assms(3) [OF Inr c] c f Inr
      by (auto simp: terminal_from_fetch_def plain_result_def map_error_def server_sees_def classify_result_def agrees_def
          wire_of_stats_def split: if_splits)
  qed
qed


text \<open>A capture of three bytes over two chunks.\<close>

definition example_stats :: fetch_stats where
  "example_stats = fetch_stats_default\<lparr>fs_packets := 1, fs_bytes := 3\<rparr>"

definition example_writes :: "writer_op list" where
  "example_writes = [Write_Bytes [1], Flush_Bytes, Write_Bytes [2, 3]]"

lemma example_extraction:
  "job_extraction example_writes (Inr example_stats) [Try_Full False False, Try_Ok, Try_Ok] = Some (Inr example_stats, [[1], [2, 3]])"
  by (simp add: job_extraction_def example_writes_def upload_do_def upload_write.simps fill_def upload_push_def
      upload_writer_new_def UPLOAD_CHUNK_SIZE_def)

lemma example_polls:
  "body_polls [(False, True), (False, False), (False, True), (False, True)] (upload_body_new [1] [[2, 3]]) =
     ([[1], [2, 3]], \<lparr>ub_first = None, ub_rx = [], ub_progress = Progress_Eof, ub_bytes = 3, ub_stopped = True\<rparr>)"
  by (simp add: upload_body_new_def poll_next_def body_record_def saturating_add_def try_from_int_def Let_def)


lemma example_job:
  "run_job 0 1 (Permit_Got False) (First_Chunk [1]) 0
     [Turn_Progress 5 (Some (Progress_Bytes 1)), Turn_Fetched, Turn_Progress 9 (Some Progress_Eof), Turn_Uploaded (Up_Response 200)]
     (Inr (Inr example_stats)) False =
   Some \<lparr>res_code = Code_Complete, res_upload = Upload_Complete, res_message = None, res_stats = Some (wire_of_stats example_stats)\<rparr>"
  by (simp add: run_job_def job_loop.simps job_run_new_def body_progress_def classify_upload_def terminal_from_fetch_def)


end
