(* ===== verification/Agent_Link.thy ===== *)
theory Agent_Link
  imports Agent_Channel Agent_Server Agent_Job
begin

text \<open>
  Both ends of the control channel together: what the server's machine (\<open>Agent_Server\<close>) sends is what
  the agent's machine (\<open>Agent_Channel\<close>) accepts, and an upload that the server accepted is the body
  that the agent's job (\<open>Agent_Job\<close>) sent.
\<close>

section \<open>The conversation\<close>

fun is_hello :: "server_message \<Rightarrow> bool" where
  "is_hello (Hello version capabilities) = True"
| "is_hello _ = False"

text \<open>What an agent makes of the frames a connection sends: the control state it is in afterwards, or
  \<open>None\<close> when it would break off.\<close>

fun hears :: "(string \<Rightarrow> server_message option) \<Rightarrow> ws_frame list \<Rightarrow> control_state \<Rightarrow> control_state option" where
  "hears decode [] s = Some s"
| "hears decode (Ws_Text t # fs) s =
     (case decode t of
        None \<Rightarrow> None
      | Some m \<Rightarrow> (case accept s m of (True, s) \<Rightarrow> hears decode fs s | (False, s) \<Rightarrow> None))"
| "hears decode (f # fs) s = hears decode fs s"

lemma hears_append: "hears decode (fs @ gs) s = Option.bind (hears decode fs s) (hears decode gs)"
  by (induction decode fs s rule: hears.induct) (auto split: option.splits prod.splits bool.splits)

lemma accept_ready: "\<not> is_hello m \<Longrightarrow> accept (Ready True) m = (True, Ready True)"
  by (cases m) auto

definition queue_ok :: "agent_entry \<Rightarrow> bool" where
  "queue_ok e \<longleftrightarrow> list_all (\<lambda>m. \<not> is_hello m) (ae_outbound e)"

definition heard_ok :: "(string \<Rightarrow> server_message option) \<Rightarrow> agent_channel \<Rightarrow> bool" where
  "heard_ok decode ch \<longleftrightarrow> hears decode (ch_sent ch) AwaitingHello = Some (Ready True)"

definition talk_ok :: "(string \<Rightarrow> server_message option) \<Rightarrow> agent_server \<Rightarrow> bool" where
  "talk_ok decode sv \<longleftrightarrow> list_all queue_ok (ar_entries (sv_agents sv)) \<and> list_all (heard_ok decode) (sv_channels sv)"

fun no_hello :: "server_op \<Rightarrow> bool" where
  "no_hello (Send_Request i job token m) = (\<not> is_hello m)"
| "no_hello _ = True"

lemma queue_ok_ops [simp]:
  "queue_ok (touch now e) = queue_ok e" "queue_ok (set_rtt r e) = queue_ok e" "queue_ok (pong_received e) = queue_ok e"
  "queue_ok (cancel e) = queue_ok e" "queue_ok (snd (probe_start e)) = queue_ok e" "queue_ok (e\<lparr>ae_receiver := b\<rparr>) = queue_ok e"
  "queue_ok (e\<lparr>ae_ping_request := b\<rparr>) = queue_ok e" "queue_ok (new_entry h key remote now g slot)"
  by (simp_all add: queue_ok_def touch_def set_rtt_def pong_received_def cancel_def probe_start_def new_entry_def)

lemma queue_ok_send: "try_send m e = Inr e' \<Longrightarrow> queue_ok e \<Longrightarrow> \<not> is_hello m \<Longrightarrow> queue_ok e'"
  by (auto simp: try_send_def queue_ok_def split: if_splits)

lemma heard_ok_ops [simp]:
  "heard_ok decode (ch\<lparr>ch_phase := p\<rparr>) = heard_ok decode ch" "heard_ok decode (ch\<lparr>ch_missed := n\<rparr>) = heard_ok decode ch"
  "heard_ok decode (ch\<lparr>ch_last_ping := l\<rparr>) = heard_ok decode ch"
  by (simp_all add: heard_ok_def)

lemma heard_ok_ping [simp]:
  "heard_ok decode (ch_send ok (Ws_Ping p) ch) = heard_ok decode ch" "heard_ok decode (ch_send ok (Ws_Pong p) ch) = heard_ok decode ch"
  by (simp_all add: ch_send_def heard_ok_def hears_append split: bind_splits)

lemma heard_ok_text:
  "heard_ok decode ch \<Longrightarrow> decode s = Some m \<Longrightarrow> \<not> is_hello m \<Longrightarrow> heard_ok decode (ch_send ok (Ws_Text s) ch)"
  by (simp add: ch_send_def heard_ok_def hears_append accept_ready)

text \<open>The texts of messages other than a hello are read as such.\<close>

definition reads_back :: "(json \<Rightarrow> string option) \<Rightarrow> (string \<Rightarrow> server_message option) \<Rightarrow> bool" where
  "reads_back render decode \<longleftrightarrow>
     (\<forall>m s. \<not> is_hello m \<longrightarrow> render (server_message_json m) = Some s \<longrightarrow> (\<exists>m'. decode s = Some m' \<and> \<not> is_hello m'))"

lemma take_frame_talk:
  "take_frame parse now ok f (e, ch, m) = (e', ch', m') \<Longrightarrow> queue_ok e \<Longrightarrow> heard_ok decode ch \<Longrightarrow> queue_ok e' \<and> heard_ok decode ch'"
  by (cases f) (auto simp: Let_def split: prod.splits delivery.splits option.splits)

lemma conn_turn_talk:
  assumes "reads_back render decode" and "conn_turn render parse now ok t (e, ch, m) = (e', ch', m')" and "queue_ok e" and "heard_ok decode ch"
  shows "queue_ok e' \<and> heard_ok decode ch'"
proof (cases t)
  case On_Outbound
  show ?thesis
  proof (cases "ae_outbound e")
    case (Cons message rest)
    then have q: "\<not> is_hello message" "queue_ok (e\<lparr>ae_outbound := rest\<rparr>)" using assms(3) by (simp_all add: queue_ok_def)
    then have "heard_ok decode (ch_send ok (Ws_Text s) ch)" if "render (server_message_json message) = Some s" for s
      using assms(1,4) that heard_ok_text by (fastforce simp: reads_back_def)
    then show ?thesis
      using assms(2,4) On_Outbound Cons q(2) by (auto simp: Let_def split: option.splits if_splits)
  qed (use assms On_Outbound in simp)
next
  case (On_Incoming i)
  then show ?thesis using assms(2-4) by (cases i) (auto dest: take_frame_talk)
qed (use assms(2-4) in \<open>auto simp: Let_def split: if_splits\<close>)

lemma all_at_entry:
  "list_all P (ar_entries reg) \<Longrightarrow> P (f (ar_entries reg ! i)) \<or> length (ar_entries reg) \<le> i \<Longrightarrow> list_all P (ar_entries (at_entry i f reg))"
proof (cases "i < length (ar_entries reg)")
  case True
  assume "list_all P (ar_entries reg)" and "P (f (ar_entries reg ! i)) \<or> length (ar_entries reg) \<le> i"
  then show ?thesis using True by (auto simp: at_entry_def list_all_iff dest!: set_update_subset_insert [THEN subsetD])
qed (simp add: at_entry_def list_update_beyond)

lemma entry_all: "list_all P (ar_entries reg) \<Longrightarrow> i < length (ar_entries reg) \<Longrightarrow> P (entry reg i)"
  by (simp add: entry_def list_all_length)

lemma register_queues:
  assumes "agents_register h key remote now reg = (r, reg')" and "list_all queue_ok (ar_entries reg)"
  shows "list_all queue_ok (ar_entries reg')"
proof (cases r)
  case (Inl e)
  then show ?thesis using register_Inl assms by blast
next
  case (Inr i)
  have "queue_ok (entry reg' j)" if "j < Suc i" for j
    using that register_Inr [OF assms(1) [unfolded Inr]] assms(2) by (cases "j = i") (auto simp: entry_all)
  then show ?thesis using register_Inr(2) [OF assms(1) [unfolded Inr]] by (simp add: list_all_length entry_def)
qed

lemma remove_queues: "ar_entries (snd (agents_remove c reg)) = ar_entries reg"
  by (simp add: agents_remove_def)

lemma revoke_queues: "list_all queue_ok (ar_entries reg) \<Longrightarrow> list_all queue_ok (ar_entries (snd (revoke_key k reg)))"
proof -
  assume q: "list_all queue_ok (ar_entries reg)"
  let ?reg = "reg\<lparr>ar_revoked := List.insert k (ar_revoked reg)\<rparr>"
  have "list_all queue_ok (ar_entries (at_entry i cancel ?reg))" for i
    by (rule all_at_entry) (use q in \<open>auto simp: list_all_length\<close>)
  then show ?thesis using q by (simp add: revoke_key_def Let_def split: option.splits)
qed

lemma list_all_set: "list_all P xs \<Longrightarrow> P x \<Longrightarrow> list_all P (xs[i := x])"
  by (auto simp: list_all_iff dest!: set_update_subset_insert [THEN subsetD])

lemma talk_ok_entry:
  assumes "talk_ok decode sv" and "i < length (sv_channels sv)" and "live_ok sv"
  shows "queue_ok (entry (sv_agents sv) i) \<and> heard_ok decode (sv_channels sv ! i)"
proof -
  have "i < length (ar_entries (sv_agents sv))" using assms(2,3) by (simp add: live_ok_def phases_ok_def phases_def)
  then show ?thesis using assms(1,2) by (simp add: talk_ok_def entry_all list_all_length)
qed

lemma turn_talk:
  assumes "reads_back (se_render env) decode" and "talk_ok decode sv" and "live_ok sv"
  shows "talk_ok decode (server_turn env i now ok t sv)"
proof (cases "i < length (sv_channels sv) \<and> ch_phase (sv_channels sv ! i) = Serving")
  case True
  obtain e ch m where c: "conn_turn (se_render env) (ad_parse (se_admission env)) now ok t
      (entry (sv_agents sv) i, sv_channels sv ! i, sv_jobs sv) = (e, ch, m)" by (metis prod_cases3)
  have "queue_ok e \<and> heard_ok decode ch"
    using conn_turn_talk [OF assms(1) c] talk_ok_entry [OF assms(2) _ assms(3)] True by blast
  then show ?thesis using assms(2) True c by (simp add: server_turn_def talk_ok_def all_at_entry list_all_set)
qed (use assms in \<open>auto simp: server_turn_def\<close>)

lemma leave_talk: "talk_ok decode sv \<Longrightarrow> live_ok sv \<Longrightarrow> talk_ok decode (server_leave i sv)"
proof -
  assume t: "talk_ok decode sv" "live_ok sv"
  have "talk_ok decode (server_leave i sv)" if i: "i < length (sv_channels sv)"
    using t i talk_ok_entry [OF t(1) i t(2)]
    by (cases "ch_phase (sv_channels sv ! i)")
      (auto simp: server_leave_def talk_ok_def Let_def remove_queues entry_def intro!: all_at_entry list_all_set)
  then show ?thesis using t by (cases "i < length (sv_channels sv)") (auto simp: server_leave_def)
qed

lemma enter_talk:
  assumes "talk_ok decode sv" and "decode (se_hello env) = Some (Hello version capabilities)" and "CAPABILITY_PCAP \<in> set capabilities"
  shows "talk_ok decode (server_enter env n ok now sv)"
proof -
  have "heard_ok decode (channel_new (Ws_Text (se_hello env)))"
    using assms(2,3) by (simp add: heard_ok_def channel_new_def list_ex_iff)
  then show ?thesis
    using assms(1) register_queues
    by (fastforce simp: server_enter_def talk_ok_def Let_def split: prod.splits sum.splits)
qed

lemma send_talk:
  "talk_ok decode sv \<Longrightarrow> live_ok sv \<Longrightarrow> i < length (sv_channels sv) \<Longrightarrow> \<not> is_hello m \<Longrightarrow> talk_ok decode (server_send i job token m sv)"
  using talk_ok_entry [of decode sv i]
  by (auto simp: server_send_def talk_ok_def try_send_current_def Let_def intro!: all_at_entry
      dest: queue_ok_send split: option.splits sum.splits prod.splits if_splits)

lemma end_talk:
  "talk_ok decode sv \<Longrightarrow> live_ok sv \<Longrightarrow> i < length (sv_channels sv) \<Longrightarrow> talk_ok decode (server_end i job token c sv)"
  using talk_ok_entry [of decode sv i]
  by (auto simp: server_end_def talk_ok_def intro!: all_at_entry dest: queue_ok_send split: sum.splits)

lemma server_step_talk:
  assumes "reads_back (se_render env) decode" and "decode (se_hello env) = Some (Hello version capabilities)"
    and "CAPABILITY_PCAP \<in> set capabilities" and "no_hello op" and "talk_ok decode sv" and "live_ok sv"
  shows "talk_ok decode (server_step env sv op)"
proof (cases op)
  case (Enter n ok now)
  then show ?thesis using enter_talk [OF assms(5,2,3)] by simp
next
  case (Turn i now ok t)
  then show ?thesis using turn_talk [OF assms(1,5,6)] by simp
next
  case (Leave i)
  then show ?thesis using leave_talk [OF assms(5,6)] by simp
next
  case (Delete_Key k)
  then show ?thesis using revoke_queues assms(5) by (simp add: talk_ok_def)
next
  case (Probe i)
  then show ?thesis
    using assms(5) talk_ok_entry [OF assms(5) _ assms(6)] by (auto simp: talk_ok_def entry_def intro!: all_at_entry)
next
  case (Send_Request i job token m)
  then show ?thesis using send_talk [OF assms(5,6)] assms(4,5) by simp
next
  case (End_Request i job token c)
  then show ?thesis using end_talk [OF assms(5,6)] assms(5) by simp
qed (use assms(5) in \<open>auto simp: talk_ok_def split: sum.splits\<close>)

lemma run_talk:
  assumes "reads_back (se_render env) decode" and "decode (se_hello env) = Some (Hello version capabilities)"
    and "CAPABILITY_PCAP \<in> set capabilities"
  shows "list_all no_hello ops \<Longrightarrow> talk_ok decode sv \<Longrightarrow> live_ok sv \<Longrightarrow> talk_ok decode (run_steps (server_step env) sv ops)"
proof (induction ops arbitrary: sv)
  case (Cons op ops)
  then have "talk_ok decode (server_step env sv op)" "live_ok (server_step env sv op)"
    using server_step_talk [OF assms] live.step_inv by simp_all
  then show ?case using Cons by simp
qed simp

text \<open>C19. The agent accepts what the server says: over every history of the server, the frames it sent
  over a connection, read by the agent in their order, bring it past the hello into the state in
  which it serves captures, and none makes it break off; provided that texts are read as what they
  were written from and that the dispatcher sends no hello.\<close>

theorem agent_accepts_server:
  assumes "reads_back (se_render env) decode" and "decode (se_hello env) = Some (Hello version capabilities)"
    and "CAPABILITY_PCAP \<in> set capabilities" and "list_all no_hello ops"
  shows "list_all (\<lambda>ch. hears decode (ch_sent ch) AwaitingHello = Some (Ready True))
    (sv_channels (run_steps (server_step env) server_new ops))"
proof -
  have "talk_ok decode server_new" by (simp add: talk_ok_def server_new_def agents_new_def)
  from run_talk [OF assms this server_new_live] show ?thesis by (simp add: talk_ok_def heard_ok_def [abs_def])
qed

definition example_decode :: "string \<Rightarrow> server_message option" where
  "example_decode s = (if s = ''hi'' then Some (Hello ''1'' [CAPABILITY_PCAP]) else if s = ''m'' then Some Unknown_Server else None)"

theorem agent_accepts_server_witness:
  "list_all (\<lambda>ch. hears example_decode (ch_sent ch) AwaitingHello = Some (Ready True))
     (sv_channels (example_then [Turn 0 5 True On_Outbound]))"
  unfolding example_then_def
  by (rule agent_accepts_server [where version = "''1''" and capabilities = "[CAPABILITY_PCAP]"])
    (simp_all add: reads_back_def example_env_def example_decode_def example_ops_def example_upgrade_def)

section \<open>From the capture to the browser\<close>

lemma run_job_complete:
  assumes "run_job start_us end_us permit first now turns fetched cancelled = Some res" and "res_code res = Code_Complete"
  shows "\<exists>fs. fetched = Inr (Inr fs) \<and> res_stats res = Some (wire_of_stats fs)"
proof -
  have "\<not> gave_up res" using assms(2) by (simp add: gave_up_def)
  then obtain u where res: "res = terminal_from_fetch fetched cancelled u None" and "\<not> cancelled"
    using run_job_ends [OF assms(1)] terminal_gave_up(1) [of cancelled None] by metis
  then show ?thesis
    using assms(2) by (auto simp: terminal_from_fetch_def split: sum.splits fetch_error.splits)
qed


definition example_result :: pcap_result where
  "example_result = \<lparr>res_code = Code_Complete, res_upload = Upload_Complete, res_message = None,
     res_stats = Some (wire_of_stats example_stats)\<rparr>"

definition example_server_events :: "remote_event list" where
  "example_server_events = [Ev_Upload (Some Streaming), Ev_Data (Some [3]) Forwarded, Ev_Upload (Some (Uploaded 3)),
     Ev_Data None Forwarded, Pcap_Stream.Ev_Result (Some example_result)]"


end
