(* ===== verification/Socket_Input.thy ===== *)
theory Socket_Input
  imports Prelude
begin

text \<open>
  The configured socket inputs and their files (\<open>src/src/eve/socket.rs\<close>, outside the tasks): the
  values of \<open>input.sockets\<close>, their modes and the equality of paths, and the life of a socket file,
  prepared, bound, captured, given its mode and dropped. The file system is a map from paths to
  what they name; the errors of its calls are the record \<open>bind_env\<close>.
\<close>

section \<open>The configured inputs\<close>

datatype socket_type = Unix_Stream | Unix_Dgram

record socket_input =
  si_path :: string
  si_type :: socket_type
  si_mode :: "u32 option"

datatype socket_mode_value = Mode_Number u32 | Mode_Octal string

record detailed_socket_input =
  ds_path :: string
  ds_type :: socket_type
  ds_mode :: "socket_mode_value option"

datatype socket_input_value = Input_Path string | Input_Detailed detailed_socket_input

text \<open>\<open>from_str_radix\<close> with radix 8: an optional plus sign, at least one digit, no overflow.\<close>

definition is_octal :: "char \<Rightarrow> bool" where
  "is_octal c \<longleftrightarrow> CHR ''0'' \<le> c \<and> c \<le> CHR ''7''"

definition octal_val :: "string \<Rightarrow> nat" where
  "octal_val s = foldl (\<lambda>n c. 8 * n + digit_val c) 0 s"

definition parse_octal :: "string \<Rightarrow> u32 option" where
  "parse_octal s =
     (let ds = (case s of c # cs \<Rightarrow> if c = CHR ''+'' then cs else s | [] \<Rightarrow> s)
      in if ds \<noteq> [] \<and> list_all is_octal ds \<and> octal_val ds < 2 ^ 32 then Some (of_nat (octal_val ds)) else None)"

definition strip_octal_prefix :: "string \<Rightarrow> string" where
  "strip_octal_prefix s = (if prefix ''0o'' s \<or> prefix ''0O'' s then drop 2 s else s)"

fun mode_number :: "socket_mode_value \<Rightarrow> string + u32" where
  "mode_number (Mode_Number mode) = Inr mode"
| "mode_number (Mode_Octal s) = ok_or (parse_octal (strip_octal_prefix s)) ''invalid octal socket mode''"

definition parse_mode :: "socket_mode_value \<Rightarrow> string + u32" where
  "parse_mode m =
     try_then (mode_number m)
       (\<lambda>mode. if mode > 0xFFF then Inl ''socket mode is outside the supported permission range'' else Inr mode)"

text \<open>Paths are equal when their components are: repeated and trailing separators do not count,
  nor does \<open>.\<close>, except as the first component of a relative path.\<close>

definition path_key :: "string \<Rightarrow> bool \<times> string list" where
  "path_key p =
     (let absolute = prefix ''/'' p; parts = filter (\<lambda>c. c \<noteq> []) (split_char (CHR 0x2F) p)
      in (absolute,
          case parts of
            [] \<Rightarrow> []
          | c # cs \<Rightarrow>
              (if \<not> absolute \<and> c = ''.'' then c # filter (\<lambda>c. c \<noteq> ''.'') cs
               else filter (\<lambda>c. c \<noteq> ''.'') (c # cs))))"

fun input_of_value :: "socket_input_value \<Rightarrow> string + socket_input" where
  "input_of_value (Input_Path path) = Inr \<lparr>si_path = path, si_type = Unix_Stream, si_mode = None\<rparr>"
| "input_of_value (Input_Detailed d) =
     (case ds_mode d of
        None \<Rightarrow> Inr \<lparr>si_path = ds_path d, si_type = ds_type d, si_mode = None\<rparr>
      | Some m \<Rightarrow>
          try_then (parse_mode m)
            (\<lambda>mode. Inr \<lparr>si_path = ds_path d, si_type = ds_type d, si_mode = Some mode\<rparr>))"

fun validate_loop ::
    "socket_input_value list \<Rightarrow> (bool \<times> string list) list \<Rightarrow> socket_input list \<Rightarrow> string + socket_input list" where
  "validate_loop [] paths inputs = Inr inputs"
| "validate_loop (v # vs) paths inputs =
     try_then (input_of_value v)
       (\<lambda>input.
          if si_path input = [] then Inl ''input.sockets contains an empty path''
          else if path_key (si_path input) \<in> set paths then Inl ''input.sockets contains duplicate path''
          else validate_loop vs (path_key (si_path input) # paths) (inputs @ [input]))"

definition validate_inputs :: "socket_input_value list \<Rightarrow> string + socket_input list" where
  "validate_inputs vs = validate_loop vs [] []"

text \<open>The configuration: unreadable, absent, or the list.\<close>

definition get_inputs :: "string + socket_input_value list option \<Rightarrow> string + socket_input list" where
  "get_inputs config =
     try_then config (\<lambda>values. validate_inputs (case values of None \<Rightarrow> [] | Some vs \<Rightarrow> vs))"

section \<open>The socket file\<close>

text \<open>What a path names, as \<open>symlink_metadata\<close> sees it.\<close>

record sock_entry =
  se_socket :: bool
  se_device :: nat
  se_inode :: nat
  se_mode :: u32

type_synonym sock_fs = "string \<Rightarrow> sock_entry option"

text \<open>The errors of the calls, none when the call succeeds, and the device, inode and mode the new
  socket gets.\<close>

record bind_env =
  bi_mkdir :: "string option"
  bi_inspect :: "string option"
  bi_remove :: "string option"
  bi_bind :: "string option"
  bi_device :: nat
  bi_inode :: nat
  bi_mode :: u32
  bi_capture :: "string option"
  bi_cleanup :: "string option"
  bi_chmod :: "string option"
  bi_drop_inspect :: "string option"
  bi_drop_remove :: "string option"

definition remove_file :: "string option \<Rightarrow> string \<Rightarrow> sock_fs \<Rightarrow> (string + unit) \<times> sock_fs" where
  "remove_file err path fs = (case err of Some e \<Rightarrow> (Inl e, fs) | None \<Rightarrow> (Inr (), fs(path := None)))"

text \<open>\<open>Path::parent\<close>, none for a path without a last component to remove.\<close>

definition has_parent :: "string \<Rightarrow> bool" where
  "has_parent p = (case path_key p of (absolute, parts) \<Rightarrow> parts \<noteq> [] \<and> (absolute \<or> length parts > 1))"

definition prepare_path :: "bind_env \<Rightarrow> string \<Rightarrow> sock_fs \<Rightarrow> (string + unit) \<times> sock_fs" where
  "prepare_path env path fs =
     (case (if has_parent path then bi_mkdir env else None) of
        Some e \<Rightarrow> (Inl e, fs)
      | None \<Rightarrow>
          (case bi_inspect env of
             Some e \<Rightarrow> (Inl e, fs)
           | None \<Rightarrow>
               (case fs path of
                  None \<Rightarrow> (Inr (), fs)
                | Some entry \<Rightarrow>
                    (if se_socket entry then remove_file (bi_remove env) path fs
                     else (Inl ''refusing to replace non-socket path configured in input.sockets'', fs)))))"

record socket_path =
  sp_path :: string
  sp_device :: nat
  sp_inode :: nat

definition path_capture :: "bind_env \<Rightarrow> string \<Rightarrow> sock_fs \<Rightarrow> string + socket_path" where
  "path_capture env path fs =
     (case bi_capture env of
        Some e \<Rightarrow> Inl e
      | None \<Rightarrow>
          (case fs path of
             None \<Rightarrow> Inl ''failed to inspect socket''
           | Some entry \<Rightarrow>
               (if \<not> se_socket entry then Inl ''bound path is not a socket''
                else Inr \<lparr>sp_path = path, sp_device = se_device entry, sp_inode = se_inode entry\<rparr>)))"

definition path_drop :: "bind_env \<Rightarrow> socket_path \<Rightarrow> sock_fs \<Rightarrow> sock_fs" where
  "path_drop env sp fs =
     (case bi_drop_inspect env of
        Some e \<Rightarrow> fs
      | None \<Rightarrow>
          (case fs (sp_path sp) of
             None \<Rightarrow> fs
           | Some entry \<Rightarrow>
               (if se_socket entry \<and> se_device entry = sp_device sp \<and> se_inode entry = sp_inode sp
                then snd (remove_file (bi_drop_remove env) (sp_path sp) fs) else fs)))"

text \<open>The bind call: it refuses a path that exists, and creates the socket.\<close>

definition socket_bind_call :: "bind_env \<Rightarrow> string \<Rightarrow> sock_fs \<Rightarrow> (string + unit) \<times> sock_fs" where
  "socket_bind_call env path fs =
     (case bi_bind env of
        Some e \<Rightarrow> (Inl e, fs)
      | None \<Rightarrow>
          (if fs path \<noteq> None then (Inl ''Address already in use'', fs)
           else (Inr (), fs(path \<mapsto> \<lparr>se_socket = True, se_device = bi_device env, se_inode = bi_inode env,
             se_mode = bi_mode env\<rparr>))))"

definition set_mode :: "bind_env \<Rightarrow> string \<Rightarrow> u32 option \<Rightarrow> sock_fs \<Rightarrow> (string + unit) \<times> sock_fs" where
  "set_mode env path mode fs =
     (case mode of
        None \<Rightarrow> (Inr (), fs)
      | Some m \<Rightarrow>
          (case bi_chmod env of
             Some e \<Rightarrow> (Inl e, fs)
           | None \<Rightarrow>
               (case fs path of
                  None \<Rightarrow> (Inl ''No such file or directory'', fs)
                | Some entry \<Rightarrow> (Inr (), fs(path \<mapsto> entry\<lparr>se_mode := m\<rparr>)))))"

text \<open>The bind of both kinds of socket. A failure after the path is captured drops it.\<close>

definition socket_bind :: "bind_env \<Rightarrow> string \<Rightarrow> u32 option \<Rightarrow> sock_fs \<Rightarrow> (string + socket_path) \<times> sock_fs" where
  "socket_bind env path mode fs =
     (case prepare_path env path fs of
        (Inl e, fs) \<Rightarrow> (Inl e, fs)
      | (Inr _, fs) \<Rightarrow>
          (case socket_bind_call env path fs of
             (Inl e, fs) \<Rightarrow> (Inl e, fs)
           | (Inr _, fs) \<Rightarrow>
               (case path_capture env path fs of
                  Inl e \<Rightarrow> (Inl e, snd (remove_file (bi_cleanup env) path fs))
                | Inr sp \<Rightarrow>
                    (case set_mode env (sp_path sp) mode fs of
                       (Inl e, fs) \<Rightarrow> (Inl e, path_drop env sp fs)
                     | (Inr _, fs) \<Rightarrow> (Inr sp, fs)))))"

section \<open>Lemmas: inputs\<close>

definition input_ok :: "socket_input \<Rightarrow> bool" where
  "input_ok i \<longleftrightarrow> si_path i \<noteq> [] \<and> (case si_mode i of None \<Rightarrow> True | Some m \<Rightarrow> m \<le> 0xFFF)"

lemma parse_mode_le: "parse_mode m = Inr mode \<Longrightarrow> mode \<le> 0xFFF"
  by (auto simp: parse_mode_def not_less split: if_splits)

text \<open>What is accepted: every value by itself makes an input with a path, and no two paths are
  equal.\<close>

definition setting_ok :: "socket_input_value \<Rightarrow> socket_input \<Rightarrow> bool" where
  "setting_ok v i \<longleftrightarrow> input_of_value v = Inr i \<and> si_path i \<noteq> []"

lemma validate_loop_ok:
  "validate_loop vs paths inputs = Inr out \<longleftrightarrow>
     (\<exists>is. out = inputs @ is \<and> list_all2 setting_ok vs is
        \<and> distinct (map (path_key \<circ> si_path) is) \<and> set (map (path_key \<circ> si_path) is) \<inter> set paths = {})"
proof (induction vs arbitrary: paths inputs)
  case Nil
  then show ?case by auto
next
  case (Cons v vs)
  show ?case
  proof (cases "input_of_value v")
    case (Inl e)
    then show ?thesis by (auto simp: setting_ok_def list_all2_Cons1)
  next
    case (Inr i)
    show ?thesis
    proof (cases "si_path i = [] \<or> path_key (si_path i) \<in> set paths")
      case True
      then show ?thesis using Inr by (auto simp: setting_ok_def list_all2_Cons1)
    next
      case False
      have v: "list_all2 setting_ok (v # vs) is \<longleftrightarrow> (\<exists>is'. is = i # is' \<and> list_all2 setting_ok vs is')" for "is"
        using Inr False by (auto simp: setting_ok_def list_all2_Cons1)
      show ?thesis
        unfolding v using False Inr by (auto simp: Cons.IH)
    qed
  qed
qed

lemma value_ok_input: "setting_ok v i \<Longrightarrow> input_ok i"
  by (cases v) (auto simp: setting_ok_def input_ok_def dest: parse_mode_le split: option.splits)

section \<open>Lemmas: the socket file\<close>

text \<open>What a bind and a drop may do to the files: nothing but to the configured path, and there
  nothing to what is no socket.\<close>

definition only_path :: "string \<Rightarrow> sock_fs \<Rightarrow> sock_fs \<Rightarrow> bool" where
  "only_path path fs fs' \<longleftrightarrow> (\<forall>q. q \<noteq> path \<longrightarrow> fs' q = fs q)"

definition foreign :: "sock_entry option \<Rightarrow> bool" where
  "foreign e = (case e of None \<Rightarrow> False | Some entry \<Rightarrow> \<not> se_socket entry)"

definition owned :: "socket_path \<Rightarrow> sock_entry option \<Rightarrow> bool" where
  "owned sp e =
     (case e of None \<Rightarrow> False
      | Some entry \<Rightarrow> se_socket entry \<and> se_device entry = sp_device sp \<and> se_inode entry = sp_inode sp)"

lemma remove_file_cases:
  "remove_file err path fs = (r, fs') \<Longrightarrow>
     (isl r \<and> fs' = fs) \<or> (r = Inr () \<and> fs' = fs(path := None))"
  by (auto simp: remove_file_def split: option.splits)

lemma prepare_path_cases:
  assumes "prepare_path env path fs = (r, fs')"
  shows "only_path path fs fs' \<and> (foreign (fs path) \<longrightarrow> isl r \<and> fs' = fs)
    \<and> (isl r \<longrightarrow> fs' = fs) \<and> (\<not> isl r \<longrightarrow> fs' path = None)"
  using assms
  by (auto simp: prepare_path_def only_path_def foreign_def remove_file_def split: option.splits if_splits)

lemma bind_call_cases:
  assumes "socket_bind_call env path fs = (r, fs')"
  shows "only_path path fs fs' \<and> (isl r \<longrightarrow> fs' = fs)
    \<and> (\<not> isl r \<longrightarrow> (\<exists>entry. fs' path = Some entry \<and> se_socket entry
          \<and> se_device entry = bi_device env \<and> se_inode entry = bi_inode env))"
  using assms by (auto simp: socket_bind_call_def only_path_def split: option.splits if_splits)

lemma path_drop_cases:
  "path_drop env sp fs = fs \<or> (owned sp (fs (sp_path sp)) \<and> path_drop env sp fs = fs(sp_path sp := None))"
  by (auto simp: path_drop_def owned_def remove_file_def split: option.splits)

definition has_mode :: "u32 option \<Rightarrow> sock_entry option \<Rightarrow> bool" where
  "has_mode mode e = (case (mode, e) of (Some m, Some entry) \<Rightarrow> se_mode entry = m | _ \<Rightarrow> True)"

lemma socket_bind_cases:
  assumes "socket_bind env path mode fs = (r, fs')"
  shows "only_path path fs fs' \<and> (foreign (fs path) \<longrightarrow> isl r \<and> fs' = fs)
    \<and> (case r of
         Inl e \<Rightarrow> True
       | Inr sp \<Rightarrow> sp_path sp = path \<and> owned sp (fs' path) \<and> has_mode mode (fs' path))"
proof -
  obtain r1 fs1 where p: "prepare_path env path fs = (r1, fs1)" by fastforce
  obtain r2 fs2 where b: "socket_bind_call env path fs1 = (r2, fs2)" by fastforce
  note pc = prepare_path_cases [OF p] and bc = bind_call_cases [OF b]
  show ?thesis
  proof (cases "isl r1 \<or> isl r2")
    case True
    then show ?thesis
      using assms p b pc bc by (cases r1; cases r2) (auto simp: socket_bind_def only_path_def foreign_def)
  next
    case False
    then obtain entry where e: "fs2 path = Some entry" "se_socket entry" using bc by blast
    have only: "only_path path fs fs2" and nf: "\<not> foreign (fs path)"
      using pc bc False by (auto simp: only_path_def)
    from False assms p b have t: "(r, fs') =
        (case path_capture env path fs2 of
           Inl e \<Rightarrow> (Inl e, snd (remove_file (bi_cleanup env) path fs2))
         | Inr sp \<Rightarrow>
             (case set_mode env (sp_path sp) mode fs2 of
                (Inl e, fs) \<Rightarrow> (Inl e, path_drop env sp fs)
              | (Inr _, fs) \<Rightarrow> (Inr sp, fs)))"
      by (cases r1; cases r2) (simp_all add: socket_bind_def)
    have "only_path path fs2 fs' \<and> (case r of Inl e \<Rightarrow> True
       | Inr sp \<Rightarrow> sp_path sp = path \<and> owned sp (fs' path) \<and> has_mode mode (fs' path))"
      using t e
      by (auto simp: path_capture_def set_mode_def remove_file_def only_path_def path_drop_def owned_def
          has_mode_def split: option.splits if_splits)
    then show ?thesis using only nf by (auto simp: only_path_def)
  qed
qed

section \<open>Properties\<close>

text \<open>C8. The file at a configured path is removed only when it is a socket. A bind
  fails and changes nothing when the path names anything but a socket; it never changes another
  path; when it succeeds, the path names the new socket, with the configured mode. Whatever
  happens to the files meanwhile, dropping the input removes the path only if it still names the
  same socket, by device and inode.\<close>

theorem socket_file_owned:
  assumes "socket_bind env path mode fs = (r, fs1)"
  shows "only_path path fs fs1
    \<and> (foreign (fs path) \<longrightarrow> isl r \<and> fs1 = fs)
    \<and> (case r of
         Inl e \<Rightarrow> True
       | Inr sp \<Rightarrow> owned sp (fs1 path) \<and> has_mode mode (fs1 path)
           \<and> (path_drop env2 sp fs2 = fs2 \<or> owned sp (fs2 path) \<and> path_drop env2 sp fs2 = fs2(path := None)))"
  using socket_bind_cases [OF assms] path_drop_cases [of env2 "projr r" fs2] by (auto split: sum.splits)

text \<open>The configuration is accepted exactly when every entry has a path and an acceptable mode
  and no two paths are equal by their components; the inputs are then the entries, in order, and
  every mode is a set of permission bits.\<close>

theorem socket_inputs_exact:
  "get_inputs (Inr (Some vs)) = Inr inputs \<longleftrightarrow>
      list_all2 setting_ok vs inputs \<and> distinct (map (path_key \<circ> si_path) inputs) \<and> list_all input_ok inputs"
proof -
  have "list_all2 setting_ok vs inputs \<Longrightarrow> list_all input_ok inputs"
    by (auto simp: list_all2_conv_all_nth list_all_length intro: value_ok_input)
  then show ?thesis by (auto simp: get_inputs_def validate_inputs_def validate_loop_ok)
qed

section \<open>Examples\<close>

definition socket_demo_bind :: bind_env where
  "socket_demo_bind = \<lparr>bi_mkdir = None, bi_inspect = None, bi_remove = None, bi_bind = None, bi_device = 1,
     bi_inode = 7, bi_mode = 0x1ED, bi_capture = None, bi_cleanup = None, bi_chmod = None,
     bi_drop_inspect = None, bi_drop_remove = None\<rparr>"

definition socket_demo_files :: sock_fs where
  "socket_demo_files =
     [''eve.sock'' \<mapsto> \<lparr>se_socket = True, se_device = 1, se_inode = 3, se_mode = 0x1ED\<rparr>,
      ''notes'' \<mapsto> \<lparr>se_socket = False, se_device = 1, se_inode = 4, se_mode = 0x1A4\<rparr>]"

theorem socket_file_owned_witness:
  "only_path ''eve.sock'' socket_demo_files (snd (socket_bind socket_demo_bind ''eve.sock'' (Some 0x190) socket_demo_files))
   \<and> socket_bind socket_demo_bind ''notes'' None socket_demo_files
      = (Inl ''refusing to replace non-socket path configured in input.sockets'', socket_demo_files)"
proof -
  obtain r fs1 where b: "socket_bind socket_demo_bind ''eve.sock'' (Some 0x190) socket_demo_files = (r, fs1)" by fastforce
  from socket_file_owned [OF b, of socket_demo_bind socket_demo_files] b show ?thesis
    by (simp add: socket_bind_def prepare_path_def has_parent_def path_key_def socket_demo_bind_def socket_demo_files_def)
qed

end
