(* ===== verification/Eve_Socket.thy ===== *)
theory Eve_Socket
  imports Event_Sink Socket_Input
begin

text \<open>
  Events read from Unix sockets (\<open>src/src/eve/socket.rs\<close>): the framing of a stream into records, the
  bounded queue between the task that reads and the task that submits, and the submitting task. The
  two tasks run joined in one, so each runs alone between two of its waits; they meet in the queue,
  the byte permits and the counters only, and the step function \<open>socket_step\<close> interleaves them at
  those points. A commit that fails is one step, after which the readers go on filling the queue;
  the retry is another. Parameters: the parsing of JSON and the environment of the sink. Sleeping
  and logging are left out. The history variables record what was offered to the queue, what
  entered and left it, and what the sink's backend accepted.
\<close>

section \<open>The queue between the tasks\<close>

definition MAX_RECORD_SIZE :: nat where "MAX_RECORD_SIZE = 8 * 1024 * 1024"
definition INPUT_QUEUE_RECORD_CAPACITY :: nat where "INPUT_QUEUE_RECORD_CAPACITY = 4096"
definition INPUT_QUEUE_BYTE_CAPACITY :: nat where "INPUT_QUEUE_BYTE_CAPACITY = 16 * 1024 * 1024"
definition BATCH_SIZE :: nat where "BATCH_SIZE = 100"

record queued_record =
  qr_record :: u64
  qr_bytes :: string
  qr_permit :: nat

text \<open>The channel with its receiver gone or not, the free byte permits, the counters; then the
  history: the records offered, those accepted and how many were refused.\<close>

record ingress =
  ig_queue :: "queued_record list"
  ig_closed :: bool
  ig_permits :: nat
  ig_errors :: u64
  ig_drops :: u64
  ig_offered :: "string list"
  ig_accepted :: "string list"
  ig_refused :: nat

definition ingress_new :: ingress where
  "ingress_new = \<lparr>ig_queue = [], ig_closed = False, ig_permits = INPUT_QUEUE_BYTE_CAPACITY, ig_errors = 0,
     ig_drops = 0, ig_offered = [], ig_accepted = [], ig_refused = 0\<rparr>"

definition note_error :: "ingress \<Rightarrow> ingress" where
  "note_error ig = ig\<lparr>ig_errors := ig_errors ig + 1\<rparr>"

definition note_queue_drop :: "ingress \<Rightarrow> ingress" where
  "note_queue_drop ig = ig\<lparr>ig_drops := ig_drops ig + 1, ig_refused := ig_refused ig + 1\<rparr>"

definition is_ascii_whitespace :: "char \<Rightarrow> bool" where
  "is_ascii_whitespace c \<longleftrightarrow> c \<in> {CHR 0x20, CHR 0x09, CHR 0x0A, CHR 0x0C, CHR 0x0D}"

definition blank_record :: "string \<Rightarrow> bool" where "blank_record bytes = list_all is_ascii_whitespace bytes"

definition enqueue :: "u64 \<Rightarrow> string \<Rightarrow> ingress \<Rightarrow> bool \<times> ingress" where
  "enqueue n bytes ig0 =
     (let ig = ig0\<lparr>ig_offered := ig_offered ig0 @ [bytes]\<rparr>
      in if blank_record bytes then (True, ig)
         else
           (let permit = length bytes mod 2 ^ 32
            in if permit > ig_permits ig then (True, note_queue_drop ig)
               else if ig_closed ig then (False, ig)
               else if length (ig_queue ig) \<ge> INPUT_QUEUE_RECORD_CAPACITY then (True, note_queue_drop ig)
               else (True, ig\<lparr>ig_permits := ig_permits ig - permit,
                 ig_queue := ig_queue ig @ [\<lparr>qr_record = n, qr_bytes = bytes, qr_permit = permit\<rparr>],
                 ig_accepted := ig_accepted ig @ [bytes]\<rparr>)))"

section \<open>Reading a stream\<close>

text \<open>One connection: the buffer, the number of the last record, and how many bytes the pending
  \<open>read_until\<close> has taken. A tick of the interval gives that call up and starts another, which
  goes on in the same buffer.\<close>

record reader =
  rd_buffer :: string
  rd_record :: u64
  rd_call :: nat

definition connection_reader_new :: reader where
  "connection_reader_new = \<lparr>rd_buffer = [], rd_record = 0, rd_call = 0\<rparr>"

text \<open>To go on, to leave the connection, to leave the input.\<close>

datatype flow = Go | Hang_Up | Finish

text \<open>The arm of \<open>Ok(_)\<close>.\<close>

definition take_record :: "reader \<Rightarrow> ingress \<Rightarrow> flow \<times> reader \<times> ingress" where
  "take_record r ig =
     (if length (rd_buffer r) > MAX_RECORD_SIZE then (Hang_Up, r, note_error ig)
      else
        (case enqueue (rd_record r + 1) (rd_buffer r) ig of
           (False, ig) \<Rightarrow> (Finish, r\<lparr>rd_record := rd_record r + 1\<rparr>, ig)
         | (True, ig) \<Rightarrow> (Go, r\<lparr>rd_record := rd_record r + 1, rd_buffer := [], rd_call := 0\<rparr>, ig)))"

text \<open>The arm of \<open>Ok(0)\<close>.\<close>

definition end_of_stream :: "reader \<Rightarrow> ingress \<Rightarrow> flow \<times> reader \<times> ingress" where
  "end_of_stream r ig =
     (if rd_buffer r = [] then (Hang_Up, r, ig)
      else if length (rd_buffer r) > MAX_RECORD_SIZE then (Hang_Up, r, note_error ig)
      else
        (case enqueue (rd_record r + 1) (rd_buffer r) ig of
           (ok, ig) \<Rightarrow> (if ok then Hang_Up else Finish, r\<lparr>rd_record := rd_record r + 1\<rparr>, ig)))"

fun take_bytes :: "string \<Rightarrow> reader \<Rightarrow> ingress \<Rightarrow> flow \<times> reader \<times> ingress" where
  "take_bytes [] r ig = (Go, r, ig)"
| "take_bytes (b # bs) r ig =
     (let r = r\<lparr>rd_buffer := rd_buffer r @ [b], rd_call := rd_call r + 1\<rparr>
      in if b = CHR 0x0A then
           (case take_record r ig of
              (Go, r, ig) \<Rightarrow> take_bytes bs r ig
            | (Hang_Up, r, ig) \<Rightarrow> (Hang_Up, r, ig)
            | (Finish, r, ig) \<Rightarrow> (Finish, r, ig))
         else take_bytes bs r ig)"

text \<open>Bytes arrive, the interval ticks, the peer ends the stream, the read fails. At the end of the
  stream a call that has taken bytes returns them, and the next one returns none.\<close>

datatype stream_event = Data string | Idle | Eof | Read_Failed

fun stream_step :: "stream_event \<Rightarrow> reader \<Rightarrow> ingress \<Rightarrow> flow \<times> reader \<times> ingress" where
  "stream_step (Data bs) r ig = take_bytes bs r ig"
| "stream_step Idle r ig =
     (if length (rd_buffer r) > MAX_RECORD_SIZE then (Hang_Up, r, note_error ig)
      else (Go, r\<lparr>rd_call := 0\<rparr>, ig))"
| "stream_step Eof r ig =
     (if rd_call r > 0 then
        (case take_record r ig of
           (Go, r, ig) \<Rightarrow> end_of_stream r ig
         | (Hang_Up, r, ig) \<Rightarrow> (Hang_Up, r, ig)
         | (Finish, r, ig) \<Rightarrow> (Finish, r, ig))
      else end_of_stream r ig)"
| "stream_step Read_Failed r ig = (Hang_Up, r, note_error ig)"

text \<open>\<open>read_stream\<close>: the events of a connection until it is left.\<close>

fun read_stream :: "stream_event list \<Rightarrow> reader \<Rightarrow> ingress \<Rightarrow> flow \<times> reader \<times> ingress" where
  "read_stream [] r ig = (Go, r, ig)"
| "read_stream (e # es) r ig =
     (case stream_step e r ig of
        (Go, r, ig) \<Rightarrow> read_stream es r ig
      | (Hang_Up, r, ig) \<Rightarrow> (Hang_Up, r, ig)
      | (Finish, r, ig) \<Rightarrow> (Finish, r, ig))"

section \<open>Receiving datagrams\<close>

datatype datagram_event = Packet string | Recv_Failed

text \<open>The buffer holds one byte more than a record may have; the rest of a datagram is cut off.\<close>

fun datagram_step :: "datagram_event \<Rightarrow> u64 \<Rightarrow> ingress \<Rightarrow> bool \<times> u64 \<times> ingress" where
  "datagram_step (Packet bs) n ig =
     (let received = take (MAX_RECORD_SIZE + 1) bs; sz = length received
      in if sz = 0 then (True, n, ig)
         else if sz > MAX_RECORD_SIZE then (True, n, note_error ig)
         else (case enqueue (n + 1) received ig of (ok, ig) \<Rightarrow> (ok, n + 1, ig)))"
| "datagram_step Recv_Failed n ig = (True, n, note_error ig)"

section \<open>The submitting task\<close>

text \<open>The task, then its history: the records taken with the time their filters saw, the events
  the sink took, the entries its backend accepted.\<close>

record submitter =
  sk_sink :: event_sink
  sk_filters :: "eve_filter list"
  sk_events :: u64
  sk_commits :: u64
  sk_errors :: u64
  sk_last_errors :: u64
  sk_last_drops :: u64
  sk_taken :: "(string \<times> string) list"
  sk_submitted :: "json list"
  sk_stored :: "sink_entry list"

definition submitter_new :: "event_sink \<Rightarrow> eve_filter list \<Rightarrow> submitter" where
  "submitter_new sink fs = \<lparr>sk_sink = sink, sk_filters = fs, sk_events = 0, sk_commits = 0, sk_errors = 0,
     sk_last_errors = 0, sk_last_drops = 0, sk_taken = [], sk_submitted = [], sk_stored = []\<rparr>"

text \<open>What a commit was called from, and so what follows it.\<close>

datatype caller = From_Submit | From_Maintenance bool | From_End

datatype sock_phase = Ready | Committing caller | Ended | Panicked

definition submit_event :: "'ts sink_env \<Rightarrow> string \<Rightarrow> json \<Rightarrow> submitter \<Rightarrow> sock_phase \<times> submitter" where
  "submit_event env now event p =
     (case chain_run now (sk_filters p) event of
        None \<Rightarrow> (Panicked, p)
      | Some event \<Rightarrow>
          (let p = p\<lparr>sk_events := sk_events p + 1\<rparr>
           in case sink_submit env event (sk_sink p) of
                None \<Rightarrow> (Panicked, p)
              | Some (Inl e, sink) \<Rightarrow> (Ready, p\<lparr>sk_sink := sink, sk_errors := sk_errors p + 1\<rparr>)
              | Some (Inr commit, sink) \<Rightarrow>
                  (if commit \<or> sink_pending sink \<ge> BATCH_SIZE then Committing From_Submit else Ready,
                   p\<lparr>sk_sink := sink, sk_submitted := sk_submitted p @ [event]\<rparr>)))"

definition process_record ::
    "'ts sink_env \<Rightarrow> (string \<Rightarrow> string + json) \<Rightarrow> string \<Rightarrow> queued_record \<Rightarrow> ingress \<Rightarrow> submitter
      \<Rightarrow> sock_phase \<times> ingress \<times> submitter" where
  "process_record env parse now q ig p0 =
     (let p = p0\<lparr>sk_taken := sk_taken p0 @ [(now, qr_bytes q)]\<rparr>;
          ig = ig\<lparr>ig_permits := ig_permits ig + qr_permit q\<rparr>
      in case parse (qr_bytes q) of
           Inl e \<Rightarrow> (Ready, ig, p\<lparr>sk_errors := sk_errors p + 1\<rparr>)
         | Inr event \<Rightarrow>
             (if as_object event \<noteq> None
              then (case submit_event env now event p of (ph, p) \<Rightarrow> (ph, ig, p))
              else (Ready, ig, p\<lparr>sk_errors := sk_errors p + 1\<rparr>)))"

text \<open>The counters are reported, as the argument says, when the last report is old enough.\<close>

definition report :: "bool \<Rightarrow> ingress \<Rightarrow> submitter \<Rightarrow> submitter" where
  "report due ig p =
     (if due then p\<lparr>sk_events := 0, sk_commits := 0, sk_errors := 0, sk_last_errors := ig_errors ig,
        sk_last_drops := ig_drops ig\<rparr> else p)"

text \<open>The errors and drops a report names.\<close>

definition reported :: "ingress \<Rightarrow> submitter \<Rightarrow> u64 \<times> u64" where
  "reported ig p = (sk_errors p + saturating_sub (ig_errors ig) (sk_last_errors p),
     saturating_sub (ig_drops ig) (sk_last_drops p))"

definition maintenance :: "bool \<Rightarrow> ingress \<Rightarrow> submitter \<Rightarrow> sock_phase \<times> submitter" where
  "maintenance due ig p =
     (if sink_pending (sk_sink p) > 0 then (Committing (From_Maintenance due), p) else (Ready, report due ig p))"

fun after_commit :: "caller \<Rightarrow> ingress \<Rightarrow> submitter \<Rightarrow> sock_phase \<times> submitter" where
  "after_commit From_Submit ig p = (Ready, p)"
| "after_commit (From_Maintenance due) ig p = (Ready, report due ig p)"
| "after_commit From_End ig p = (Ended, p)"

definition commit_try :: "'ts sink_env \<Rightarrow> sink_world \<Rightarrow> caller \<Rightarrow> ingress \<Rightarrow> submitter \<Rightarrow> sock_phase \<times> submitter" where
  "commit_try env w c ig p =
     (case sink_commit env w (sk_sink p) of
        (Inl e, sink) \<Rightarrow> (Committing c, p\<lparr>sk_sink := sink\<rparr>)
      | (Inr n, sink) \<Rightarrow>
          after_commit c ig (p\<lparr>sk_sink := sink, sk_commits := sk_commits p + 1,
            sk_stored := sk_stored p @ sink_queued (sk_sink p)\<rparr>))"

section \<open>The two tasks\<close>

text \<open>The reading task: waiting for a connection, in one, receiving datagrams, or over. When it is
  over the sender is dropped, and the submitting task ends once the queue is empty; when that task
  ends the receiver is dropped. A panic of one ends both.\<close>

datatype reading = Accepting | Connected reader | Receiving u64 | Stopped

record socket_state =
  so_ingress :: ingress
  so_reading :: reading
  so_phase :: sock_phase
  so_submitter :: submitter

datatype socket_event =
    Accepted
  | Accept_Failed
  | Stream stream_event
  | Datagram datagram_event
  | Take string
  | Maintain bool
  | Commit_Try sink_world

definition socket_spawn ::
    "(string \<Rightarrow> string) \<Rightarrow> socket_input \<Rightarrow> event_sink \<Rightarrow> eve_filter list \<Rightarrow> socket_state" where
  "socket_spawn display input sink fs =
     \<lparr>so_ingress = ingress_new,
      so_reading = (case si_type input of Unix_Stream \<Rightarrow> Accepting | Unix_Dgram \<Rightarrow> Receiving 0),
      so_phase = Ready,
      so_submitter = submitter_new sink (chain_add (Add_Agent_Filename (display (si_path input))) fs)\<rparr>"

definition stream_turn :: "stream_event \<Rightarrow> reader \<Rightarrow> socket_state \<Rightarrow> socket_state" where
  "stream_turn e r st =
     (case stream_step e r (so_ingress st) of
        (Go, r, ig) \<Rightarrow> st\<lparr>so_reading := Connected r, so_ingress := ig\<rparr>
      | (Hang_Up, r, ig) \<Rightarrow> st\<lparr>so_reading := Accepting, so_ingress := ig\<rparr>
      | (Finish, r, ig) \<Rightarrow> st\<lparr>so_reading := Stopped, so_ingress := ig\<rparr>)"

definition datagram_turn :: "datagram_event \<Rightarrow> u64 \<Rightarrow> socket_state \<Rightarrow> socket_state" where
  "datagram_turn e n st =
     (case datagram_step e n (so_ingress st) of
        (ok, n, ig) \<Rightarrow> st\<lparr>so_reading := (if ok then Receiving n else Stopped), so_ingress := ig\<rparr>)"

definition enter_phase :: "sock_phase \<Rightarrow> ingress \<Rightarrow> submitter \<Rightarrow> socket_state \<Rightarrow> socket_state" where
  "enter_phase ph ig p st =
     st\<lparr>so_phase := ph, so_submitter := p,
       so_ingress := (if ph = Ended \<or> ph = Panicked then ig\<lparr>ig_closed := True\<rparr> else ig),
       so_reading := (if ph = Panicked then Stopped else so_reading st)\<rparr>"

definition take_turn ::
    "'ts sink_env \<Rightarrow> (string \<Rightarrow> string + json) \<Rightarrow> string \<Rightarrow> socket_state \<Rightarrow> socket_state" where
  "take_turn env parse now st =
     (let ig = so_ingress st; p = so_submitter st
      in case ig_queue ig of
           q # qs \<Rightarrow>
             (case process_record env parse now q (ig\<lparr>ig_queue := qs\<rparr>) p of
                (ph, ig, p) \<Rightarrow> enter_phase ph ig p st)
         | [] \<Rightarrow>
             (if so_reading st \<noteq> Stopped then st
              else if sink_pending (sk_sink p) > 0 then enter_phase (Committing From_End) ig p st
              else enter_phase Ended ig p st))"

fun socket_step ::
    "'ts sink_env \<Rightarrow> (string \<Rightarrow> string + json) \<Rightarrow> socket_state \<Rightarrow> socket_event \<Rightarrow> socket_state" where
  "socket_step env parse st Accepted =
     (case so_reading st of
        Accepting \<Rightarrow> st\<lparr>so_reading := Connected connection_reader_new\<rparr>
      | _ \<Rightarrow> st)"
| "socket_step env parse st Accept_Failed =
     (case so_reading st of
        Accepting \<Rightarrow> st\<lparr>so_ingress := note_error (so_ingress st)\<rparr>
      | _ \<Rightarrow> st)"
| "socket_step env parse st (Stream e) = (case so_reading st of Connected r \<Rightarrow> stream_turn e r st | _ \<Rightarrow> st)"
| "socket_step env parse st (Datagram e) = (case so_reading st of Receiving n \<Rightarrow> datagram_turn e n st | _ \<Rightarrow> st)"
| "socket_step env parse st (Take now) = (if so_phase st = Ready then take_turn env parse now st else st)"
| "socket_step env parse st (Maintain due) =
     (if so_phase st = Ready then
        (case maintenance due (so_ingress st) (so_submitter st) of
           (ph, p) \<Rightarrow> enter_phase ph (so_ingress st) p st)
      else st)"
| "socket_step env parse st (Commit_Try w) =
     (case so_phase st of
        Committing c \<Rightarrow>
          (case commit_try env w c (so_ingress st) (so_submitter st) of
             (ph, p) \<Rightarrow> enter_phase ph (so_ingress st) p st)
      | _ \<Rightarrow> st)"

section \<open>Lemmas: framing\<close>

text \<open>The records of a stream: the pieces between newlines, each with its newline, and what is
  left after the last one unless it is empty.\<close>

definition stream_records :: "string \<Rightarrow> string list" where
  "stream_records s =
     filter (\<lambda>r. r \<noteq> [])
       (map (\<lambda>l. l @ [CHR 0x0A]) (butlast (split_char (CHR 0x0A) s)) @ [last (split_char (CHR 0x0A) s)])"

definition fits :: "string \<Rightarrow> bool" where "fits r \<longleftrightarrow> length r \<le> MAX_RECORD_SIZE"

text \<open>The same scanned from a buffer: the complete records, and what stays in the buffer.\<close>

fun scan_records :: "string \<Rightarrow> string \<Rightarrow> string list \<times> string" where
  "scan_records [] buf = ([], buf)"
| "scan_records (b # bs) buf =
     (if b = CHR 0x0A then (case scan_records bs [] of (rs, rest) \<Rightarrow> ((buf @ [b]) # rs, rest))
      else scan_records bs (buf @ [b]))"

definition scanned :: "string \<Rightarrow> string \<Rightarrow> string list" where
  "scanned bs buf = (case scan_records bs buf of (rs, rest) \<Rightarrow> rs @ (if rest = [] then [] else [rest]))"

lemma split_char_nonempty [simp]: "split_char c s \<noteq> []"
  by (cases s) (auto split: list.splits)

lemma scanned_split:
  "scanned bs buf =
     filter (\<lambda>r. r \<noteq> [])
       (case split_char (CHR 0x0A) bs of w # ws \<Rightarrow>
          map (\<lambda>l. l @ [CHR 0x0A]) (butlast ((buf @ w) # ws)) @ [last ((buf @ w) # ws)] | [] \<Rightarrow> [])"
proof (induction bs arbitrary: buf)
  case Nil
  then show ?case by (simp add: scanned_def)
next
  case (Cons b bs)
  obtain w ws where s: "split_char (CHR 0x0A) bs = w # ws"
    using split_char_nonempty [of "CHR 0x0A" bs] by (cases "split_char (CHR 0x0A) bs") auto
  show ?case
  proof (cases "b = CHR 0x0A")
    case True
    have "scanned (b # bs) buf = (buf @ [b]) # scanned bs []"
      using True by (simp add: scanned_def split: prod.splits)
    also have "\<dots> = (buf @ [b]) # filter (\<lambda>r. r \<noteq> []) (map (\<lambda>l. l @ [CHR 0x0A]) (butlast (w # ws)) @ [last (w # ws)])"
      using Cons.IH [of "[]"] s by simp
    finally show ?thesis using True s by simp
  next
    case False
    then have "scanned (b # bs) buf = scanned bs (buf @ [b])" by (simp add: scanned_def)
    then show ?thesis using Cons.IH [of "buf @ [b]"] False s by simp
  qed
qed

lemma scanned_records: "scanned bs [] = stream_records bs"
  using scanned_split [of bs "[]"] split_char_nonempty [of "CHR 0x0A" bs]
  by (auto simp: stream_records_def split: list.splits)

lemma scan_records_append:
  "scan_records (xs @ ys) buf =
     (case scan_records xs buf of (rs, rest) \<Rightarrow>
        (case scan_records ys rest of (rs2, rest2) \<Rightarrow> (rs @ rs2, rest2)))"
  by (induction xs buf rule: scan_records.induct) (auto split: prod.splits)

lemma scanned_append:
  "scan_records xs buf = (rs, rest) \<Longrightarrow> scanned (xs @ ys) buf = rs @ scanned ys rest"
  by (simp add: scanned_def scan_records_append split: prod.splits)

text \<open>A record that is being read is at least as long as what is buffered of it.\<close>

lemma scanned_longer:
  "buf \<noteq> [] \<Longrightarrow> \<exists>r rs. scanned bs buf = r # rs \<and> length buf \<le> length r"
proof (induction bs arbitrary: buf)
  case Nil
  then show ?case by (simp add: scanned_def)
next
  case (Cons b bs)
  show ?case
  proof (cases "b = CHR 0x0A")
    case True
    then show ?thesis by (auto simp: scanned_def split: prod.splits)
  next
    case False
    then have "scanned (b # bs) buf = scanned bs (buf @ [b])" by (simp add: scanned_def)
    then show ?thesis using Cons.IH [of "buf @ [b]"] by auto
  qed
qed

text \<open>With the receiver there, an offer never ends the reading, whatever becomes of the record.\<close>

lemma enqueue_open:
  assumes "\<not> ig_closed ig"
  shows "\<exists>ig'. enqueue n bytes ig = (True, ig') \<and> ig_offered ig' = ig_offered ig @ [bytes]
    \<and> ig_errors ig' = ig_errors ig \<and> \<not> ig_closed ig'"
  using assms by (auto simp: enqueue_def note_queue_drop_def Let_def)

lemma stream_bytes_scan:
  assumes "\<not> ig_closed ig" and "scan_records bs (rd_buffer r) = (rs, rest)"
    and "take_bytes bs r ig = (fl, r', ig')" and "rd_call r > 0 \<longrightarrow> rd_buffer r \<noteq> []"
  shows "ig_offered ig' = ig_offered ig @ takeWhile fits rs \<and> \<not> ig_closed ig'
    \<and> (if list_all fits rs
       then fl = Go \<and> rd_buffer r' = rest \<and> (rd_call r' > 0 \<longrightarrow> rest \<noteq> []) \<and> ig_errors ig' = ig_errors ig
       else fl = Hang_Up \<and> ig_errors ig' = ig_errors ig + 1)"
  using assms
proof (induction bs arbitrary: r ig rs)
  case Nil
  then show ?case by auto
next
  case (Cons b bs)
  let ?r = "r\<lparr>rd_buffer := rd_buffer r @ [b], rd_call := rd_call r + 1\<rparr>"
  show ?case
  proof (cases "b = CHR 0x0A")
    case False
    with Cons.prems show ?thesis
      by (intro Cons.IH [where r = ?r]) (auto simp: Let_def)
  next
    case True
    obtain rs1 where s: "scan_records bs [] = (rs1, rest)" and rs: "rs = (rd_buffer r @ [b]) # rs1"
      using Cons.prems(2) True by (auto split: prod.splits)
    show ?thesis
    proof (cases "fits (rd_buffer r @ [b])")
      case False
      then show ?thesis
        using Cons.prems True rs by (auto simp: Let_def take_record_def fits_def note_error_def)
    next
      case small: True
      obtain ig1 where e: "enqueue (rd_record r + 1) (rd_buffer r @ [b]) ig = (True, ig1)"
        "ig_offered ig1 = ig_offered ig @ [rd_buffer r @ [b]]" "ig_errors ig1 = ig_errors ig" "\<not> ig_closed ig1"
        using enqueue_open [OF Cons.prems(1)] by blast
      let ?r1 = "r\<lparr>rd_record := rd_record r + 1, rd_buffer := [], rd_call := 0\<rparr>"
      have "take_bytes bs ?r1 ig1 = (fl, r', ig')"
        using Cons.prems(3) True small e(1) by (simp add: Let_def take_record_def fits_def)
      from Cons.IH [OF e(4) _ this] s show ?thesis
        using e rs small by simp
    qed
  qed
qed

text \<open>A connection: the bytes that arrive in any pieces, with ticks between them.\<close>

fun is_input :: "stream_event \<Rightarrow> bool" where
  "is_input (Data bs) = True"
| "is_input Idle = True"
| "is_input _ = False"

fun stream_data :: "stream_event list \<Rightarrow> string" where
  "stream_data [] = []"
| "stream_data (Data bs # es) = bs @ stream_data es"
| "stream_data (e # es) = stream_data es"

definition framed :: "string list \<Rightarrow> ingress \<Rightarrow> ingress \<Rightarrow> bool" where
  "framed recs ig ig' \<longleftrightarrow> ig_offered ig' = ig_offered ig @ takeWhile fits recs
     \<and> ig_errors ig' = ig_errors ig + (if list_all fits recs then 0 else 1) \<and> \<not> ig_closed ig'"

lemma take_record_small:
  assumes "\<not> ig_closed ig" and "fits (rd_buffer r)"
  shows "\<exists>ig'. take_record r ig = (Go, r\<lparr>rd_record := rd_record r + 1, rd_buffer := [], rd_call := 0\<rparr>, ig')
    \<and> framed [rd_buffer r] ig ig'"
  using enqueue_open [OF assms(1), of "rd_record r + 1" "rd_buffer r"] assms(2)
  by (auto simp: take_record_def fits_def framed_def)

lemma end_of_stream_framed:
  assumes "\<not> ig_closed ig" and "end_of_stream r ig = (fl, r', ig')"
  shows "fl = Hang_Up \<and> framed (if rd_buffer r = [] then [] else [rd_buffer r]) ig ig'"
  using enqueue_open [OF assms(1), of "rd_record r + 1" "rd_buffer r"] assms
  by (auto simp: end_of_stream_def fits_def framed_def note_error_def split: if_splits)

lemma eof_framed:
  assumes "\<not> ig_closed ig" and "rd_call r > 0 \<longrightarrow> rd_buffer r \<noteq> []" and "stream_step Eof r ig = (fl, r', ig')"
  shows "fl = Hang_Up \<and> framed (if rd_buffer r = [] then [] else [rd_buffer r]) ig ig'"
proof (cases "rd_call r > 0")
  case False
  then show ?thesis using assms end_of_stream_framed by auto
next
  case True
  show ?thesis
  proof (cases "fits (rd_buffer r)")
    case big: False
    then show ?thesis using assms True by (auto simp: take_record_def fits_def framed_def note_error_def)
  next
    case small: True
    obtain ig1 where t: "take_record r ig = (Go, r\<lparr>rd_record := rd_record r + 1, rd_buffer := [], rd_call := 0\<rparr>, ig1)"
      "framed [rd_buffer r] ig ig1" using take_record_small [OF assms(1) small] by blast
    then have "fl = Hang_Up \<and> ig' = ig1" using assms(3) True by (auto simp: end_of_stream_def)
    then show ?thesis using t(2) assms(2) True by simp
  qed
qed

lemma read_stream_framed:
  assumes "\<not> ig_closed ig" and "list_all is_input es" and "rd_call r > 0 \<longrightarrow> rd_buffer r \<noteq> []"
    and "read_stream (es @ [Eof]) r ig = (fl, r', ig')"
  shows "fl = Hang_Up \<and> framed (scanned (stream_data es) (rd_buffer r)) ig ig'"
  using assms
proof (induction es arbitrary: r ig)
  case Nil
  then have "stream_step Eof r ig = (fl, r', ig')"
    by (cases "stream_step Eof r ig", cases "fst (stream_step Eof r ig)") auto
  from eof_framed [OF Nil.prems(1,3) this] show ?case by (simp add: scanned_def)
next
  case (Cons e es)
  obtain fl1 r1 ig1 where s: "stream_step e r ig = (fl1, r1, ig1)" by (cases "stream_step e r ig") auto
  show ?case
  proof (cases e)
    case (Data bs)
    obtain rs rest where sc: "scan_records bs (rd_buffer r) = (rs, rest)" by fastforce
    note b = stream_bytes_scan [OF Cons.prems(1) sc _ Cons.prems(3), of fl1 r1 ig1]
    note a = scanned_append [OF sc, of "stream_data es"]
    show ?thesis
    proof (cases "list_all fits rs")
      case True
      with b s Data have g: "fl1 = Go" "rd_buffer r1 = rest" "rd_call r1 > 0 \<longrightarrow> rd_buffer r1 \<noteq> []" "\<not> ig_closed ig1"
        "ig_errors ig1 = ig_errors ig" "ig_offered ig1 = ig_offered ig @ rs" by (auto simp: list_all_iff takeWhile_eq_all_conv)
      have "read_stream (es @ [Eof]) r1 ig1 = (fl, r', ig')" using Cons.prems(4) s g(1) by simp
      from Cons.IH [OF g(4) _ g(3) this] Cons.prems(2) g True a Data show ?thesis
        by (auto simp: framed_def list_all_iff)
    next
      case False
      with b s Data have h: "fl1 = Hang_Up" "\<not> ig_closed ig1" "ig_errors ig1 = ig_errors ig + 1"
        "ig_offered ig1 = ig_offered ig @ takeWhile fits rs" by auto
      obtain x where "x \<in> set rs" "\<not> fits x" using False by (auto simp: list_all_iff)
      moreover have "ig' = ig1" "fl = Hang_Up" using Cons.prems(4) s h(1) by auto
      ultimately show ?thesis using False h a Data by (simp add: framed_def takeWhile_append1)
    qed
  next
    case Idle
    show ?thesis
    proof (cases "fits (rd_buffer r)")
      case True
      then have "read_stream (es @ [Eof]) (r\<lparr>rd_call := 0\<rparr>) ig = (fl, r', ig')"
        using Cons.prems(4) Idle by (simp add: fits_def)
      from Cons.IH [OF Cons.prems(1) _ _ this] Cons.prems(2) Idle show ?thesis by simp
    next
      case False
      then obtain q qs where "scanned (stream_data es) (rd_buffer r) = q # qs" "\<not> fits q"
        using scanned_longer [of "rd_buffer r" "stream_data es"] by (cases "rd_buffer r") (auto simp: fits_def)
      then show ?thesis using False Cons.prems(1,4) Idle by (auto simp: framed_def fits_def note_error_def)
    qed
  qed (use Cons.prems(2) in auto)
qed

section \<open>Lemmas: the queue\<close>

definition nonblank :: "string list \<Rightarrow> string list" where "nonblank rs = filter (\<lambda>r. \<not> blank_record r) rs"

definition queued_ok :: "queued_record \<Rightarrow> bool" where
  "queued_ok q \<longleftrightarrow> qr_permit q = length (qr_bytes q) \<and> fits (qr_bytes q) \<and> \<not> blank_record (qr_bytes q)"

definition ingress_ok :: "ingress \<Rightarrow> bool" where
  "ingress_ok ig \<longleftrightarrow> length (ig_queue ig) \<le> INPUT_QUEUE_RECORD_CAPACITY
     \<and> ig_permits ig + sum_list (map qr_permit (ig_queue ig)) = INPUT_QUEUE_BYTE_CAPACITY
     \<and> list_all queued_ok (ig_queue ig) \<and> ig_drops ig = of_nat (ig_refused ig)
     \<and> subseq (ig_accepted ig) (nonblank (ig_offered ig))
     \<and> length (nonblank (ig_offered ig)) = length (ig_accepted ig) + ig_refused ig
     \<and> list_all fits (ig_offered ig)"

text \<open>What the readers do to the queue: they append.\<close>

definition fills :: "ingress \<Rightarrow> ingress \<Rightarrow> bool" where
  "fills ig ig' \<longleftrightarrow> ingress_ok ig' \<and> \<not> ig_closed ig'
     \<and> (\<exists>new. ig_queue ig' = ig_queue ig @ new \<and> ig_accepted ig' = ig_accepted ig @ map qr_bytes new)"

definition filling :: "ingress \<Rightarrow> bool" where "filling ig \<longleftrightarrow> ingress_ok ig \<and> \<not> ig_closed ig"

lemma fills_refl: "filling ig \<Longrightarrow> fills ig ig"
  by (simp add: fills_def filling_def)

lemma fills_trans: "fills ig1 ig2 \<Longrightarrow> fills ig2 ig3 \<Longrightarrow> fills ig1 ig3"
  by (auto simp: fills_def)

lemma fills_filling: "fills ig ig' \<Longrightarrow> filling ig'"
  by (simp add: fills_def filling_def)

lemma fills_note_error: "filling ig \<Longrightarrow> fills ig (note_error ig)"
  by (simp add: fills_def filling_def ingress_ok_def note_error_def)

lemma fits_permit: "fits r \<Longrightarrow> length r mod 2 ^ 32 = length r"
  by (simp add: fits_def MAX_RECORD_SIZE_def)

lemma enqueue_fills:
  assumes "filling ig" and "fits bytes" and "enqueue n bytes ig = (ok, ig')"
  shows "ok \<and> fills ig ig'"
proof -
  have q: "ingress_ok ig" "\<not> ig_closed ig" using assms(1) by (simp_all add: filling_def)
  have s: "subseq (ig_accepted ig) (nonblank (ig_offered ig) @ xs)" for xs
    using q(1) subseq_order.trans [OF _ list_emb_prefix] by (auto simp: ingress_ok_def)
  show ?thesis
    using assms(2,3) q s fits_permit [OF assms(2)]
    by (auto simp: enqueue_def Let_def fills_def ingress_ok_def queued_ok_def nonblank_def note_queue_drop_def
        split: if_splits)
qed

lemma take_record_fills:
  assumes "filling ig" and "take_record r ig = (fl, r', ig')"
  shows "fl \<noteq> Finish \<and> fills ig ig'"
  using assms enqueue_fills [OF assms(1), of "rd_buffer r"] fills_note_error [OF assms(1)]
  by (auto simp: take_record_def fits_def split: if_splits prod.splits bool.splits)

lemma end_of_stream_fills:
  assumes "filling ig" and "end_of_stream r ig = (fl, r', ig')"
  shows "fl \<noteq> Finish \<and> fills ig ig'"
  using assms enqueue_fills [OF assms(1), of "rd_buffer r"] fills_note_error [OF assms(1)] fills_refl [OF assms(1)]
  by (auto simp: end_of_stream_def fits_def split: if_splits prod.splits)

lemma stream_bytes_fills:
  assumes "filling ig" and "take_bytes bs r ig = (fl, r', ig')"
  shows "fl \<noteq> Finish \<and> fills ig ig'"
  using assms
proof (induction bs arbitrary: r ig)
  case Nil
  then show ?case by (auto intro: fills_refl)
next
  case (Cons b bs)
  let ?r = "r\<lparr>rd_buffer := rd_buffer r @ [b], rd_call := rd_call r + 1\<rparr>"
  show ?case
  proof (cases "b = CHR 0x0A")
    case False
    then show ?thesis using Cons.prems Cons.IH [OF Cons.prems(1), of ?r] by (simp add: Let_def)
  next
    case True
    obtain fl1 r1 ig1 where t: "take_record ?r ig = (fl1, r1, ig1)" by (cases "take_record ?r ig") auto
    note f = take_record_fills [OF Cons.prems(1) t]
    show ?thesis
    proof (cases fl1)
      case Go
      then have "take_bytes bs r1 ig1 = (fl, r', ig')" using Cons.prems(2) True t by (simp add: Let_def)
      from Cons.IH [OF fills_filling this] f show ?thesis using fills_trans by blast
    next
      case Hang_Up
      then show ?thesis using Cons.prems(2) True t f by (simp add: Let_def)
    next
      case Finish
      then show ?thesis using f by simp
    qed
  qed
qed

lemma stream_step_fills:
  assumes "filling ig" and "stream_step e r ig = (fl, r', ig')"
  shows "fl \<noteq> Finish \<and> fills ig ig'"
proof (cases e)
  case (Data bs)
  then show ?thesis using assms stream_bytes_fills by simp
next
  case Idle
  then show ?thesis
    using assms(2) fills_refl [OF assms(1)] fills_note_error [OF assms(1)] by (auto split: if_splits)
next
  case Read_Failed
  then show ?thesis using assms(2) fills_note_error [OF assms(1)] by auto
next
  case Eof
  show ?thesis
  proof (cases "rd_call r > 0")
    case False
    then show ?thesis using assms Eof end_of_stream_fills by simp
  next
    case True
    obtain fl1 r1 ig1 where t: "take_record r ig = (fl1, r1, ig1)" by (cases "take_record r ig") auto
    note f = take_record_fills [OF assms(1) t]
    show ?thesis
      using assms(2) Eof True t f end_of_stream_fills [OF fills_filling, of ig ig1 r1 fl r' ig'] fills_trans
      by (cases fl1) auto
  qed
qed

lemma datagram_step_fills:
  assumes "filling ig" and "datagram_step e n ig = (ok, n', ig')"
  shows "ok \<and> fills ig ig'"
proof (cases e)
  case Recv_Failed
  then show ?thesis using assms fills_note_error by auto
next
  case (Packet bs)
  then show ?thesis
    using assms enqueue_fills [OF assms(1), of "take (MAX_RECORD_SIZE + 1) bs"] fills_refl [OF assms(1)]
      fills_note_error [OF assms(1)]
    by (auto simp: Let_def fits_def split: if_splits prod.splits)
qed

section \<open>Lemmas: the two tasks\<close>

text \<open>As long as nothing panicked the input goes on: it reads, the queue is open, and the submitting
  task has not ended. What entered the queue has been taken, in order, or is still in it.\<close>

definition input_live :: "socket_state \<Rightarrow> bool" where
  "input_live st \<longleftrightarrow> \<not> ig_closed (so_ingress st) \<and> so_reading st \<noteq> Stopped \<and> so_phase st \<noteq> Ended
     \<and> so_phase st \<noteq> Panicked \<and> so_phase st \<noteq> Committing From_End"

definition input_dead :: "socket_state \<Rightarrow> bool" where
  "input_dead st \<longleftrightarrow> so_phase st = Panicked \<and> so_reading st = Stopped"

definition lane_ok :: "ingress \<Rightarrow> submitter \<Rightarrow> bool" where
  "lane_ok ig p \<longleftrightarrow> ingress_ok ig \<and> ig_accepted ig = map snd (sk_taken p) @ map qr_bytes (ig_queue ig)"

definition socket_ok :: "socket_state \<Rightarrow> bool" where
  "socket_ok st \<longleftrightarrow> (input_live st \<or> input_dead st) \<and> lane_ok (so_ingress st) (so_submitter st)"

lemma input_dead_step: "input_dead st \<Longrightarrow> socket_step env parse st e = st"
  by (cases e) (auto simp: input_dead_def)

lemma fills_lane: "fills ig ig' \<Longrightarrow> lane_ok ig p \<Longrightarrow> lane_ok ig' p"
  by (auto simp: fills_def lane_ok_def)

lemma live_filling: "socket_ok st \<Longrightarrow> input_live st \<Longrightarrow> filling (so_ingress st)"
  by (simp add: socket_ok_def input_live_def filling_def lane_ok_def)

lemma reading_ok:
  assumes "socket_ok st" and "input_live st" and "fills (so_ingress st) ig" and "rd \<noteq> Stopped"
  shows "socket_ok (st\<lparr>so_reading := rd, so_ingress := ig\<rparr>)"
  using assms fills_lane [OF assms(3)] by (auto simp: socket_ok_def input_live_def fills_def)

lemma enter_phase_ok:
  assumes "input_live st" and "lane_ok ig p" and "\<not> ig_closed ig" and "ph \<noteq> Ended" and "ph \<noteq> Committing From_End"
  shows "socket_ok (enter_phase ph ig p st)"
  using assms
  by (auto simp: socket_ok_def enter_phase_def input_live_def input_dead_def lane_ok_def ingress_ok_def)

lemma submit_event_lane:
  assumes "submit_event env now event p = (ph, p')"
  shows "sk_taken p' = sk_taken p \<and> sk_filters p' = sk_filters p
    \<and> (ph = Ready \<or> ph = Panicked \<or> ph = Committing From_Submit)"
  using assms by (auto simp: submit_event_def Let_def split: option.splits prod.splits sum.splits if_splits)

lemma queue_ok_pop:
  assumes "ingress_ok ig" and "ig_queue ig = q # qs"
  shows "ingress_ok (ig\<lparr>ig_queue := qs, ig_permits := ig_permits ig + qr_permit q\<rparr>)"
  using assms by (auto simp: ingress_ok_def)

lemma process_record_lane:
  assumes "lane_ok ig p" and "ig_queue ig = q # qs"
    and "process_record env parse now q (ig\<lparr>ig_queue := qs\<rparr>) p = (ph, ig', p')"
  shows "lane_ok ig' p' \<and> ig_closed ig' = ig_closed ig \<and> sk_filters p' = sk_filters p
    \<and> sk_taken p' = sk_taken p @ [(now, qr_bytes q)]
    \<and> (ph = Ready \<or> ph = Panicked \<or> ph = Committing From_Submit)"
proof -
  let ?ig = "ig\<lparr>ig_queue := qs, ig_permits := ig_permits ig + qr_permit q\<rparr>"
  have t: "ig' = ?ig \<and> sk_taken p' = sk_taken p @ [(now, qr_bytes q)] \<and> sk_filters p' = sk_filters p
      \<and> (ph = Ready \<or> ph = Panicked \<or> ph = Committing From_Submit)"
    using assms(3) submit_event_lane
    by (fastforce simp: process_record_def Let_def split: sum.splits if_splits prod.splits)
  moreover have "ingress_ok ?ig" using assms(1,2) queue_ok_pop by (simp add: lane_ok_def)
  ultimately show ?thesis using assms(1,2) by (simp add: lane_ok_def)
qed

lemma maintenance_lane:
  assumes "maintenance due ig p = (ph, p')"
  shows "sk_taken p' = sk_taken p \<and> sk_filters p' = sk_filters p \<and> (ph = Ready \<or> ph = Committing (From_Maintenance due))"
  using assms by (auto simp: maintenance_def report_def split: if_splits)

lemma commit_try_lane:
  assumes "commit_try env w c ig p = (ph, p')" and "c \<noteq> From_End"
  shows "sk_taken p' = sk_taken p \<and> sk_filters p' = sk_filters p \<and> (ph = Ready \<or> ph = Committing c)"
  using assms by (cases c) (auto simp: commit_try_def report_def split: prod.splits sum.splits)

lemma socket_step_ok:
  assumes "socket_ok st"
  shows "socket_ok (socket_step env parse st e)"
proof (cases "input_live st")
  case False
  then show ?thesis using assms input_dead_step [of st env parse e] by (simp add: socket_ok_def)
next
  case live: True
  note f = live_filling [OF assms live]
  have lane: "lane_ok (so_ingress st) (so_submitter st)" using assms by (simp add: socket_ok_def)
  note rd = reading_ok [OF assms live] and ep = enter_phase_ok [OF live]
  show ?thesis
  proof (cases e)
    case Accepted
    then show ?thesis using assms live by (auto simp: socket_ok_def input_live_def input_dead_def split: reading.splits)
  next
    case Accept_Failed
    then show ?thesis
      using assms rd [OF fills_note_error [OF f], of "so_reading st"] live
      by (auto simp: input_live_def split: reading.splits)
  next
    case (Stream ev)
    show ?thesis
    proof (cases "so_reading st")
      case (Connected r)
      obtain fl r' ig where s: "stream_step ev r (so_ingress st) = (fl, r', ig)"
        by (cases "stream_step ev r (so_ingress st)") auto
      then show ?thesis
        using stream_step_fills [OF f s] rd [of ig] Stream Connected
        by (cases fl) (auto simp: stream_turn_def)
    qed (use assms Stream in auto)
  next
    case (Datagram ev)
    show ?thesis
    proof (cases "so_reading st")
      case (Receiving n)
      obtain ok n' ig where s: "datagram_step ev n (so_ingress st) = (ok, n', ig)"
        by (cases "datagram_step ev n (so_ingress st)") auto
      then show ?thesis
        using datagram_step_fills [OF f s] rd [of ig] Datagram Receiving by (auto simp: datagram_turn_def)
    qed (use assms Datagram in auto)
  next
    case (Take now)
    show ?thesis
    proof (cases "ig_queue (so_ingress st)")
      case Nil
      then show ?thesis using assms Take live by (simp add: take_turn_def input_live_def Let_def)
    next
      case (Cons q qs)
      obtain ph ig p where s: "process_record env parse now q ((so_ingress st)\<lparr>ig_queue := qs\<rparr>) (so_submitter st) = (ph, ig, p)"
        by (cases "process_record env parse now q ((so_ingress st)\<lparr>ig_queue := qs\<rparr>) (so_submitter st)") auto
      then show ?thesis
        using process_record_lane [OF lane Cons s] ep [of ig p ph] live assms Take Cons
        by (auto simp: take_turn_def Let_def input_live_def)
    qed
  next
    case (Maintain due)
    obtain ph p where s: "maintenance due (so_ingress st) (so_submitter st) = (ph, p)" by fastforce
    then show ?thesis
      using maintenance_lane [OF s] lane ep [of "so_ingress st" p ph] live assms Maintain
      by (auto simp: input_live_def lane_ok_def)
  next
    case (Commit_Try w)
    show ?thesis
    proof (cases "so_phase st")
      case (Committing c)
      obtain ph p where s: "commit_try env w c (so_ingress st) (so_submitter st) = (ph, p)" by fastforce
      moreover have c: "c \<noteq> From_End" using live Committing by (auto simp: input_live_def)
      ultimately show ?thesis
        using commit_try_lane [OF s c] lane ep [of "so_ingress st" p ph] live assms Commit_Try Committing
        by (auto simp: input_live_def lane_ok_def)
    qed (use assms Commit_Try in auto)
  qed
qed

interpretation socket_queue: invariant_machine "socket_step env parse" socket_ok for env parse
  by unfold_locales (rule socket_step_ok)

lemma socket_spawn_ok: "socket_ok (socket_spawn display input sink fs)"
  by (auto simp: socket_ok_def socket_spawn_def input_live_def lane_ok_def ingress_ok_def ingress_new_def
      submitter_new_def nonblank_def INPUT_QUEUE_RECORD_CAPACITY_def split: socket_type.splits)

section \<open>Lemmas: from records to the sink\<close>

text \<open>Whether a sink takes an event, which depends on its kind only, and the event a record makes:
  none when it is no JSON object, its filters fail or the sink does not take it.\<close>

fun sink_takes :: "'ts sink_env \<Rightarrow> sink_kind \<Rightarrow> json \<Rightarrow> bool" where
  "sink_takes env Kind_EveBox event = True"
| "sink_takes env (Kind_Elastic index no_suffix opensearch) event =
     (case event_datetime env event of
        None \<Rightarrow> False
      | Some ts \<Rightarrow> json_set [''@timestamp''] (JStr (se_elastic env ts)) event \<noteq> None)"
| "sink_takes env Kind_SQLite event = (case sqlite_prep env event of Some (Inr p) \<Rightarrow> True | _ \<Rightarrow> False)"

definition record_event ::
    "'ts sink_env \<Rightarrow> (string \<Rightarrow> string + json) \<Rightarrow> eve_filter list \<Rightarrow> sink_kind \<Rightarrow> string \<times> string \<Rightarrow> json option" where
  "record_event env parse fs kind taken =
     (case parse (snd taken) of
        Inl e \<Rightarrow> None
      | Inr event \<Rightarrow>
          (if as_object event = None then None
           else case chain_run (fst taken) fs event of
                  None \<Rightarrow> None
                | Some event \<Rightarrow> (if sink_takes env kind event then Some event else None)))"

lemma sink_takes_submit:
  "sink_takes env (kind_of_sink sink) event \<longleftrightarrow> (\<exists>c sink'. sink_submit env event sink = Some (Inr c, sink'))"
proof (cases sink)
  case (Sink_EveBox s)
  then show ?thesis by (simp add: sink_submit_def evebox_submit_def Let_def)
next
  case (Sink_Elastic s)
  then show ?thesis
    by (auto simp: sink_submit_def elastic_submit_def Let_def split: option.splits)
next
  case (Sink_SQLite s)
  then show ?thesis
    by (auto simp: sink_submit_def sqlite_submit_def split: option.splits sum.splits)
qed

lemma sink_refuses: "sink_submit env event sink = Some (Inl e, sink') \<Longrightarrow> sink' = sink"
  by (cases sink) (auto simp: sink_submit_def evebox_submit_def elastic_submit_def sqlite_submit_def Let_def
      split: option.splits sum.splits)

text \<open>What the submitting task keeps: the sink's backend and queue hold exactly the entries of the
  events of the records taken, after what the queue held at first.\<close>

definition delivery_ok ::
    "'ts sink_env \<Rightarrow> (string \<Rightarrow> string + json) \<Rightarrow> eve_filter list \<Rightarrow> sink_kind \<Rightarrow> sink_entry list \<Rightarrow> submitter \<Rightarrow> bool" where
  "delivery_ok env parse fs kind old p \<longleftrightarrow> sink_inv env (sk_sink p) \<and> kind_of_sink (sk_sink p) = kind \<and> sk_filters p = fs
     \<and> sk_submitted p = List.map_filter (record_event env parse fs kind) (sk_taken p)
     \<and> sk_stored p @ sink_queued (sk_sink p) = old @ map (sink_entry_of env kind) (sk_submitted p)"

lemma map_filter_snoc:
  "List.map_filter f (xs @ [x]) = List.map_filter f xs @ (case f x of None \<Rightarrow> [] | Some y \<Rightarrow> [y])"
  by (simp add: List.map_filter_def split: option.splits)

lemma delivery_taken_none:
  assumes "delivery_ok env parse fs kind old p" and "record_event env parse fs kind t = None"
  shows "delivery_ok env parse fs kind old (p\<lparr>sk_taken := sk_taken p @ [t]\<rparr>)"
  using assms by (simp add: delivery_ok_def map_filter_snoc)

lemma submit_event_delivery:
  assumes "delivery_ok env parse fs kind old p" and "parse bytes = Inr event" and "as_object event \<noteq> None"
    and "submit_event env now event (p\<lparr>sk_taken := sk_taken p @ [(now, bytes)]\<rparr>) = (ph, p')"
  shows "delivery_ok env parse fs kind old p'"
proof -
  let ?q = "p\<lparr>sk_taken := sk_taken p @ [(now, bytes)]\<rparr>"
  have k: "kind_of_sink (sk_sink p) = kind" "sk_filters p = fs" "sink_inv env (sk_sink p)"
    using assms(1) by (simp_all add: delivery_ok_def)
  show ?thesis
  proof (cases "chain_run now fs event")
    case None
    then have "record_event env parse fs kind (now, bytes) = None" "p' = ?q"
      using assms(2-4) k by (auto simp: record_event_def submit_event_def)
    then show ?thesis using delivery_taken_none [OF assms(1)] by simp
  next
    case (Some event')
    have r: "record_event env parse fs kind (now, bytes) = (if sink_takes env kind event' then Some event' else None)"
      using Some assms(2,3) by (auto simp: record_event_def split: option.splits)
    show ?thesis
    proof (cases "sink_takes env kind event'")
      case True
      then obtain c sink where s: "sink_submit env event' (sk_sink p) = Some (Inr c, sink)"
        using sink_takes_submit [of env "sk_sink p" event'] k(1) by auto
      from sink_submit_queued [OF k(3) s] have "sink_inv env sink" "kind_of_sink sink = kind"
        "sink_queued sink = sink_queued (sk_sink p) @ [sink_entry_of env kind event']" using k by auto
      moreover have "sk_sink p' = sink" "sk_submitted p' = sk_submitted p @ [event']" "sk_filters p' = fs"
        "sk_stored p' = sk_stored p" "sk_taken p' = sk_taken p @ [(now, bytes)]"
        using assms(4) k s Some by (auto simp: submit_event_def Let_def)
      ultimately show ?thesis using assms(1) True r by (simp add: delivery_ok_def map_filter_snoc)
    next
      case False
      then have "\<not> (\<exists>c sink. sink_submit env event' (sk_sink p) = Some (Inr c, sink))"
        using sink_takes_submit [of env "sk_sink p" event'] k(1) by auto
      then have "sk_sink p' = sk_sink p" "sk_submitted p' = sk_submitted p" "sk_filters p' = fs"
        "sk_stored p' = sk_stored p" "sk_taken p' = sk_taken p @ [(now, bytes)]"
        using assms(4) k Some sink_refuses
        by (auto simp: submit_event_def Let_def split: option.splits prod.splits sum.splits)
      then show ?thesis using assms(1) False r by (simp add: delivery_ok_def map_filter_snoc)
    qed
  qed
qed

lemma delivery_counters:
  "delivery_ok env parse fs kind old (p\<lparr>sk_errors := n\<rparr>) \<longleftrightarrow> delivery_ok env parse fs kind old p"
  "delivery_ok env parse fs kind old (p\<lparr>sk_events := n\<rparr>) \<longleftrightarrow> delivery_ok env parse fs kind old p"
  "delivery_ok env parse fs kind old (report due ig p) \<longleftrightarrow> delivery_ok env parse fs kind old p"
  by (simp_all add: delivery_ok_def report_def)

lemma process_record_delivery:
  assumes "delivery_ok env parse fs kind old p" and "process_record env parse now q ig p = (ph, ig', p')"
  shows "delivery_ok env parse fs kind old p'"
proof (cases "\<exists>event. parse (qr_bytes q) = Inr event \<and> as_object event \<noteq> None")
  case True
  then obtain event where e: "parse (qr_bytes q) = Inr event" "as_object event \<noteq> None" by blast
  then show ?thesis
    using assms(2) submit_event_delivery [OF assms(1) e]
    by (auto simp: process_record_def Let_def split: prod.splits)
next
  case False
  then have "record_event env parse fs kind (now, qr_bytes q) = None"
    by (auto simp: record_event_def split: sum.splits)
  from delivery_taken_none [OF assms(1) this] False assms(2) show ?thesis
    by (auto simp: process_record_def Let_def delivery_counters split: sum.splits)
qed

lemma commit_try_delivery:
  assumes "delivery_ok env parse fs kind old p" and "commit_try env w c ig p = (ph, p')"
  shows "delivery_ok env parse fs kind old p'"
proof -
  obtain r sink where s: "sink_commit env w (sk_sink p) = (r, sink)" by fastforce
  have inv: "sink_inv env (sk_sink p)" using assms(1) by (simp add: delivery_ok_def)
  note q = sink_commit_queued [OF inv s]
  show ?thesis
  proof (cases r)
    case (Inl e)
    then show ?thesis using assms q s by (auto simp: commit_try_def delivery_ok_def)
  next
    case (Inr n)
    let ?p = "p\<lparr>sk_sink := sink, sk_commits := sk_commits p + 1, sk_stored := sk_stored p @ sink_queued (sk_sink p)\<rparr>"
    have "delivery_ok env parse fs kind old ?p" using assms(1) q Inr by (simp add: delivery_ok_def)
    moreover have "after_commit c ig ?p = (ph, p')" using assms(2) s Inr by (simp add: commit_try_def)
    ultimately show ?thesis by (cases c) (auto simp: delivery_counters)
  qed
qed

lemma delivery_step:
  assumes "delivery_ok env parse fs kind old (so_submitter st)"
  shows "delivery_ok env parse fs kind old (so_submitter (socket_step env parse st e))"
proof (cases e)
  case (Take now)
  show ?thesis
    using assms Take process_record_delivery [OF assms, of now]
    by (auto simp: take_turn_def Let_def enter_phase_def split: list.splits prod.splits)
next
  case (Maintain due)
  then show ?thesis
    using assms by (auto simp: maintenance_def enter_phase_def delivery_counters)
next
  case (Commit_Try w)
  then show ?thesis
    using assms commit_try_delivery [OF assms]
    by (auto simp: enter_phase_def split: sock_phase.splits prod.splits)
qed (use assms in \<open>auto simp: stream_turn_def datagram_turn_def split: reading.splits prod.splits flow.splits\<close>)

interpretation socket_delivery:
    invariant_machine "socket_step env parse" "\<lambda>st. delivery_ok env parse fs kind old (so_submitter st)"
    for env :: "'ts sink_env" and parse fs kind old
  by unfold_locales (rule delivery_step)

section \<open>Properties\<close>

lemma permits_are_bytes:
  "list_all queued_ok qs \<Longrightarrow> sum_list (map qr_permit qs) = sum_list (map (length \<circ> qr_bytes) qs)"
  by (induction qs) (auto simp: queued_ok_def)

text \<open>C5. The memory a socket input holds is bounded, whatever the writers send and however slow the
  sink is: after any events the queue holds at most 4096 records and 16 MiB, the free permits and
  the queued bytes add up to the budget, and no record over 8 MiB was ever offered to it. Every
  record offered that is not blank was either accepted or counted as a drop, the accepted ones in
  the order offered, and they are the records taken, in order, followed by those in the queue.
  The input never stops by itself: unless a panic ended it, it is still reading and its queue is open.\<close>

theorem socket_queue_bounded:
  "let st = run_steps (socket_step env parse) (socket_spawn display input sink fs) es; ig = so_ingress st
   in length (ig_queue ig) \<le> 4096
    \<and> ig_permits ig + sum_list (map (length \<circ> qr_bytes) (ig_queue ig)) = 16777216
    \<and> list_all fits (ig_offered ig)
    \<and> ig_drops ig = of_nat (ig_refused ig)
    \<and> length (nonblank (ig_offered ig)) = length (ig_accepted ig) + ig_refused ig
    \<and> subseq (ig_accepted ig) (nonblank (ig_offered ig))
    \<and> ig_accepted ig = map snd (sk_taken (so_submitter st)) @ map qr_bytes (ig_queue ig)
    \<and> (so_phase st = Panicked \<or> so_reading st \<noteq> Stopped \<and> \<not> ig_closed ig)"
proof -
  define st where "st = run_steps (socket_step env parse) (socket_spawn display input sink fs) es"
  have "socket_ok st" unfolding st_def by (rule socket_queue.run_inv [OF socket_spawn_ok])
  then have "ingress_ok (so_ingress st)"
    "ig_accepted (so_ingress st) = map snd (sk_taken (so_submitter st)) @ map qr_bytes (ig_queue (so_ingress st))"
    "so_phase st = Panicked \<or> so_reading st \<noteq> Stopped \<and> \<not> ig_closed (so_ingress st)"
    by (auto simp: socket_ok_def lane_ok_def input_live_def input_dead_def)
  moreover from this(1) have "sum_list (map (length \<circ> qr_bytes) (ig_queue (so_ingress st)))
      = sum_list (map qr_permit (ig_queue (so_ingress st)))"
    by (simp add: ingress_ok_def permits_are_bytes)
  ultimately show ?thesis
    unfolding st_def [symmetric] Let_def
    by (simp add: ingress_ok_def INPUT_QUEUE_RECORD_CAPACITY_def INPUT_QUEUE_BYTE_CAPACITY_def)
qed

text \<open>C6. From the queue to the backend nothing is lost, invented or reordered: after any events,
  failed commits and reports between them, what the sink's backend accepted followed by what the
  sink has queued is, after what it had queued at first, the entries of the events of the records
  taken, in order. A record makes no event exactly when it is not a JSON object, when its filters
  fail, or when the sink does not take what they make of it. The last filter applied names the socket.\<close>

theorem socket_events_stored:
  assumes "sink_inv env sink"
  shows "let st = run_steps (socket_step env parse) (socket_spawn display input sink fs) es; p = so_submitter st;
      chain = fs @ [Add_Agent_Filename (display (si_path input))]
    in sk_stored p @ sink_queued (sk_sink p) = sink_queued sink
        @ map (sink_entry_of env (kind_of_sink sink))
            (List.map_filter (record_event env parse chain (kind_of_sink sink)) (sk_taken p))"
proof -
  let ?fs = "fs @ [Add_Agent_Filename (display (si_path input))]"
  have "delivery_ok env parse ?fs (kind_of_sink sink) (sink_queued sink) (so_submitter (socket_spawn display input sink fs))"
    using assms by (simp add: delivery_ok_def socket_spawn_def submitter_new_def chain_add_def List.map_filter_def)
  from socket_delivery.run_inv [OF this] show ?thesis
    by (auto simp: delivery_ok_def Let_def)
qed

text \<open>C7. The records a stream offers to the queue are its lines: however the bytes arrive and
  whenever the interval ticks, a connection up to its end offers the pieces between newlines, each
  with its newline and the last without one if it is not empty, up to the first longer than 8 MiB;
  there it is left with one error, and otherwise without any.\<close>

theorem socket_stream_framed:
  assumes "\<not> ig_closed ig" and "list_all is_input es"
    and "read_stream (es @ [Eof]) connection_reader_new ig = (fl, r, ig')"
  shows "fl = Hang_Up
    \<and> ig_offered ig' = ig_offered ig @ takeWhile fits (stream_records (stream_data es))
    \<and> ig_errors ig' = ig_errors ig + (if list_all fits (stream_records (stream_data es)) then 0 else 1)"
  using read_stream_framed [OF assms(1,2) _ assms(3)]
  by (simp add: connection_reader_new_def scanned_records framed_def)

section \<open>Examples\<close>

definition demo_object :: "string \<Rightarrow> string + json" where
  "demo_object bytes = (if prefix ''{'' bytes then Inr (JObj [(''raw'', JStr bytes)]) else Inl ''expected value'')"

definition socket_demo_env :: "nat sink_env" where
  "socket_demo_env = \<lparr>se_parse = \<lambda>s. None, se_nanos = int, se_yyyymmdd = \<lambda>n. [], se_elastic = \<lambda>n. [],
     se_rfc3339 = \<lambda>n. [], se_ulid = \<lambda>n. [], se_show = \<lambda>v. ''x''\<rparr>"

definition socket_demo_sink :: event_sink where "socket_demo_sink = Sink_EveBox evebox_new"

definition socket_demo_input :: socket_input where
  "socket_demo_input = \<lparr>si_path = ''/run/eve.sock'', si_type = Unix_Stream, si_mode = None\<rparr>"

definition socket_demo_world :: sink_world where
  "socket_demo_world = \<lparr>sw_post = \<lambda>b. Inr (200, Inr []), sw_try = \<lambda>n. Sql_Ok, sw_parse_json = \<lambda>s. Inl []\<rparr>"

definition socket_demo_events :: "socket_event list" where
  "socket_demo_events =
     [Accepted, Stream (Data ''{1''), Stream Idle, Stream (Data (''}'' @ [CHR 0x0A] @ ''no'' @ [CHR 0x0A])),
      Take ''now'', Take ''now'', Maintain False, Commit_Try socket_demo_world]"

lemmas socket_demo_eval = socket_demo_env_def socket_demo_sink_def socket_demo_input_def socket_demo_world_def
  socket_demo_events_def demo_object_def

lemmas socket_run_eval = socket_spawn_def ingress_new_def submitter_new_def chain_add_def connection_reader_new_def
  stream_turn_def take_record_def enqueue_def blank_record_def is_ascii_whitespace_def take_turn_def process_record_def
  submit_event_def enter_phase_def maintenance_def commit_try_def sink_submit_def sink_commit_def sink_pending_def
  evebox_new_def evebox_submit_def evebox_commit_def evebox_truncate_def report_def Let_def MAX_RECORD_SIZE_def
  INPUT_QUEUE_RECORD_CAPACITY_def INPUT_QUEUE_BYTE_CAPACITY_def BATCH_SIZE_def LIMIT_def

text \<open>Two records arrive in pieces around a tick; one becomes an event, which a commit stores.\<close>

theorem socket_events_stored_witness:
  "length (sk_stored (so_submitter
     (run_steps (socket_step socket_demo_env demo_object)
        (socket_spawn id socket_demo_input socket_demo_sink []) socket_demo_events))) = 1"
proof -
  let ?st = "run_steps (socket_step socket_demo_env demo_object)
      (socket_spawn id socket_demo_input socket_demo_sink []) socket_demo_events"
  have inv: "sink_inv socket_demo_env socket_demo_sink"
    by (simp add: socket_demo_sink_def evebox_new_def)
  have q: "sink_queued (sk_sink (so_submitter ?st)) = []" and t: "sk_taken (so_submitter ?st) =
      [(''now'', ''{1}'' @ [CHR 0x0A]), (''now'', ''no'' @ [CHR 0x0A])]"
    by (simp_all add: socket_demo_eval socket_run_eval)
  have f: "length (List.map_filter (record_event socket_demo_env demo_object [Add_Agent_Filename ''/run/eve.sock'']
      Kind_EveBox) [(''now'', ''{1}'' @ [CHR 0x0A]), (''now'', ''no'' @ [CHR 0x0A])]) = 1"
    by (simp add: record_event_def demo_object_def List.map_filter_def)
  from socket_events_stored [OF inv, where es = socket_demo_events and parse = demo_object and fs = "[]"
      and display = id and input = socket_demo_input] q t f
  show ?thesis
    by (simp add: Let_def socket_demo_sink_def socket_demo_input_def evebox_new_def)
qed

theorem socket_stream_framed_witness:
  "ig_offered (snd (snd (read_stream [Data (''a'' @ [CHR 0x0A] @ ''b''), Idle, Data ''c'', Eof]
      connection_reader_new ingress_new))) = [''a'' @ [CHR 0x0A], ''bc'']"
proof -
  let ?es = "[Data (''a'' @ [CHR 0x0A] @ ''b''), Idle, Data ''c'']"
  obtain fl r ig where r: "read_stream (?es @ [Eof]) connection_reader_new ingress_new = (fl, r, ig)"
    by (cases "read_stream (?es @ [Eof]) connection_reader_new ingress_new") auto
  have "\<not> ig_closed ingress_new" "list_all is_input ?es" by (simp_all add: ingress_new_def)
  from socket_stream_framed [OF this r] r show ?thesis
    by (simp add: stream_records_def fits_def MAX_RECORD_SIZE_def ingress_new_def)
qed

end
