(* ===== verification/Pcap_Purge.thy ===== *)
theory Pcap_Purge
  imports Prelude "HOL-Library.List_Lexorder" "HOL-Library.Product_Lexorder"
begin

text \<open>
  The purge of a capture directory (\<open>src/src/cli/pcap/purge.rs\<close>): which files of the directory are
  captures, which of them are kept, and the removal of the others. The directory is what listing
  it gives, entry by entry with its errors; the outcome of removing a file is a parameter, and a
  run returns the files it removed. The loop of the interval option repeats a run; the size
  argument, which goes through floating point, and the log are left out.
\<close>

section \<open>The directory\<close>

text \<open>An entry: its name, the result of its type and of its metadata, the time of modification being
  a result of its own.\<close>

record dir_item =
  di_name :: string
  di_is_file :: "string + bool"
  di_metadata :: "string + u64 \<times> (string + int)"

record purge_env =
  pg_exists :: bool
  pg_is_dir :: bool
  pg_listing :: "string + (string + dir_item) list"
  pg_remove :: "string \<Rightarrow> string option"

record purge_args =
  pa_keep_files :: "nat option"
  pa_max_size :: "u64 option"
  pa_prefix :: "string option"
  pa_force :: bool

record file_info =
  fi_name :: string
  fi_size :: u64
  fi_modified :: int

section \<open>Which files are captures\<close>

text \<open>\<open>split_once\<close>: the parts around the first occurrence.\<close>

fun split_once :: "string \<Rightarrow> string \<Rightarrow> (string \<times> string) option" where
  "split_once pat [] = (if pat = [] then Some ([], []) else None)"
| "split_once pat (c # cs) =
     (if prefix pat (c # cs) then Some ([], drop (length pat) (c # cs))
      else map_option (\<lambda>(a, b). (c # a, b)) (split_once pat cs))"

definition numbered :: "string \<Rightarrow> bool" where
  "numbered s \<longleftrightarrow> s \<noteq> [] \<and> list_all (list_all is_digit) (split_char (CHR ''.'') s)"

definition has_extension :: "string \<Rightarrow> string \<Rightarrow> bool" where
  "has_extension lowercase extension \<longleftrightarrow> suffix extension lowercase
     \<or> (case split_once (extension @ ''.'') lowercase of None \<Rightarrow> False | Some (_, s) \<Rightarrow> numbered s)"

definition is_pcap_filename :: "string \<Rightarrow> bool" where
  "is_pcap_filename filename = list_ex (has_extension (to_ascii_lowercase filename)) [''.pcap'', ''.cap'']"

definition selected :: "string option \<Rightarrow> string \<Rightarrow> bool" where
  "selected pre filename \<longleftrightarrow> valid_utf8 filename \<and> is_pcap_filename filename
     \<and> (case pre of None \<Rightarrow> True | Some p \<Rightarrow> prefix p filename)"

text \<open>The loop over the directory, in the order of the source: the entry, its type, its name, its
  metadata.\<close>

fun collect_loop :: "string option \<Rightarrow> (string + dir_item) list \<Rightarrow> file_info list \<Rightarrow> string + file_info list" where
  "collect_loop pre [] files = Inr files"
| "collect_loop pre (Inl e # es) files = Inl e"
| "collect_loop pre (Inr d # es) files =
     (case di_is_file d of
        Inl e \<Rightarrow> Inl e
      | Inr is_file \<Rightarrow>
          (if \<not> is_file \<or> \<not> selected pre (di_name d) then collect_loop pre es files
           else
             (case di_metadata d of
                Inl e \<Rightarrow> Inl e
              | Inr (sz, Inl e) \<Rightarrow> Inl e
              | Inr (sz, Inr modified) \<Rightarrow>
                  collect_loop pre es (files @ [\<lparr>fi_name = di_name d, fi_size = sz, fi_modified = modified\<rparr>]))))"

text \<open>Newest first, then by path; the paths differ in their last component only.\<close>

definition age_key :: "file_info \<Rightarrow> int \<times> string" where
  "age_key f = (- fi_modified f, fi_name f)"

definition collect_pcap_files :: "purge_env \<Rightarrow> string option \<Rightarrow> string + file_info list" where
  "collect_pcap_files env pre =
     (if \<not> pg_exists env then Inl ''Directory does not exist''
      else if \<not> pg_is_dir env then Inl ''Path is not a directory''
      else try_then (pg_listing env)
        (\<lambda>es. try_then (collect_loop pre es []) (\<lambda>files. Inr (sort_key age_key files))))"

section \<open>Which files go\<close>

definition delete_by_count :: "file_info list \<Rightarrow> nat \<Rightarrow> file_info list" where
  "delete_by_count files keep_count = drop keep_count files"

fun keep_loop :: "file_info list \<Rightarrow> u64 \<Rightarrow> u64 \<Rightarrow> nat \<Rightarrow> nat" where
  "keep_loop [] max_size tot keep_count = keep_count"
| "keep_loop (f # fs) max_size tot keep_count =
     (let next_size = saturating_add tot (fi_size f)
      in if next_size > max_size then keep_count else keep_loop fs max_size next_size (keep_count + 1))"

definition delete_by_size :: "file_info list \<Rightarrow> u64 \<Rightarrow> file_info list" where
  "delete_by_size files max_size = drop (keep_loop files max_size 0 0) files"

section \<open>A run\<close>

text \<open>The files removed, and how many could not be.\<close>

fun delete_loop :: "purge_env \<Rightarrow> file_info list \<Rightarrow> file_info list \<Rightarrow> nat \<Rightarrow> file_info list \<times> nat" where
  "delete_loop env [] gone errors = (gone, errors)"
| "delete_loop env (f # fs) gone errors =
     (case pg_remove env (fi_name f) of
        None \<Rightarrow> delete_loop env fs (gone @ [f]) errors
      | Some e \<Rightarrow> delete_loop env fs gone (errors + 1))"

definition delete_files :: "purge_env \<Rightarrow> file_info list \<Rightarrow> (string + unit) \<times> file_info list" where
  "delete_files env files =
     (case delete_loop env files [] 0 of
        (gone, errors) \<Rightarrow> (if errors > 0 then Inl ''failed to delete capture files'' else Inr (), gone))"

definition files_to_delete :: "purge_args \<Rightarrow> file_info list \<Rightarrow> file_info list option" where
  "files_to_delete args files =
     (case pa_keep_files args of
        Some keep_count \<Rightarrow> Some (delete_by_count files keep_count)
      | None \<Rightarrow> (case pa_max_size args of Some m \<Rightarrow> Some (delete_by_size files m) | None \<Rightarrow> None))"

definition run_purge_once :: "purge_env \<Rightarrow> purge_args \<Rightarrow> (string + unit) \<times> file_info list" where
  "run_purge_once env args =
     (case collect_pcap_files env (pa_prefix args) of
        Inl e \<Rightarrow> (Inl e, [])
      | Inr files \<Rightarrow>
          (if files = [] then (Inr (), [])
           else
             (case files_to_delete args files of
                None \<Rightarrow> (Inl ''Either --keep-files or --max-size must be specified'', [])
              | Some del \<Rightarrow>
                  (if del = [] then (Inr (), [])
                   else if \<not> pa_force args then (Inr (), [])
                   else delete_files env del))))"

section \<open>Lemmas\<close>

text \<open>What makes a file of the directory one that a purge may remove.\<close>

definition purgeable :: "purge_args \<Rightarrow> (string + dir_item) list \<Rightarrow> file_info \<Rightarrow> bool" where
  "purgeable args es f \<longleftrightarrow>
     (\<exists>d. Inr d \<in> set es \<and> di_name d = fi_name f \<and> di_is_file d = Inr True
        \<and> di_metadata d = Inr (fi_size f, Inr (fi_modified f)) \<and> selected (pa_prefix args) (fi_name f))"

lemma purgeable_Cons: "purgeable args es f \<Longrightarrow> purgeable args (e # es) f"
  by (auto simp: purgeable_def)

lemma collect_loop_purgeable:
  assumes "collect_loop (pa_prefix args) es files = Inr out"
  shows "set out = set files \<union> {f. purgeable args es f}"
  using assms
proof (induction es arbitrary: files)
  case Nil
  then show ?case by (simp add: purgeable_def)
next
  case (Cons e es)
  show ?case
  proof (cases e)
    case (Inl x)
    then show ?thesis using Cons.prems by simp
  next
    case (Inr d)
    show ?thesis
    proof (cases "di_is_file d = Inr True \<and> selected (pa_prefix args) (di_name d)")
      case False
      then have "collect_loop (pa_prefix args) es files = Inr out"
        using Cons.prems Inr by (auto split: sum.splits if_splits)
      moreover have "{f. purgeable args (e # es) f} = {f. purgeable args es f}"
        using False Inr by (auto simp: purgeable_def)
      ultimately show ?thesis using Cons.IH by simp
    next
      case True
      then obtain sz md where m: "di_metadata d = Inr (sz, Inr md)"
        using Cons.prems Inr by (auto split: sum.splits)
      let ?f = "\<lparr>fi_name = di_name d, fi_size = sz, fi_modified = md\<rparr>"
      have "collect_loop (pa_prefix args) es (files @ [?f]) = Inr out" using Cons.prems Inr True m by simp
      from Cons.IH [OF this] have out: "set out = insert ?f (set files \<union> {f. purgeable args es f})" by simp
      have new: "purgeable args (Inr d # es) f \<longleftrightarrow> f = ?f \<or> purgeable args es f" for f
        using True m by (cases f) (auto simp: purgeable_def)
      show ?thesis unfolding out Inr using new by auto
    qed
  qed
qed

definition total_size :: "file_info list \<Rightarrow> nat" where
  "total_size fs = sum_list (map (unat \<circ> fi_size) fs)"

text \<open>A total as the code computes it: one that does not fit is the largest u64.\<close>

definition capped :: "nat \<Rightarrow> nat" where "capped n = min n (2 ^ 64 - 1)"

lemma keep_loop_exact:
  assumes "unat t = capped n" and "t \<le> m"
  shows "let k = keep_loop fs m t 0
    in capped (n + total_size (take k fs)) \<le> unat m
      \<and> (k < length fs \<longrightarrow> unat m < capped (n + total_size (take (Suc k) fs)))"
proof -
  have shift: "keep_loop fs m t (Suc j) = Suc (keep_loop fs m t j)" for fs t j
    by (induction fs arbitrary: t j) (auto simp: Let_def)
  show ?thesis
    using assms
  proof (induction fs arbitrary: t n)
    case Nil
    then show ?case by (simp add: total_size_def word_le_nat_alt)
  next
    case (Cons f fs)
    let ?t = "saturating_add t (fi_size f)" and ?n = "n + unat (fi_size f)"
    have t: "unat ?t = capped ?n" using Cons.prems(1) by (auto simp: unat_saturating_add capped_def)
    show ?case
    proof (cases "?t > m")
      case True
      then show ?thesis using Cons.prems t by (simp add: total_size_def word_le_nat_alt word_less_nat_alt)
    next
      case False
      then show ?thesis
        using Cons.IH [OF t] shift [of fs ?t 0] by (simp add: Let_def not_less [symmetric] total_size_def add.assoc)
    qed
  qed
qed

lemma delete_loop_gone:
  "delete_loop env fs gone errors =
     (gone @ filter (\<lambda>f. pg_remove env (fi_name f) = None) fs,
      errors + length (filter (\<lambda>f. pg_remove env (fi_name f) \<noteq> None) fs))"
  by (induction env fs gone errors rule: delete_loop.induct) (auto split: option.splits)

lemma collect_pcap_files_ok:
  assumes "collect_pcap_files env pre = Inr files"
  shows "\<exists>es. pg_listing env = Inr es \<and> sorted (map age_key files)
    \<and> (\<exists>found. collect_loop pre es [] = Inr found \<and> set files = set found \<and> length files = length found)"
  using assms by (auto simp: collect_pcap_files_def split: if_splits)

text \<open>How many files are kept: the count, or as many as fit the size.\<close>

definition kept :: "purge_args \<Rightarrow> file_info list \<Rightarrow> file_info list \<Rightarrow> bool" where
  "kept args keep del =
     (case pa_keep_files args of
        Some k \<Rightarrow> length keep = min k (length keep + length del)
      | None \<Rightarrow>
          (case pa_max_size args of
             Some m \<Rightarrow> capped (total_size keep) \<le> unat m
               \<and> (case del of [] \<Rightarrow> True | f # fs \<Rightarrow> unat m < capped (total_size keep + unat (fi_size f)))
           | None \<Rightarrow> False))"

lemma files_to_delete_kept:
  assumes "files_to_delete args files = Some del"
  shows "\<exists>keep. files = keep @ del \<and> kept args keep del"
proof (cases "pa_keep_files args")
  case (Some k)
  then have "files = take k files @ del" "kept args (take k files) del"
    using assms by (auto simp: files_to_delete_def delete_by_count_def kept_def)
  then show ?thesis by blast
next
  case None
  then obtain m where m: "pa_max_size args = Some m" "del = delete_by_size files m"
    using assms by (auto simp: files_to_delete_def split: option.splits)
  let ?k = "keep_loop files m 0 0"
  have k: "capped (total_size (take ?k files)) \<le> unat m"
    "?k < length files \<Longrightarrow> unat m < capped (total_size (take (Suc ?k) files))"
    using keep_loop_exact [of 0 0 m files] by (auto simp: Let_def capped_def)
  have "files = take ?k files @ del" using m by (simp add: delete_by_size_def)
  moreover have "kept args (take ?k files) del"
  proof (cases "?k < length files")
    case True
    then have "del = files ! ?k # drop (Suc ?k) files" using m by (simp add: delete_by_size_def Cons_nth_drop_Suc)
    then show ?thesis using None m k True by (simp add: kept_def take_Suc_conv_app_nth total_size_def)
  next
    case False
    then show ?thesis using None m k by (simp add: kept_def delete_by_size_def)
  qed
  ultimately show ?thesis by blast
qed

text \<open>The files a run of forced removals takes, and its result.\<close>

definition removed :: "purge_env \<Rightarrow> purge_args \<Rightarrow> file_info list \<Rightarrow> file_info list" where
  "removed env args del =
     (if pa_force args then filter (\<lambda>f. pg_remove env (fi_name f) = None) del else [])"

lemma delete_files_removed:
  "delete_files env del =
     (if list_all (\<lambda>f. pg_remove env (fi_name f) = None) del then Inr ()
      else Inl ''failed to delete capture files'', filter (\<lambda>f. pg_remove env (fi_name f) = None) del)"
  by (auto simp: delete_files_def delete_loop_gone filter_empty_conv list_all_iff)

section \<open>Properties\<close>

text \<open>C15. A purge keeps the newest captures and removes only what exceeds the retention: a run either
  removes nothing, or the files of the listing that are regular, have the name of a capture and
  the prefix split, newest first, into those kept and the rest; by count the kept are as many as
  asked for, by size they fit and the next one would not; the files removed are the rest, less
  those whose removal failed, and none without the force option; the run succeeds exactly when no
  removal it tried failed.\<close>

theorem purge_keeps_newest:
  assumes "run_purge_once env args = (r, gone)" and "gone \<noteq> [] \<or> r = Inr ()"
  shows "\<exists>es keep del. pg_listing env = Inr es \<and> set (keep @ del) = {f. purgeable args es f}
    \<and> sorted (map age_key (keep @ del)) \<and> (keep @ del = [] \<or> kept args keep del)
    \<and> gone = removed env args del
    \<and> (r = Inr () \<longleftrightarrow> \<not> pa_force args \<or> list_all (\<lambda>f. pg_remove env (fi_name f) = None) del)"
proof -
  obtain files where files: "collect_pcap_files env (pa_prefix args) = Inr files"
    using assms by (auto simp: run_purge_once_def split: sum.splits)
  then obtain es found where es: "pg_listing env = Inr es" "sorted (map age_key files)"
    "collect_loop (pa_prefix args) es [] = Inr found" "set files = set found"
    using collect_pcap_files_ok by blast
  have all: "set files = {f. purgeable args es f}" using collect_loop_purgeable [OF es(3)] es(4) by simp
  show ?thesis
  proof (cases "files = []")
    case True
    then have "r = Inr ()" "gone = []" using assms(1) files by (auto simp: run_purge_once_def)
    then show ?thesis
      using es all True by (intro exI [of _ es] exI [of _ "[]"]) (auto simp: removed_def)
  next
    case False
    then obtain del where d: "files_to_delete args files = Some del"
      using assms files by (auto simp: run_purge_once_def split: option.splits)
    obtain keep where k: "files = keep @ del" "kept args keep del" using files_to_delete_kept [OF d] by blast
    have "gone = removed env args del
        \<and> (r = Inr () \<longleftrightarrow> \<not> pa_force args \<or> list_all (\<lambda>f. pg_remove env (fi_name f) = None) del)"
      using assms(1) files False d
      by (auto simp: run_purge_once_def removed_def delete_files_removed split: if_splits)
    then show ?thesis using es all k by (intro exI [of _ es] exI [of _ keep] exI [of _ del]) auto
  qed
qed

text \<open>An example: of three captures and another file, the oldest capture goes.\<close>

definition demo_item :: "string \<Rightarrow> u64 \<Rightarrow> int \<Rightarrow> string + dir_item" where
  "demo_item n sz md = Inr \<lparr>di_name = n, di_is_file = Inr True, di_metadata = Inr (sz, Inr md)\<rparr>"

definition demo_purge :: purge_env where
  "demo_purge = \<lparr>pg_exists = True, pg_is_dir = True,
     pg_listing = Inr [demo_item ''a.pcap'' 10 1, demo_item ''b.cap'' 10 3, demo_item ''notes'' 10 2],
     pg_remove = \<lambda>n. None\<rparr>"

definition demo_purge_args :: purge_args where
  "demo_purge_args = \<lparr>pa_keep_files = None, pa_max_size = Some 15, pa_prefix = None, pa_force = True\<rparr>"

lemmas demo_purge_eval = demo_purge_def demo_purge_args_def demo_item_def run_purge_once_def
  collect_pcap_files_def selected_def is_pcap_filename_def has_extension_def numbered_def suffix_def
  age_key_def files_to_delete_def delete_by_size_def delete_files_def saturating_add_def Let_def

theorem purge_keeps_newest_witness:
  "\<exists>es keep del. pg_listing demo_purge = Inr es \<and> set (keep @ del) = {f. purgeable demo_purge_args es f}
    \<and> kept demo_purge_args keep del
    \<and> [\<lparr>fi_name = ''a.pcap'', fi_size = 10, fi_modified = 1\<rparr>] = removed demo_purge demo_purge_args del"
proof -
  have run: "run_purge_once demo_purge demo_purge_args = (Inr (), [\<lparr>fi_name = ''a.pcap'', fi_size = 10, fi_modified = 1\<rparr>])"
    by (simp add: demo_purge_eval string_eval)
  from purge_keeps_newest [OF run] obtain es keep del where
    "pg_listing demo_purge = Inr es" "set (keep @ del) = {f. purgeable demo_purge_args es f}"
    "keep @ del = [] \<or> kept demo_purge_args keep del"
    "[\<lparr>fi_name = ''a.pcap'', fi_size = 10, fi_modified = 1\<rparr>] = removed demo_purge demo_purge_args del" by auto
  moreover from this(4) have "keep @ del \<noteq> []" by (cases del) (auto simp: removed_def split: if_splits)
  ultimately show ?thesis by blast
qed

end
