(* ===== verification/Retention.thy ===== *)
theory Retention
  imports Event_Sink
begin

text \<open>
  Retention: the SQLite task that deletes and archives old events (\<open>src/src/sqlite/retention.rs\<close>)
  and the deletion of old Elasticsearch indices (\<open>src/src/elastic/retention.rs\<close>). The table of
  events is a list of rows with the columns the statements read; the order in which SQLite returns
  rows of equal time, the size of the database file, failures and the clock are parameters, the
  clock for numbers of days within the range of chrono. A loop that need not end is a partial
  function: \<open>None\<close> is a run that never returns.
\<close>

section \<open>Settings\<close>

text \<open>The values of the configuration file, and those stored in the configuration database as a flag
  and a value.\<close>

record retention_config =
  rc_size :: "string + string option"
  rc_days :: "string + u64 option"
  rc_period :: "string + u64 option"
  rc_db_size :: "string + (bool \<times> u64) option"
  rc_db_days :: "string + (bool \<times> u64) option"
  rc_db_archive :: "string + (bool \<times> u64) option"

definition get_size :: "retention_config \<Rightarrow> u64" where
  "get_size cfg =
     (let stored = (case rc_db_size cfg of Inr (Some (True, n)) \<Rightarrow> n * 1000000000 | _ \<Rightarrow> 0)
      in case rc_size cfg of
           Inr (Some s) \<Rightarrow>
             (case parse_unsigned (2 ^ 64 - 1) s of
                Some n \<Rightarrow> of_nat n
              | None \<Rightarrow> (case parse_humansize s of Inr n \<Rightarrow> of_nat n | Inl e \<Rightarrow> stored))
         | _ \<Rightarrow> stored)"

definition DEFAULT_RANGE :: u64 where "DEFAULT_RANGE = 7"

definition some_days :: "u64 \<Rightarrow> u64 option" where
  "some_days days = (if days > 0 then Some days else None)"

definition get_days :: "retention_config \<Rightarrow> string + u64 option" where
  "get_days cfg =
     try_then (rc_days cfg)
       (\<lambda>d. case d of
          Some days \<Rightarrow> Inr (some_days days)
        | None \<Rightarrow>
            try_then (rc_period cfg)
              (\<lambda>p. case p of
                 Some days \<Rightarrow> Inr (some_days days)
               | None \<Rightarrow>
                   (case rc_db_days cfg of
                      Inr (Some (True, days)) \<Rightarrow> Inr (Some days)
                    | _ \<Rightarrow> Inr (some_days DEFAULT_RANGE))))"

section \<open>The table of events\<close>

record event_row =
  rw_id :: nat
  rw_ts :: int
  rw_escalated :: bool
  rw_archived :: bool
  rw_alert :: bool
  rw_history :: "string list"

type_synonym rows = "event_row list"

record retention_env =
  rt_order :: "rows \<Rightarrow> rows"
  rt_size :: "rows \<Rightarrow> string + nat"
  rt_fail :: "rows \<Rightarrow> string option"
  rt_before :: "u64 \<Rightarrow> int"
  rt_action :: string

text \<open>\<open>ORDER BY timestamp ASC\<close>: the same rows by time, those of equal time in any order.\<close>

definition sql_order_ok :: "(rows \<Rightarrow> rows) \<Rightarrow> bool" where
  "sql_order_ok order \<longleftrightarrow> (\<forall>rs. mset (order rs) = mset rs \<and> sorted (map rw_ts (order rs)))"

text \<open>\<open>DELETE .. WHERE rowid IN (SELECT rowid .. WHERE p ORDER BY timestamp ASC LIMIT n)\<close>.\<close>

definition delete_selected ::
    "retention_env \<Rightarrow> (event_row \<Rightarrow> bool) \<Rightarrow> nat \<Rightarrow> rows \<Rightarrow> (string + nat) \<times> rows" where
  "delete_selected env p limit rs =
     (case rt_fail env rs of
        Some e \<Rightarrow> (Inl e, rs)
      | None \<Rightarrow>
          (let ids = map rw_id (take limit (rt_order env (filter p rs)));
               left = filter (\<lambda>r. rw_id r \<notin> set ids) rs
           in (Inr (length rs - length left), left)))"

definition delete_oldest_events_n :: "retention_env \<Rightarrow> nat \<Rightarrow> rows \<Rightarrow> (string + nat) \<times> rows" where
  "delete_oldest_events_n env limit rs = delete_selected env (\<lambda>r. \<not> rw_escalated r) limit rs"

definition delete_older_than :: "retention_env \<Rightarrow> u64 \<Rightarrow> nat \<Rightarrow> rows \<Rightarrow> (string + nat) \<times> rows" where
  "delete_older_than env days limit rs =
     delete_selected env (\<lambda>r. rw_ts r < rt_before env days \<and> \<not> rw_escalated r) limit rs"

partial_function (option) delete_to_size ::
    "retention_env \<Rightarrow> nat \<Rightarrow> nat \<Rightarrow> rows \<Rightarrow> ((string + nat) \<times> rows) option" where
  "delete_to_size env bytes deleted rs =
     (case rt_size env rs of
        Inl e \<Rightarrow> Some (Inl e, rs)
      | Inr file_size \<Rightarrow>
          (if file_size < bytes then Some (Inr deleted, rs)
           else
             (case delete_oldest_events_n env 1000 rs of
                (Inl e, rs) \<Rightarrow> Some (Inl e, rs)
              | (Inr n, rs) \<Rightarrow> delete_to_size env bytes (deleted + n) rs)))"

text \<open>The update that archives old alerts, with the rows it changed.\<close>

definition archive_row :: "string \<Rightarrow> int \<Rightarrow> event_row \<Rightarrow> event_row" where
  "archive_row action before r =
     (if rw_alert r \<and> rw_ts r < before \<and> \<not> rw_archived r
      then r\<lparr>rw_archived := True, rw_history := rw_history r @ [action]\<rparr> else r)"

definition auto_archive_rows :: "retention_env \<Rightarrow> retention_config \<Rightarrow> rows \<Rightarrow> (string + nat) \<times> rows" where
  "auto_archive_rows env cfg rs =
     (case rc_db_archive cfg of
        Inl e \<Rightarrow> (Inl e, rs)
      | Inr (Some (True, days)) \<Rightarrow>
          (case rt_fail env rs of
             Some e \<Rightarrow> (Inl e, rs)
           | None \<Rightarrow>
               (let before = rt_before env days
                in (Inr (length (filter (\<lambda>r. rw_alert r \<and> rw_ts r < before \<and> \<not> rw_archived r) rs)),
                    map (archive_row (rt_action env) before) rs)))
      | Inr _ \<Rightarrow> (Inr 0, rs))"

section \<open>A pass of the task\<close>

text \<open>Whether the file shrinks when rows go: only in the full auto-vacuum mode.\<close>

definition size_enabled :: "bool \<Rightarrow> string + nat \<Rightarrow> bool" where
  "size_enabled retention_enabled auto_vacuum = (retention_enabled \<and> auto_vacuum = Inr 1)"

definition LIMIT_ROWS :: nat where "LIMIT_ROWS = 1000"

text \<open>By age, and whether the next pass follows in one second rather than sixty.\<close>

definition age_part :: "retention_env \<Rightarrow> retention_config \<Rightarrow> bool \<Rightarrow> rows \<Rightarrow> bool \<times> nat \<times> rows" where
  "age_part env cfg retention_enabled rs =
     (case (retention_enabled, get_days cfg) of
        (True, Inr (Some days)) \<Rightarrow>
          (if days > 0 then
             (case delete_older_than env days LIMIT_ROWS rs of
                (Inr n, rs) \<Rightarrow> (n = LIMIT_ROWS, n, rs)
              | (Inl e, rs) \<Rightarrow> (False, 0, rs))
           else (False, 0, rs))
      | _ \<Rightarrow> (False, 0, rs))"

text \<open>One pass: by size when the database can shrink, by age, then the archiving. The result is the
  delay in seconds, the events deleted, and the table; \<open>None\<close> when the pass never ends.\<close>

definition retention_pass ::
    "retention_env \<Rightarrow> retention_config \<Rightarrow> bool \<Rightarrow> string + nat \<Rightarrow> rows \<Rightarrow> (nat \<times> nat \<times> rows) option" where
  "retention_pass env cfg retention_enabled auto_vacuum rs =
     Option.bind
       (if size_enabled retention_enabled auto_vacuum \<and> get_size cfg > 0
        then map_option (\<lambda>(r, rs). (case r of Inr n \<Rightarrow> n | Inl e \<Rightarrow> 0, rs)) (delete_to_size env (unat (get_size cfg)) 0 rs)
        else Some (0, rs))
       (\<lambda>(n1, rs). case age_part env cfg retention_enabled rs of
          (again, n2, rs) \<Rightarrow>
            Some (if again then 1 else 60, n1 + n2, snd (auto_archive_rows env cfg rs)))"

section \<open>Elasticsearch indices\<close>

text \<open>The first date in a name, four, two and two digits with dots; a name is ASCII.\<close>

definition date_at :: "string \<Rightarrow> bool" where
  "date_at s \<longleftrightarrow> length s \<ge> 10 \<and> list_all is_digit (take 4 s) \<and> s ! 4 = CHR ''.''
     \<and> list_all is_digit (take 2 (drop 5 s)) \<and> s ! 7 = CHR ''.'' \<and> list_all is_digit (take 2 (drop 8 s))"

fun find_date :: "string \<Rightarrow> (nat \<times> nat \<times> nat) option" where
  "find_date [] = None"
| "find_date (c # cs) =
     (if date_at (c # cs)
      then Some (digits_val (take 4 (c # cs)), digits_val (take 2 (drop 5 (c # cs))), digits_val (take 2 (drop 8 (c # cs))))
      else find_date cs)"

record index_env =
  ix_date :: "nat \<Rightarrow> nat \<Rightarrow> nat \<Rightarrow> int option"
  ix_age :: "int \<Rightarrow> int"
  ix_delete :: "string \<Rightarrow> string + nat"

definition parse_index_date :: "index_env \<Rightarrow> string \<Rightarrow> int option" where
  "parse_index_date env name = Option.bind (find_date name) (\<lambda>(y, m, d). ix_date env y m d)"

text \<open>The indices asked to be deleted, and the count.\<close>

fun do_delete_indices :: "index_env \<Rightarrow> u64 \<Rightarrow> bool \<Rightarrow> string list \<Rightarrow> string list \<times> nat \<Rightarrow> string list \<times> nat" where
  "do_delete_indices env days force [] acc = acc"
| "do_delete_indices env days force (name # names) (asked, n) =
     (case parse_index_date env name of
        None \<Rightarrow> do_delete_indices env days force names (asked, n)
      | Some date \<Rightarrow>
          (if ix_age env date > sint days then
             (if force then
                (case ix_delete env name of
                   Inr status \<Rightarrow>
                     do_delete_indices env days force names
                       (asked @ [name], if 200 \<le> status \<and> status < 300 then n + 1 else n)
                 | Inl e \<Rightarrow> do_delete_indices env days force names (asked @ [name], n))
              else do_delete_indices env days force names (asked, n + 1))
           else do_delete_indices env days force names (asked, n)))"

text \<open>The setting of the index retention: absent or disabled deletes nothing.\<close>

definition delete_indices ::
    "index_env \<Rightarrow> string + (bool \<times> u64) option \<Rightarrow> string + string list \<Rightarrow> (string + unit) \<times> string list" where
  "delete_indices env config indices =
     (case config of
        Inl e \<Rightarrow> (Inl e, [])
      | Inr (Some (True, days)) \<Rightarrow>
          (case indices of
             Inl e \<Rightarrow> (Inl e, [])
           | Inr names \<Rightarrow> (Inr (), fst (do_delete_indices env days True names ([], 0))))
      | Inr _ \<Rightarrow> (Inr (), []))"

section \<open>Lemmas: a deletion\<close>

text \<open>What a statement deletes: rows that satisfy its condition, as many as there are up to the
  limit, none newer than a row that satisfies it and stays; the others stay in place.\<close>

definition oldest_gone :: "(event_row \<Rightarrow> bool) \<Rightarrow> nat \<Rightarrow> rows \<Rightarrow> nat \<Rightarrow> rows \<Rightarrow> bool" where
  "oldest_gone p limit rs n rs' \<longleftrightarrow>
     (\<exists>gone. mset rs = mset rs' + mset gone \<and> length gone = n \<and> n = min limit (length (filter p rs))
        \<and> list_all p gone \<and> (\<forall>r \<in> set gone. \<forall>q \<in> set rs'. p q \<longrightarrow> rw_ts r \<le> rw_ts q) \<and> subseq rs' rs)"

lemma sorted_take_drop:
  "sorted (map f xs) \<Longrightarrow> x \<in> set (take n xs) \<Longrightarrow> y \<in> set (drop n xs) \<Longrightarrow> f x \<le> f y"
  using sorted_append [of "map f (take n xs)" "map f (drop n xs)"]
  by (auto simp flip: map_append)

lemma delete_selected_oldest:
  assumes "sql_order_ok (rt_order env)" and "distinct (map rw_id rs)"
    and "delete_selected env p limit rs = (Inr n, rs')"
  shows "oldest_gone p limit rs n rs'"
proof -
  let ?F = "rt_order env (filter p rs)" and ?del = "take limit (rt_order env (filter p rs))"
  have m: "mset ?F = mset (filter p rs)" and srt: "sorted (map rw_ts ?F)" using assms(1) by (simp_all add: sql_order_ok_def)
  have d: "distinct rs" using assms(2) by (rule distinct_map [THEN iffD1, THEN conjunct1])
  have dF: "distinct ?F" using d m by (metis distinct_filter mset_eq_imp_distinct_iff)
  have sF: "set ?F = set (filter p rs)" using m by (rule mset_eq_setD)
  have inc: "set ?del \<subseteq> set (filter p rs)" using set_take_subset [of limit ?F] sF by simp
  have ids: "rw_id r \<in> set (map rw_id ?del) \<longleftrightarrow> r \<in> set ?del" if "r \<in> set rs" for r
    using assms(2) inc that by (auto simp: distinct_map inj_on_def)
  have left: "rs' = filter (\<lambda>r. r \<notin> set ?del) rs" and n: "n = length rs - length rs'"
    using assms(3) ids by (auto simp: delete_selected_def Let_def cong: filter_cong split: option.splits)
  let ?gone = "filter (\<lambda>r. r \<in> set ?del) rs"
  have g: "set ?gone = set ?del" using inc by auto
  then have len: "length ?gone = length ?del"
    using d dF by (metis distinct_card distinct_filter distinct_take)
  have ms: "mset rs = mset rs' + mset ?gone" unfolding left by (simp add: union_commute [of "mset _"])
  then have "length rs = length rs' + length ?gone" by (metis mset_append size_mset length_append)
  then have "length ?gone = n" using n by simp
  moreover have "n = min limit (length (filter p rs))"
    using \<open>length ?gone = n\<close> len mset_eq_length [OF m] by simp
  moreover have "list_all p ?gone" using inc by (auto simp: list_all_iff)
  moreover have "rw_ts r \<le> rw_ts q" if "r \<in> set ?gone" "q \<in> set rs'" "p q" for r q
  proof -
    have "q \<in> set ?F" "q \<notin> set ?del" using that left sF by auto
    then have "q \<in> set (drop limit ?F)" by (metis UnE append_take_drop_id set_append)
    moreover have "r \<in> set ?del" using that(1) by simp
    ultimately show ?thesis using sorted_take_drop [OF srt] by blast
  qed
  moreover have "subseq rs' rs" unfolding left by (rule subseq_filter_left)
  ultimately show ?thesis unfolding oldest_gone_def using ms by blast
qed

lemma delete_selected_filter: "\<exists>q. snd (delete_selected env p limit rs) = filter q rs"
  by (auto simp: delete_selected_def Let_def split: option.splits intro: exI [of _ "\<lambda>_. True"])

section \<open>Lemmas: deleting to a size\<close>

text \<open>A round of the loop, and when the loop stops before one.\<close>

definition purge_round :: "retention_env \<Rightarrow> rows \<Rightarrow> rows" where
  "purge_round env rs = snd (delete_oldest_events_n env 1000 rs)"

definition stops :: "retention_env \<Rightarrow> nat \<Rightarrow> rows \<Rightarrow> bool" where
  "stops env bytes rs \<longleftrightarrow> rt_fail env rs \<noteq> None
     \<or> (case rt_size env rs of Inl e \<Rightarrow> True | Inr file_size \<Rightarrow> file_size < bytes)"

lemma delete_oldest_cases:
  "delete_oldest_events_n env 1000 rs =
     (case rt_fail env rs of Some e \<Rightarrow> (Inl e, rs)
      | None \<Rightarrow> (Inr (length rs - length (purge_round env rs)), purge_round env rs))"
  by (simp add: purge_round_def delete_oldest_events_n_def delete_selected_def Let_def split: option.splits)

lemma stops_returns: "stops env bytes rs \<Longrightarrow> delete_to_size env bytes n rs \<noteq> None"
  by (subst delete_to_size.simps) (auto simp: stops_def delete_oldest_cases split: sum.splits option.splits)

lemma goes_on:
  "\<not> stops env bytes rs \<Longrightarrow> \<exists>m. delete_to_size env bytes n rs = delete_to_size env bytes m (purge_round env rs)"
  by (subst delete_to_size.simps) (auto simp: stops_def delete_oldest_cases split: sum.splits option.splits)

lemma rounds_return: "stops env bytes ((purge_round env ^^ k) rs) \<Longrightarrow> delete_to_size env bytes n rs \<noteq> None"
proof (induction k arbitrary: rs n)
  case 0
  then show ?case using stops_returns by simp
next
  case (Suc k)
  show ?case
  proof (cases "stops env bytes rs")
    case True
    then show ?thesis by (rule stops_returns)
  next
    case False
    then obtain m where "delete_to_size env bytes n rs = delete_to_size env bytes m (purge_round env rs)"
      using goes_on by blast
    moreover have "stops env bytes ((purge_round env ^^ k) (purge_round env rs))"
      using Suc.prems by (simp add: funpow_swap1)
    ultimately show ?thesis using Suc.IH by metis
  qed
qed

lemma returns_rounds:
  assumes "delete_to_size env bytes n rs = Some y"
  shows "\<exists>k. stops env bytes ((purge_round env ^^ k) rs)"
proof (rule delete_to_size.raw_induct
    [where P = "\<lambda>env bytes n rs y. \<exists>k. stops env bytes ((purge_round env ^^ k) rs)", OF _ assms], goal_cases)
  case (1 delete_to_size' env bytes n rs y)
  show ?case
  proof (cases "stops env bytes rs")
    case True
    then show ?thesis by (intro exI [of _ 0]) simp
  next
    case False
    then have "\<exists>m. delete_to_size' env bytes m (purge_round env rs) = Some y"
      using 1(2) by (auto simp: stops_def delete_oldest_cases split: sum.splits option.splits if_splits)
    then obtain k where "stops env bytes ((purge_round env ^^ k) (purge_round env rs))" using 1(1) by blast
    then show ?thesis by (intro exI [of _ "Suc k"]) (simp add: funpow_swap1)
  qed
qed

lemma purge_round_shrinks: "purge_round env rs \<noteq> rs \<Longrightarrow> length (purge_round env rs) < length rs"
proof -
  assume ne: "purge_round env rs \<noteq> rs"
  obtain q where q: "purge_round env rs = filter q rs"
    using delete_selected_filter [of env _ 1000 rs] by (auto simp: purge_round_def delete_oldest_events_n_def)
  then obtain x where "x \<in> set rs" "\<not> q x" using ne by (metis filter_id_conv)
  then show ?thesis unfolding q by (rule length_filter_less)
qed

lemma rounds_fixed: "purge_round env rs = rs \<Longrightarrow> (purge_round env ^^ k) rs = rs"
  by (induction k) auto

text \<open>The first round at which the loop stops comes within as many rounds as there are rows.\<close>

lemma rounds_bound:
  "stops env bytes ((purge_round env ^^ k) rs) \<Longrightarrow> \<exists>j \<le> length rs. stops env bytes ((purge_round env ^^ j) rs)"
proof (induction "length rs" arbitrary: rs k rule: less_induct)
  case less
  show ?case
  proof (cases "stops env bytes rs \<or> purge_round env rs = rs")
    case True
    then show ?thesis using less.prems rounds_fixed [of env rs k] by (intro exI [of _ 0]) auto
  next
    case False
    then obtain k' where k: "k = Suc k'" using less.prems by (cases k) auto
    have lt: "length (purge_round env rs) < length rs" using False purge_round_shrinks by blast
    have "stops env bytes ((purge_round env ^^ k') (purge_round env rs))"
      using less.prems k by (simp add: funpow_swap1)
    from less.hyps [OF lt this] obtain j where
      "j \<le> length (purge_round env rs)" "stops env bytes ((purge_round env ^^ j) (purge_round env rs))" by blast
    then show ?thesis using lt by (intro exI [of _ "Suc j"]) (simp add: funpow_swap1)
  qed
qed

lemma delete_to_size_returns:
  "delete_to_size env bytes n rs \<noteq> None \<longleftrightarrow> (\<exists>k \<le> length rs. stops env bytes ((purge_round env ^^ k) rs))"
  using rounds_return returns_rounds rounds_bound by (metis not_None_eq)

text \<open>With nothing but escalated events a round deletes nothing.\<close>

lemma escalated_fixed:
  assumes "sql_order_ok (rt_order env)" and "list_all rw_escalated rs"
  shows "purge_round env rs = rs"
proof -
  have "filter (\<lambda>r. \<not> rw_escalated r) rs = []" using assms(2) by (simp add: filter_empty_conv list_all_iff)
  moreover have "rt_order env [] = []" using assms(1) by (metis mset_zero_iff sql_order_ok_def)
  ultimately show ?thesis
    by (simp add: purge_round_def delete_oldest_events_n_def delete_selected_def split: option.splits)
qed

section \<open>Lemmas: a pass\<close>

text \<open>What survives a deletion: a sublist of the rows with every escalated row in it.\<close>

definition spares :: "rows \<Rightarrow> rows \<Rightarrow> bool" where
  "spares rs rs' \<longleftrightarrow> subseq rs' rs \<and> filter rw_escalated rs' = filter rw_escalated rs"

lemma spares_refl: "spares rs rs"
  by (simp add: spares_def)

lemma spares_trans: "spares rs1 rs2 \<Longrightarrow> spares rs2 rs3 \<Longrightarrow> spares rs1 rs3"
  by (auto simp: spares_def intro: subseq_order.trans)

lemma spares_distinct: "spares rs rs' \<Longrightarrow> distinct (map rw_id rs) \<Longrightarrow> distinct (map rw_id rs')"
  by (auto simp: spares_def subseq_conv_nths nths_map dest: distinct_nthsI)

lemma delete_selected_spares:
  assumes "sql_order_ok (rt_order env)" and "distinct (map rw_id rs)" and "\<And>r. p r \<Longrightarrow> \<not> rw_escalated r"
  shows "spares rs (snd (delete_selected env p limit rs))"
proof -
  let ?del = "take limit (rt_order env (filter p rs))"
  have inc: "set ?del \<subseteq> set (filter p rs)"
    using set_take_subset [of limit] assms(1) by (metis mset_eq_setD sql_order_ok_def)
  have keep: "rw_id r \<notin> rw_id ` set ?del" if "r \<in> set rs" "rw_escalated r" for r
  proof
    assume "rw_id r \<in> rw_id ` set ?del"
    then obtain d where "d \<in> set ?del" "rw_id d = rw_id r" by (metis imageE)
    moreover from this(1) have "d \<in> set rs" "p d" using inc by auto
    ultimately have "d = r" using assms(2) that(1) by (auto simp: distinct_map inj_on_def)
    then show False using \<open>p d\<close> assms(3) that(2) by blast
  qed
  have "filter rw_escalated (filter (\<lambda>r. rw_id r \<notin> rw_id ` set ?del) rs) = filter rw_escalated rs"
    unfolding filter_filter using keep by (intro filter_cong) blast+
  then show ?thesis
    by (auto simp: delete_selected_def Let_def spares_def split: option.splits)
qed

lemma delete_to_size_spares:
  assumes "sql_order_ok (rt_order env)" and "distinct (map rw_id rs)" and "delete_to_size env bytes n rs = Some (r, rs')"
  shows "spares rs rs'"
proof -
  have "sql_order_ok (rt_order env) \<longrightarrow> distinct (map rw_id rs) \<longrightarrow> spares rs (snd (r, rs'))"
  proof (rule delete_to_size.raw_induct
      [where P = "\<lambda>env bytes n rs y. sql_order_ok (rt_order env) \<longrightarrow> distinct (map rw_id rs) \<longrightarrow> spares rs (snd y)",
        OF _ assms(3)], goal_cases)
    case (1 f env bytes n rs y)
    have sp: "sql_order_ok (rt_order env) \<Longrightarrow> distinct (map rw_id rs) \<Longrightarrow> spares rs (purge_round env rs)"
      using delete_selected_spares by (simp add: purge_round_def delete_oldest_events_n_def)
    have c: "snd y = rs \<or> (\<exists>m. f env bytes m (purge_round env rs) = Some y)"
      using 1(2) by (auto simp: delete_oldest_cases split: sum.splits option.splits if_splits)
    show ?case
    proof (intro impI)
      assume a: "sql_order_ok (rt_order env)" "distinct (map rw_id rs)"
      from c show "spares rs (snd y)"
        using 1(1) a sp [OF a] spares_distinct [OF sp [OF a] a(2)] spares_refl spares_trans by metis
    qed
  qed
  then show ?thesis using assms by simp
qed

lemma archive_row_keeps:
  "rw_id (archive_row a b r) = rw_id r" "rw_escalated (archive_row a b r) = rw_escalated r"
  "rw_ts (archive_row a b r) = rw_ts r" "rw_alert (archive_row a b r) = rw_alert r"
  by (simp_all add: archive_row_def)

section \<open>Lemmas: dates in names\<close>

definition date_char :: "char \<Rightarrow> bool" where "date_char c \<longleftrightarrow> is_digit c \<or> c = CHR ''.''"

lemma ten_cases:
  assumes "length s \<ge> 10"
  obtains a b c d e f g h i j r where "s = a # b # c # d # e # f # g # h # i # j # r"
  using assms by (auto simp: numeral_eq_Suc Suc_le_length_iff)

lemma date_at_chars: "date_at s \<Longrightarrow> length s \<ge> 10 \<and> list_all date_char (take 10 s)"
proof -
  assume d: "date_at s"
  then have "length s \<ge> 10" by (simp add: date_at_def)
  then show ?thesis
    by (rule ten_cases) (use d in \<open>auto simp: date_at_def date_char_def\<close>)
qed

lemma date_at_append: "length s \<ge> 10 \<Longrightarrow> date_at (s @ t) = date_at s"
  by (auto elim!: ten_cases simp: date_at_def)

text \<open>A date is not found across a character that is in none.\<close>

lemma find_date_skip:
  assumes "find_date base = None" and "\<not> date_char c"
  shows "find_date (base @ c # t) = find_date t"
  using assms(1)
proof (induction base)
  case Nil
  have "\<not> date_at (c # t)" using date_at_chars [of "c # t"] assms(2) by auto
  then show ?case by simp
next
  case (Cons b base)
  have n: "\<not> date_at (b # base)" "find_date base = None" using Cons.prems by (auto split: if_splits)
  have "\<not> date_at ((b # base) @ c # t)"
  proof (cases "length (b # base) \<ge> 10")
    case True
    then show ?thesis using n(1) date_at_append by blast
  next
    case False
    then have "c \<in> set (take 10 ((b # base) @ c # t))" by (auto simp: take_Cons')
    then show ?thesis using date_at_chars assms(2) by (metis list_all_iff)
  qed
  then show ?case using Cons.IH [OF n(2)] by simp
qed

lemma find_date_here: "date_at s \<Longrightarrow>
    find_date s = Some (digits_val (take 4 s), digits_val (take 2 (drop 5 s)), digits_val (take 2 (drop 8 s)))"
  by (cases s) (auto simp: date_at_def)

lemma find_date_none: "list_all (\<lambda>c. \<not> is_digit c) s \<Longrightarrow> find_date s = None"
proof (induction s)
  case Nil
  then show ?case by simp
next
  case (Cons c s)
  have "\<not> date_at (c # s)" using Cons.prems by (auto simp: date_at_def)
  then show ?case using Cons by simp
qed

text \<open>An index that is too old.\<close>

definition too_old :: "index_env \<Rightarrow> u64 \<Rightarrow> string \<Rightarrow> bool" where
  "too_old env days name =
     (case parse_index_date env name of None \<Rightarrow> False | Some date \<Rightarrow> ix_age env date > int (unat days))"

definition deleted_ok :: "index_env \<Rightarrow> string \<Rightarrow> bool" where
  "deleted_ok env name = (case ix_delete env name of Inl e \<Rightarrow> False | Inr status \<Rightarrow> 200 \<le> status \<and> status < 300)"

lemma sint_small:
  assumes "unat (days :: u64) < 2 ^ 63"
  shows "sint days = int (unat days)"
proof -
  have "int (unat days) < int (2 ^ 63)" using assms by (simp only: of_nat_less_iff)
  then have "int (unat days) < 2 ^ 63" by (simp only: of_nat_power of_nat_numeral)
  moreover have "- (2 ^ 63) \<le> int (unat days)" by (rule order_trans [of _ 0]) simp_all
  ultimately have "signed_take_bit 63 (int (unat days)) = int (unat days)" by (intro signed_take_bit_int_eq_self)
  moreover have "uint days = int (unat days)" by simp
  moreover have "LENGTH(64) - Suc 0 = 63" by simp
  ultimately show ?thesis by (simp only: sint_uint)
qed

lemma do_delete_indices_filter:
  assumes "unat days < 2 ^ 63"
  shows "do_delete_indices env days force names (asked, n) =
    (asked @ (if force then filter (too_old env days) names else []),
     n + length (filter (\<lambda>name. too_old env days name \<and> (force \<longrightarrow> deleted_ok env name)) names))"
proof (induction names arbitrary: asked n)
  case Nil
  then show ?case by simp
next
  case (Cons name names)
  then show ?case
    by (cases force) (auto simp: too_old_def deleted_ok_def sint_small [OF assms] split: option.splits sum.splits)
qed

section \<open>Properties\<close>

text \<open>A deletion by age removes the oldest events and only those: at most 1000, all older than the
  retention period and not escalated, none newer than one that it could have removed and left;
  the others stay, in place.\<close>

theorem delete_older_than_exact:
  assumes "sql_order_ok (rt_order env)" and "distinct (map rw_id rs)"
    and "delete_older_than env days LIMIT_ROWS rs = (Inr n, rs')"
  shows "oldest_gone (\<lambda>r. rw_ts r < rt_before env days \<and> \<not> rw_escalated r) 1000 rs n rs'"
  using delete_selected_oldest [OF assms(1,2)] assms(3) by (simp add: delete_older_than_def LIMIT_ROWS_def)


text \<open>C13. A pass of the retention task never loses an escalated event: the events that are left are,
  in order, some of those there were, archived or not, and all the escalated ones are among them.\<close>

theorem retention_keeps_escalated:
  assumes "sql_order_ok (rt_order env)" and "distinct (map rw_id rs)"
    and "retention_pass env cfg enabled auto_vacuum rs = Some (delay, n, rs')"
  shows "subseq (map rw_id rs') (map rw_id rs)
    \<and> map rw_id (filter rw_escalated rs') = map rw_id (filter rw_escalated rs)
    \<and> (delay = 1 \<or> delay = 60)"
proof -
  let ?size = "if size_enabled enabled auto_vacuum \<and> get_size cfg > 0
        then map_option (\<lambda>(r, rs). (case r of Inr n \<Rightarrow> n | Inl e \<Rightarrow> 0, rs)) (delete_to_size env (unat (get_size cfg)) 0 rs)
        else Some (0, rs)"
  obtain n1 rs1 where p: "?size = Some (n1, rs1)"
    using assms(3) by (cases ?size) (auto simp: retention_pass_def)
  then have s: "rs1 = rs \<or> (\<exists>r. delete_to_size env (unat (get_size cfg)) 0 rs = Some (r, rs1))"
    by (auto split: if_splits)
  obtain again n2 rs2 where a: "age_part env cfg enabled rs1 = (again, n2, rs2)" by (metis prod_cases3)
  have e: "rs' = snd (auto_archive_rows env cfg rs2)" "delay = (if again then 1 else 60)"
    using assms(3) unfolding retention_pass_def p by (simp_all add: a)
  have 1: "spares rs rs1" using s delete_to_size_spares [OF assms(1,2)] spares_refl by auto
  have d1: "distinct (map rw_id rs1)" by (rule spares_distinct [OF 1 assms(2)])
  have "rs2 = rs1 \<or> (\<exists>days. rs2 = snd (delete_older_than env days LIMIT_ROWS rs1))"
    using a by (auto simp: age_part_def split: bool.splits sum.splits option.splits if_splits prod.splits) (metis snd_conv)+
  moreover have "spares rs1 (snd (delete_older_than env days LIMIT_ROWS rs1))" for days
    unfolding delete_older_than_def by (rule delete_selected_spares [OF assms(1) d1]) simp
  ultimately have 2: "spares rs1 rs2" using spares_refl by auto
  have "\<exists>f. rs' = map f rs2 \<and> (\<forall>r. rw_id (f r) = rw_id r \<and> rw_escalated (f r) = rw_escalated r)"
    using e(1) by (auto simp: auto_archive_rows_def archive_row_keeps Let_def
        split: sum.splits option.splits bool.splits intro: exI [of _ id] exI [of _ "archive_row _ _"])
  then obtain f where f: "rs' = map f rs2" "\<And>r. rw_id (f r) = rw_id r" "\<And>r. rw_escalated (f r) = rw_escalated r" by blast
  have m: "map rw_id rs' = map rw_id rs2" "map rw_id (filter rw_escalated rs') = map rw_id (filter rw_escalated rs2)"
    using f by (simp_all add: filter_map comp_def)
  from spares_trans [OF 1 2] m e(2) show ?thesis by (simp add: spares_def subseq_map)
qed

text \<open>Alerts are archived by age once: the update changes exactly the alerts older than the
  configured days that are not archived, marks each archived with one history entry, counts them,
  and run again at the same time changes nothing.\<close>

theorem age_archive_once:
  assumes "rc_db_archive cfg = Inr (Some (True, days))" and "auto_archive_rows env cfg rs = (Inr n, rs')"
  shows "length rs' = length rs \<and> n = length (filter (\<lambda>i. rs' ! i \<noteq> rs ! i) [0..<length rs])
    \<and> list_all2 (\<lambda>r r'. r' = (if rw_alert r \<and> rw_ts r < rt_before env days \<and> \<not> rw_archived r
         then r\<lparr>rw_archived := True, rw_history := rw_history r @ [rt_action env]\<rparr> else r)) rs rs'
    \<and> snd (auto_archive_rows env cfg rs') = rs'"
proof -
  let ?b = "rt_before env days" and ?f = "archive_row (rt_action env) (rt_before env days)"
  let ?p = "\<lambda>r. rw_alert r \<and> rw_ts r < ?b \<and> \<not> rw_archived r"
  have r: "rs' = map ?f rs" "n = length (filter ?p rs)"
    using assms by (auto simp: auto_archive_rows_def Let_def split: option.splits)
  have change: "?f r \<noteq> r \<longleftrightarrow> ?p r" for r
    by (auto simp: archive_row_def dest: arg_cong [where f = rw_archived])
  have "length (filter (\<lambda>i. rs' ! i \<noteq> rs ! i) [0..<length rs]) = length (filter (\<lambda>i. ?p (rs ! i)) [0..<length rs])"
    using r(1) change by (intro arg_cong [where f = length] filter_cong) auto
  also have "\<dots> = length (filter ?p (map (\<lambda>i. rs ! i) [0..<length rs]))"
    by (simp add: filter_map comp_def)
  also have "\<dots> = n" by (simp add: r(2) map_nth)
  finally have "n = length (filter (\<lambda>i. rs' ! i \<noteq> rs ! i) [0..<length rs])" by simp
  moreover have "map ?f rs' = rs'" using r(1) by (simp add: archive_row_def)
  then have "snd (auto_archive_rows env cfg rs') = rs'"
    using assms(1) by (auto simp: auto_archive_rows_def Let_def split: option.splits)
  moreover have "list_all2 (\<lambda>r r'. r' = (if ?p r
         then r\<lparr>rw_archived := True, rw_history := rw_history r @ [rt_action env]\<rparr> else r)) rs rs'"
    by (simp add: r(1) list_all2_conv_all_nth archive_row_def)
  ultimately show ?thesis using r(1) by simp
qed

text \<open>Only indices whose date is older than the retention period are deleted, and all of those
  are tried; without force nothing is deleted and the count says what would be; with it, the count
  is that of the deletions the server confirmed. An index without a date is left alone.\<close>

theorem indices_deleted_exact:
  assumes "unat days < 2 ^ 63" and "do_delete_indices env days force names ([], 0) = (asked, n)"
  shows "asked = (if force then filter (too_old env days) names else [])
    \<and> n = length (filter (\<lambda>name. too_old env days name \<and> (force \<longrightarrow> deleted_ok env name)) names)"
  using do_delete_indices_filter [OF assms(1), of env force names "[]" 0] assms(2) by auto

text \<open>C14. The date in the name of an index the importer writes to is the one retention reads: for a
  base name without a date, the name selected for an event of any type on a day is read back as
  that day, the names of the separate statistics indices included.\<close>

theorem index_date_roundtrip:
  assumes "find_date base = None" and "date_at date" and "length date = 10"
  shows "find_date (select_index base False opensearch event_type date) =
    Some (digits_val (take 4 date), digits_val (take 2 (drop 5 date)), digits_val (drop 8 date))"
proof -
  have dash: "\<not> date_char (CHR ''-'')" by (simp add: date_char_def is_digit_def less_eq_char_def)
  have "find_date ''stats'' = None" by (simp add: date_at_def)
  then have "find_date (''stats'' @ CHR ''-'' # date) = find_date date" using dash by (rule find_date_skip)
  then have "find_date (base @ ''-stats-'' @ date) = find_date date"
    using find_date_skip [OF assms(1) dash, of "''stats'' @ CHR ''-'' # date"] by simp
  moreover have "find_date (base @ ''-'' @ date) = find_date date"
    using find_date_skip [OF assms(1) dash, of date] by simp
  ultimately show ?thesis
    using find_date_here [OF assms(2)] assms(3) by (simp add: select_index_def)
qed

section \<open>Examples\<close>

definition demo_row :: "nat \<Rightarrow> bool \<Rightarrow> event_row" where
  "demo_row i esc = \<lparr>rw_id = i, rw_ts = int i, rw_escalated = esc, rw_archived = False, rw_alert = True, rw_history = []\<rparr>"

definition demo_retention :: retention_env where
  "demo_retention = \<lparr>rt_order = sort_key rw_ts, rt_size = \<lambda>rs. Inr (length rs), rt_fail = \<lambda>rs. None,
     rt_before = \<lambda>d. 2, rt_action = ''aged''\<rparr>"

definition demo_settings :: retention_config where
  "demo_settings = \<lparr>rc_size = Inr None, rc_days = Inr (Some 7), rc_period = Inr None, rc_db_size = Inr None,
     rc_db_days = Inr None, rc_db_archive = Inr (Some (True, 1))\<rparr>"

definition demo_rows :: rows where "demo_rows = [demo_row 3 False, demo_row 1 False, demo_row 0 True]"

lemmas demo_retention_eval = demo_retention_def demo_settings_def demo_rows_def demo_row_def delete_older_than_def
  delete_selected_def LIMIT_ROWS_def auto_archive_rows_def archive_row_def Let_def

lemma demo_order: "sql_order_ok (rt_order demo_retention)"
  by (simp add: sql_order_ok_def demo_retention_def)

lemma demo_distinct: "distinct (map rw_id demo_rows)"
  by (simp add: demo_rows_def demo_row_def)

theorem delete_older_than_exact_witness:
  "oldest_gone (\<lambda>r. rw_ts r < 2 \<and> \<not> rw_escalated r) 1000 demo_rows 1 [demo_row 3 False, demo_row 0 True]"
proof -
  have "delete_older_than demo_retention 7 LIMIT_ROWS demo_rows = (Inr 1, [demo_row 3 False, demo_row 0 True])"
    by (simp add: demo_retention_eval)
  from delete_older_than_exact [OF demo_order demo_distinct this] show ?thesis
    by (simp add: demo_retention_def)
qed


theorem retention_keeps_escalated_witness:
  "\<exists>delay n rs'. retention_pass demo_retention demo_settings True (Inr 0) demo_rows = Some (delay, n, rs')
    \<and> map rw_id (filter rw_escalated rs') = [0]"
proof -
  obtain delay n rs' where p: "retention_pass demo_retention demo_settings True (Inr 0) demo_rows = Some (delay, n, rs')"
    by (cases "retention_pass demo_retention demo_settings True (Inr 0) demo_rows")
       (auto simp: retention_pass_def size_enabled_def split: prod.splits)
  from retention_keeps_escalated [OF demo_order demo_distinct p] p show ?thesis
    by (auto simp: demo_rows_def demo_row_def)
qed

theorem age_archive_once_witness:
  "\<exists>rs'. auto_archive_rows demo_retention demo_settings demo_rows = (Inr 2, rs')
    \<and> snd (auto_archive_rows demo_retention demo_settings rs') = rs'"
proof -
  have s: "rc_db_archive demo_settings = Inr (Some (True, 1))" by (simp add: demo_settings_def)
  obtain rs' where a: "auto_archive_rows demo_retention demo_settings demo_rows = (Inr 2, rs')"
    by (simp add: demo_retention_eval)
  from age_archive_once [OF s a] a show ?thesis by blast
qed

definition demo_indices :: index_env where
  "demo_indices = \<lparr>ix_date = \<lambda>y m d. Some (int (10000 * y + 100 * m + d)), ix_age = \<lambda>t. 20260110 - t,
     ix_delete = \<lambda>n. Inr 200\<rparr>"

theorem indices_deleted_exact_witness:
  "fst (do_delete_indices demo_indices 5 True [''e-2026.01.01'', ''e-2026.01.09'', ''e''] ([], 0)) = [''e-2026.01.01'']"
proof -
  let ?names = "[''e-2026.01.01'', ''e-2026.01.09'', ''e'']"
  obtain asked n where d: "do_delete_indices demo_indices 5 True ?names ([], 0) = (asked, n)" by fastforce
  have "unat (5 :: u64) < 2 ^ 63" by simp
  from indices_deleted_exact [OF this d] have "asked = filter (too_old demo_indices 5) ?names" by simp
  moreover have "find_date ''e-2026.01.01'' = Some (2026, 1, 1)" "find_date ''e-2026.01.09'' = Some (2026, 1, 9)"
    "find_date ''e'' = None"
    by (simp_all add: date_at_def is_digit_def less_eq_char_def digits_val_def digit_val_def)
  ultimately show ?thesis by (simp add: d too_old_def parse_index_date_def demo_indices_def)
qed

theorem index_date_roundtrip_witness:
  "find_date (select_index ''logstash'' False True (Some ''stats'') ''2026.01.09'') = Some (2026, 1, 9)"
proof -
  have "find_date ''logstash'' = None" "date_at ''2026.01.09''"
    by (simp_all add: date_at_def string_eval)
  from index_date_roundtrip [OF this, of True "Some ''stats''"] show ?thesis by (simp add: string_eval)
qed

end
