(* ===== verification/Sql_Builder.thy ===== *)
theory Sql_Builder
  imports Query_Parser
begin

text \<open>
  The SQL of an event query (\<open>src/src/sqlite/builder.rs\<close>): the builder, the translation of the
  elements of a query string, and the queries the repository makes with it (events, counts,
  aggregations, event types and the histogram). The arguments of a statement are bound by sqlx,
  whose encoding of texts and integers does not fail; a timestamp is known by its nanoseconds.
\<close>

section \<open>The builder\<close>

datatype sql_arg = Arg_Text string | Arg_Int int

record query_builder =
  qb_fts :: bool
  qb_select :: "string list"
  qb_from :: "string list"
  qb_left_join :: "string list"
  qb_wheres :: "string list"
  qb_group_by :: "string list"
  qb_order_by :: "(string \<times> string) option"
  qb_limit :: int
  qb_fts_phrases :: "string list"
  qb_args :: "sql_arg list"

definition builder_new :: "bool \<Rightarrow> query_builder" where
  "builder_new fts = \<lparr>qb_fts = fts, qb_select = [], qb_from = [], qb_left_join = [], qb_wheres = [], qb_group_by = [],
     qb_order_by = None, qb_limit = 0, qb_fts_phrases = [], qb_args = []\<rparr>"

definition select_field :: "string \<Rightarrow> query_builder \<Rightarrow> query_builder" where
  "select_field field b = b\<lparr>qb_select := qb_select b @ [field]\<rparr>"

definition selectjs :: "string \<Rightarrow> query_builder \<Rightarrow> query_builder" where
  "selectjs field b =
     b\<lparr>qb_select := qb_select b @ [''json_extract(events.source, '' @ [CHR 0x27] @ ''$.'' @ field @ [CHR 0x27] @ '') AS ''
       @ [CHR 0x27] @ field @ [CHR 0x27]]\<rparr>"

definition from_table :: "string \<Rightarrow> query_builder \<Rightarrow> query_builder" where
  "from_table col b = b\<lparr>qb_from := qb_from b @ [col]\<rparr>"

definition group_by :: "string \<Rightarrow> query_builder \<Rightarrow> query_builder" where
  "group_by col b = b\<lparr>qb_group_by := qb_group_by b @ [col]\<rparr>"

definition order_by :: "string \<Rightarrow> string \<Rightarrow> query_builder \<Rightarrow> query_builder" where
  "order_by field order b = b\<lparr>qb_order_by := Some (field, order)\<rparr>"

definition set_limit :: "int \<Rightarrow> query_builder \<Rightarrow> query_builder" where
  "set_limit n b = b\<lparr>qb_limit := n\<rparr>"

definition push_where :: "string \<Rightarrow> query_builder \<Rightarrow> query_builder" where
  "push_where clause b = b\<lparr>qb_wheres := qb_wheres b @ [clause]\<rparr>"

definition push_arg :: "sql_arg \<Rightarrow> query_builder \<Rightarrow> query_builder" where
  "push_arg a b = b\<lparr>qb_args := qb_args b @ [a]\<rparr>"

definition push_fts :: "string \<Rightarrow> query_builder \<Rightarrow> query_builder" where
  "push_fts val b = b\<lparr>qb_fts_phrases := qb_fts_phrases b @ [[CHR 0x22] @ val @ [CHR 0x22]]\<rparr>"

text \<open>\<open>str::parse\<close> of an i64.\<close>

definition parse_i64 :: "string \<Rightarrow> int option" where
  "parse_i64 s =
     (case s of
        [] \<Rightarrow> None
      | c # cs \<Rightarrow>
          (if c = CHR ''-'' then map_option (\<lambda>n. - int n) (parse_digits (2 ^ 63) cs)
           else map_option int (parse_digits (2 ^ 63 - 1) (if c = CHR ''+'' then cs else s))))"

definition bind_value :: "string \<Rightarrow> sql_arg" where
  "bind_value v = (case parse_i64 v of Some i \<Rightarrow> Arg_Int i | None \<Rightarrow> Arg_Text v)"

definition extract_clause :: "string \<Rightarrow> string \<Rightarrow> string" where
  "extract_clause field op =
     ''json_extract(events.source, '' @ [CHR 0x27] @ ''$.'' @ field @ [CHR 0x27] @ '') '' @ op @ '' ?''"

definition wherejs :: "string \<Rightarrow> string \<Rightarrow> sql_arg \<Rightarrow> query_builder \<Rightarrow> query_builder" where
  "wherejs field op a b = push_arg a (push_where (extract_clause field op) b)"

definition where_source_json_extract :: "string \<Rightarrow> string \<Rightarrow> string \<Rightarrow> query_builder \<Rightarrow> query_builder" where
  "where_source_json_extract field op v b = push_arg (bind_value v) (push_where (extract_clause field op) b)"

definition where_source_json :: "string \<Rightarrow> string \<Rightarrow> string \<Rightarrow> query_builder \<Rightarrow> query_builder" where
  "where_source_json field op v b =
     push_arg (bind_value v)
       (push_where (''events.source->>'' @ [CHR 0x27] @ field @ [CHR 0x27] @ '' '' @ op @ '' ?'') b)"

definition add_left_join :: "string \<Rightarrow> query_builder \<Rightarrow> query_builder" where
  "add_left_join sql b = (if sql \<in> set (qb_left_join b) then b else b\<lparr>qb_left_join := qb_left_join b @ [sql]\<rparr>)"

definition queries_join :: string where
  "queries_join = ''LEFT JOIN json_each(events.source, '' @ [CHR 0x27] @ ''$.dns.queries'' @ [CHR 0x27] @ '') AS _dns_queries''"

definition answers_join :: string where
  "answers_join = ''LEFT JOIN json_each(events.source, '' @ [CHR 0x27] @ ''$.dns.answers'' @ [CHR 0x27] @ '') AS _dns_answers''"

fun left_join_from_query_string :: "'dt query_element list \<Rightarrow> query_builder \<Rightarrow> query_builder" where
  "left_join_from_query_string [] b = b"
| "left_join_from_query_string (e # q) b =
     left_join_from_query_string q
       (case qe_value e of
          QV_KeyValue k v \<Rightarrow>
            (if k = ''dns.rrname'' \<or> prefix ''dns.queries'' k then add_left_join queries_join b
             else if prefix ''dns.answers.'' k then add_left_join answers_join b
             else b)
        | _ \<Rightarrow> b)"

section \<open>Query strings\<close>

text \<open>The short-hand fields.\<close>

definition resolve_key :: "string \<Rightarrow> string" where
  "resolve_key k =
     (if k = ''@sid'' then ''alert.signature_id'' else if k = ''@sig'' then ''alert.signature'' else k)"

definition like_clause :: "bool \<Rightarrow> string \<Rightarrow> query_builder \<Rightarrow> query_builder" where
  "like_clause negated s b =
     (if negated then push_arg (Arg_Text (''%'' @ s @ ''%'')) (push_where ''events.source NOT LIKE ?'' b)
      else if qb_fts b then push_fts s b
      else push_arg (Arg_Text (''%'' @ s @ ''%'')) (push_where ''events.source LIKE ?'' b))"

definition quoted :: "string \<Rightarrow> string" where
  "quoted s = [CHR 0x27] @ s @ [CHR 0x27]"

fun join_with :: "string \<Rightarrow> string list \<Rightarrow> string" where
  "join_with sep [] = []"
| "join_with sep [x] = x"
| "join_with sep (x # xs) = x @ sep @ join_with sep xs"

definition sub_path :: "string \<Rightarrow> string" where
  "sub_path k = join_with ''->>'' (map quoted (drop 2 (split_char (CHR ''.'') k)))"

definition dns_type :: "string \<Rightarrow> string" where
  "dns_type v = ''events.source->>'' @ quoted ''dns'' @ ''->>'' @ quoted ''type'' @ '' = '' @ quoted v"

text \<open>A positive term of the last arm of the match.\<close>

definition positive_term :: "string \<Rightarrow> string \<Rightarrow> query_builder \<Rightarrow> query_builder" where
  "positive_term k v b =
     (if k = ''dns.type'' \<and> (v = ''query'' \<or> v = ''request'') then
        push_where (''('' @ dns_type ''query'' @ '' OR '' @ dns_type ''request'' @ '')'') b
      else if k = ''dns.type'' \<and> (v = ''response'' \<or> v = ''answer'') then
        push_where (''('' @ dns_type ''answer'' @ '' OR '' @ dns_type ''response'' @ '')'') b
      else if k = ''dns.rrname'' \<or> k = ''dns.queries.rrname'' then
        push_arg (Arg_Text v) (push_arg (Arg_Text v)
          (push_where (''(events.source->>'' @ quoted ''dns'' @ ''->>'' @ quoted ''rrname''
            @ '' = ? OR _dns_queries.value->>'' @ quoted ''rrname'' @ '' = ?)'') b))
      else if prefix ''dns.queries.'' k then
        push_arg (Arg_Text v) (push_where (''_dns_queries.value->>'' @ sub_path k @ '' = ?'') b)
      else if prefix ''dns.answers.'' k then
        push_arg (Arg_Text v) (push_where (''_dns_answers.value->>'' @ sub_path k @ '' = ?'') b)
      else if prefix ''dns.authorities'' k then
        push_arg (Arg_Text (''*'' @ v @ ''*''))
          (push_where (''events.source->>'' @ quoted ''dns'' @ ''->>'' @ quoted ''authorities'' @ '' GLOB ?'') b)
      else if prefix ''dns.additionals'' k then
        push_arg (Arg_Text (''*'' @ v @ ''*''))
          (push_where (''events.source->>'' @ quoted ''dns'' @ ''->>'' @ quoted ''additionals'' @ '' GLOB ?'') b)
      else where_source_json_extract k ''='' v b)"

text \<open>With full text search some terms are searched there as well.\<close>

definition fts_term :: "string \<Rightarrow> string \<Rightarrow> query_builder \<Rightarrow> query_builder" where
  "fts_term k v b =
     (if qb_fts b \<and> (k = ''community_id'' \<or> k = ''timestamp'' \<or> prefix ''dhcp'' k) then push_fts v b else b)"

definition apply_term :: "bool \<Rightarrow> string \<Rightarrow> string \<Rightarrow> query_builder \<Rightarrow> query_builder" where
  "apply_term negated k0 v b =
     (let k = resolve_key k0
      in if k = ''@ip'' \<or> k = ''@mac'' then like_clause negated v b
         else if k = ''src_port'' \<or> k = ''dest_port'' then
           (if negated then where_source_json k ''!='' v b else fts_term k v (where_source_json k ''='' v b))
         else if negated then where_source_json_extract k ''!='' v b
         else fts_term k v (positive_term k v b))"

definition timestamp_clause :: "string \<Rightarrow> int \<Rightarrow> query_builder \<Rightarrow> query_builder" where
  "timestamp_clause op nanos b = push_arg (Arg_Int nanos) (push_where (''timestamp '' @ op @ '' ?'') b)"

fun apply_element :: "('dt \<Rightarrow> int) \<Rightarrow> 'dt query_element \<Rightarrow> query_builder \<Rightarrow> query_builder" where
  "apply_element nanos e b =
     (case qe_value e of
        QV_String s \<Rightarrow> like_clause (qe_negated e) s b
      | QV_KeyValue k v \<Rightarrow> apply_term (qe_negated e) k v b
      | QV_From ts \<Rightarrow> timestamp_clause ''>='' (nanos ts) b
      | QV_To ts \<Rightarrow> timestamp_clause ''<='' (nanos ts) b
      | QV_After ts \<Rightarrow> timestamp_clause ''>'' (nanos ts) b
      | QV_Before ts \<Rightarrow> timestamp_clause ''<'' (nanos ts) b
      | QV_Archived \<Rightarrow> push_arg (Arg_Int (if qe_negated e then 0 else 1)) (push_where ''events.archived = ?'' b)
      | QV_Escalated \<Rightarrow> push_arg (Arg_Int (if qe_negated e then 0 else 1)) (push_where ''events.escalated = ?'' b))"

definition apply_query_string :: "('dt \<Rightarrow> int) \<Rightarrow> 'dt query_element list \<Rightarrow> query_builder \<Rightarrow> query_builder" where
  "apply_query_string nanos q b = foldl (\<lambda>b e. apply_element nanos e b) b q"

section \<open>The statement\<close>

definition show_i64 :: "int \<Rightarrow> string" where
  "show_i64 i = (if i < 0 then CHR ''-'' # show_nat (nat (- i)) else show_nat (nat i))"

text \<open>The full text search becomes one more condition.\<close>

definition with_fts :: "query_builder \<Rightarrow> query_builder" where
  "with_fts b =
     (if qb_fts_phrases b = [] then b
      else push_arg (Arg_Text (join_with '' AND '' (qb_fts_phrases b)))
        (push_where ''events.rowid in (select rowid from fts where fts match ?)'' b))"

definition statement :: "query_builder \<Rightarrow> string" where
  "statement b =
     ''select '' @ join_with '', '' (qb_select b) @ '' from '' @ join_with '', '' (qb_from b)
     @ concat (map (\<lambda>j. '' '' @ j) (qb_left_join b))
     @ (if qb_wheres b = [] then [] else '' where '' @ join_with '' and '' (qb_wheres b))
     @ (if qb_group_by b = [] then [] else '' group by '' @ join_with '', '' (qb_group_by b))
     @ (case qb_order_by b of None \<Rightarrow> [] | Some (field, order) \<Rightarrow> '' order by '' @ field @ '' '' @ order)
     @ (if qb_limit b > 0 then '' limit '' @ show_i64 (qb_limit b) else [])"

definition build :: "query_builder \<Rightarrow> (string \<times> sql_arg list) \<times> query_builder" where
  "build b0 = (let b = with_fts b0 in ((statement b, qb_args b), b))"

section \<open>The queries of the repository\<close>

record 'dt event_params =
  ep_order :: "string option"
  ep_from :: "'dt option"
  ep_to :: "'dt option"
  ep_event_type :: "string option"
  ep_sensor :: "string option"
  ep_size :: "u64 option"
  ep_query :: "'dt query_element list"

definition sensor_clause :: "string option \<Rightarrow> query_builder \<Rightarrow> query_builder" where
  "sensor_clause sensor b =
     (case sensor of
        None \<Rightarrow> b
      | Some host \<Rightarrow>
          (if host = ''(no-name)'' then push_where (''json_extract(events.source, '' @ quoted ''$.host'' @ '') IS NULL'') b
           else wherejs ''host'' ''='' (Arg_Text host) b))"

definition maybe_time :: "('dt \<Rightarrow> int) \<Rightarrow> string \<Rightarrow> 'dt option \<Rightarrow> query_builder \<Rightarrow> query_builder" where
  "maybe_time nanos op ts b = (case ts of None \<Rightarrow> b | Some t \<Rightarrow> timestamp_clause op (nanos t) b)"

definition events_query :: "('dt \<Rightarrow> int) \<Rightarrow> bool \<Rightarrow> 'dt event_params \<Rightarrow> query_builder" where
  "events_query nanos fts p =
     (let b = from_table ''events'' (select_field ''events.source AS source'' (select_field ''events.escalated AS escalated''
                (select_field ''events.archived AS archived'' (select_field ''DISTINCT(events.rowid) AS id'' (builder_new fts)))));
          b = left_join_from_query_string (ep_query p) b;
          b = set_limit (case ep_size p of None \<Rightarrow> 500 | Some n \<Rightarrow> sint n) b;
          b = (case ep_event_type p of
                 None \<Rightarrow> b
               | Some t \<Rightarrow> push_arg (Arg_Text t)
                   (push_where (''json_extract(events.source, '' @ quoted ''$.event_type'' @ '') = ?'') b));
          b = maybe_time nanos ''>='' (ep_from p) (maybe_time nanos ''<='' (ep_to p) (sensor_clause (ep_sensor p) b));
          b = apply_query_string nanos (ep_query p) b
      in order_by ''events.timestamp'' (case ep_order p of None \<Rightarrow> ''DESC'' | Some order \<Rightarrow> order) b)"

definition count_query :: "('dt \<Rightarrow> int) \<Rightarrow> bool \<Rightarrow> 'dt query_element list \<Rightarrow> query_builder" where
  "count_query nanos fts q =
     apply_query_string nanos q (from_table ''events'' (select_field ''count(*)'' (builder_new fts)))"

definition event_types_query :: "('dt \<Rightarrow> int) \<Rightarrow> bool \<Rightarrow> 'dt query_element list \<Rightarrow> query_builder" where
  "event_types_query nanos fts q =
     apply_query_string nanos q
       (from_table ''events''
         (select_field (''distinct json_extract(events.source, '' @ quoted ''$.event_type'' @ '')'') (builder_new fts)))"

definition rrname_column :: string where
  "rrname_column = ''coalesce(source->>'' @ quoted ''dns'' @ ''->>'' @ quoted ''queries'' @ ''->>0->>'' @ quoted ''rrname''
     @ '', source->>'' @ quoted ''dns'' @ ''->>'' @ quoted ''rrname'' @ '')''"

definition agg_column :: "string \<Rightarrow> string" where
  "agg_column field =
     (if field = ''dns.rrname'' then rrname_column @ '' as agg''
      else ''CAST(json_extract(events.source, '' @ quoted (''$.'' @ field) @ '') AS TEXT) as agg'')"

definition agg_hint :: "string \<Rightarrow> query_builder \<Rightarrow> query_builder" where
  "agg_hint field b =
     (if prefix ''alert.'' field
      then push_where (''json_extract(events.source, '' @ quoted ''$.event_type'' @ '') = '' @ quoted ''alert'') b
      else if prefix ''dns.'' field
      then push_where (''json_extract(events.source, '' @ quoted ''$.event_type'' @ '') = '' @ quoted ''dns'') b
      else b)"

definition agg_query ::
    "('dt \<Rightarrow> int) \<Rightarrow> bool \<Rightarrow> string \<Rightarrow> u64 \<Rightarrow> string \<Rightarrow> 'dt query_element list \<Rightarrow> query_builder" where
  "agg_query nanos fts field n order q =
     (let counted = (if field = ''dns.rrname'' then ''count('' @ rrname_column @ '') as count''
                     else ''count(json_extract(events.source, '' @ quoted (''$.'' @ field) @ '')) as count'');
          b = from_table ''events'' (select_field (agg_column field) (select_field counted (builder_new fts)));
          b = set_limit (sint n) (order_by ''count'' order (group_by ''agg'' b))
      in apply_query_string nanos q (agg_hint field b))"

definition agg_stream_query ::
    "('dt \<Rightarrow> int) \<Rightarrow> bool \<Rightarrow> string \<Rightarrow> 'dt query_element list \<Rightarrow> query_builder" where
  "agg_stream_query nanos fts field q =
     (let b = select_field (agg_column field) (select_field ''timestamp'' (builder_new fts));
          b = order_by ''timestamp'' ''desc'' (from_table ''events'' (push_where ''agg IS NOT NULL'' b))
      in agg_hint field (apply_query_string nanos q b))"

definition histogram_query ::
    "('dt \<Rightarrow> int) \<Rightarrow> bool \<Rightarrow> u64 \<Rightarrow> 'dt query_element list \<Rightarrow> query_builder" where
  "histogram_query nanos fts interval q =
     (let column = ''timestamp / 1000000000 / '' @ show_word interval @ '' * '' @ show_word interval;
          b = from_table ''events'' (select_field (''count('' @ column @ '')'') (select_field column (builder_new fts)))
      in apply_query_string nanos q (order_by ''timestamp'' ''asc'' (group_by column b)))"

section \<open>Lemmas: counting characters\<close>

text \<open>A text is closed when its quotes pair up, so that it ends outside every literal; a key is
  plain when it has neither a quote nor a question mark.\<close>

abbreviation holes :: "string \<Rightarrow> nat" where "holes s \<equiv> count_list s (CHR ''?'')"

abbreviation quotes :: "string \<Rightarrow> nat" where "quotes s \<equiv> count_list s (CHR 0x27)"

definition plain :: "string \<Rightarrow> bool" where
  "plain s \<longleftrightarrow> holes s = 0 \<and> quotes s = 0"

definition closed :: "nat \<Rightarrow> string \<Rightarrow> bool" where
  "closed n s \<longleftrightarrow> holes s = n \<and> even (quotes s)"

lemma count_list_append [simp]: "count_list (xs @ ys) c = count_list xs c + count_list ys c"
  by (induction xs) auto

lemma count_join: "count_list (join_with sep xs) c =
    sum_list (map (\<lambda>x. count_list x c) xs) + (length xs - 1) * count_list sep c"
  by (induction sep xs rule: join_with.induct) auto

lemma join_closed:
  assumes "list_all (closed 0) xs" and "closed 0 sep"
  shows "closed 0 (join_with sep xs)"
  using assms by (induction sep xs rule: join_with.induct) (auto simp: closed_def)

lemma plain_split: "plain s \<Longrightarrow> list_all plain (split_char c s)"
  by (induction s) (auto simp: plain_def split: list.splits if_splits)

lemma quoted_plain: "plain s \<Longrightarrow> closed 0 (quoted s)"
  by (simp add: plain_def closed_def quoted_def)

lemma sub_path_closed: "plain k \<Longrightarrow> closed 0 (sub_path k)"
  unfolding sub_path_def
proof (rule join_closed)
  assume "plain k"
  then have "list_all plain (split_char (CHR ''.'') k)" by (rule plain_split)
  then show "list_all (closed 0) (map quoted (drop 2 (split_char (CHR ''.'') k)))"
    by (auto simp: list_all_iff quoted_plain dest: in_set_dropD)
qed (simp add: closed_def)

section \<open>Lemmas: the invariant of the builder\<close>

definition fixed_parts :: "query_builder \<Rightarrow> bool" where
  "fixed_parts b \<longleftrightarrow> list_all (closed 0) (qb_select b) \<and> list_all (closed 0) (qb_from b) \<and> list_all (closed 0) (qb_left_join b)
     \<and> list_all (closed 0) (qb_group_by b)
     \<and> (case qb_order_by b of None \<Rightarrow> True | Some (f, ord) \<Rightarrow> closed 0 f \<and> closed 0 ord)"

definition bound_parts :: "query_builder \<Rightarrow> bool" where
  "bound_parts b \<longleftrightarrow> sum_list (map holes (qb_wheres b)) = length (qb_args b) \<and> list_all (\<lambda>w. even (quotes w)) (qb_wheres b)"

definition builder_ok :: "query_builder \<Rightarrow> bool" where
  "builder_ok b \<longleftrightarrow> fixed_parts b \<and> bound_parts b"

text \<open>The pieces the builder is made of.\<close>

lemma push_fts_ok [simp]: "builder_ok (push_fts v b) = builder_ok b"
  by (simp add: builder_ok_def fixed_parts_def bound_parts_def push_fts_def)

lemma push_where_ok: "closed 0 w \<Longrightarrow> builder_ok b \<Longrightarrow> builder_ok (push_where w b)"
  by (auto simp: builder_ok_def fixed_parts_def bound_parts_def push_where_def closed_def)

lemma push_one_ok: "closed 1 w \<Longrightarrow> builder_ok b \<Longrightarrow> builder_ok (push_arg a (push_where w b))"
  by (auto simp: builder_ok_def fixed_parts_def bound_parts_def push_where_def push_arg_def closed_def)

lemma push_two_ok: "closed 2 w \<Longrightarrow> builder_ok b \<Longrightarrow> builder_ok (push_arg a (push_arg a' (push_where w b)))"
  by (auto simp: builder_ok_def fixed_parts_def bound_parts_def push_where_def push_arg_def closed_def)

lemma extract_clause_closed: "plain k \<Longrightarrow> op \<in> {''='', ''!=''} \<Longrightarrow> closed 1 (extract_clause k op)"
  by (auto simp: extract_clause_def closed_def plain_def)

lemma like_clause_ok: "builder_ok b \<Longrightarrow> builder_ok (like_clause negated s b)"
  by (auto simp: like_clause_def intro!: push_one_ok) (simp_all add: closed_def)

lemma fts_term_ok: "builder_ok (fts_term k v b) = builder_ok b"
  by (simp add: fts_term_def)

lemma builder_ok_if: "(c \<Longrightarrow> builder_ok a) \<Longrightarrow> (\<not> c \<Longrightarrow> builder_ok b) \<Longrightarrow> builder_ok (if c then a else b)"
  by simp

lemma where_source_json_ok:
  "plain k \<Longrightarrow> op \<in> {''='', ''!=''} \<Longrightarrow> builder_ok b \<Longrightarrow> builder_ok (where_source_json k op v b)"
  unfolding where_source_json_def by (rule push_one_ok) (auto simp: closed_def plain_def)

lemma where_source_json_extract_ok:
  "plain k \<Longrightarrow> op \<in> {''='', ''!=''} \<Longrightarrow> builder_ok b \<Longrightarrow> builder_ok (where_source_json_extract k op v b)"
  unfolding where_source_json_extract_def by (rule push_one_ok [OF extract_clause_closed])

lemma dns_clauses_closed:
  "closed 0 (''('' @ dns_type ''query'' @ '' OR '' @ dns_type ''request'' @ '')'')"
  "closed 0 (''('' @ dns_type ''answer'' @ '' OR '' @ dns_type ''response'' @ '')'')"
  "closed 2 (''(events.source->>'' @ quoted ''dns'' @ ''->>'' @ quoted ''rrname''
     @ '' = ? OR _dns_queries.value->>'' @ quoted ''rrname'' @ '' = ?)'')"
  "closed 1 (''events.source->>'' @ quoted ''dns'' @ ''->>'' @ quoted ''authorities'' @ '' GLOB ?'')"
  "closed 1 (''events.source->>'' @ quoted ''dns'' @ ''->>'' @ quoted ''additionals'' @ '' GLOB ?'')"
  by (simp_all add: closed_def dns_type_def quoted_def)

lemma sub_clauses_closed:
  assumes "plain k"
  shows "closed 1 (''_dns_queries.value->>'' @ sub_path k @ '' = ?'')"
    and "closed 1 (''_dns_answers.value->>'' @ sub_path k @ '' = ?'')"
  using sub_path_closed [OF assms] by (simp_all add: closed_def)

lemma positive_term_ok:
  assumes "plain k" and "builder_ok b"
  shows "builder_ok (positive_term k v b)"
  unfolding positive_term_def
  by (intro builder_ok_if dns_clauses_closed(1,2) [THEN push_where_ok] dns_clauses_closed(3) [THEN push_two_ok]
      dns_clauses_closed(4,5) [THEN push_one_ok] sub_clauses_closed [THEN push_one_ok] where_source_json_extract_ok
      assms) simp

lemma resolve_key_plain: "plain k \<Longrightarrow> plain (resolve_key k)"
  by (simp add: resolve_key_def plain_def)

lemma apply_term_ok:
  assumes "plain k0" and "builder_ok b"
  shows "builder_ok (apply_term negated k0 v b)"
  unfolding apply_term_def Let_def
  by (intro builder_ok_if like_clause_ok where_source_json_ok where_source_json_extract_ok
      fts_term_ok [THEN iffD2] positive_term_ok resolve_key_plain assms) simp_all

definition plain_element :: "'dt query_element \<Rightarrow> bool" where
  "plain_element e = (case qe_value e of QV_KeyValue k v \<Rightarrow> plain k | _ \<Rightarrow> True)"

lemma timestamp_clause_ok:
  "builder_ok b \<Longrightarrow> closed 0 op \<Longrightarrow> builder_ok (timestamp_clause op n b)"
  unfolding timestamp_clause_def by (rule push_one_ok) (auto simp: closed_def)

lemma apply_element_ok:
  assumes "plain_element e" and "builder_ok b"
  shows "builder_ok (apply_element nanos e b)"
  using assms like_clause_ok [OF assms(2)] apply_term_ok [OF _ assms(2)] timestamp_clause_ok [OF assms(2)]
  by (cases "qe_value e") (auto simp: plain_element_def closed_def intro!: push_one_ok)

lemma apply_query_string_ok:
  "list_all plain_element q \<Longrightarrow> builder_ok b \<Longrightarrow> builder_ok (apply_query_string nanos q b)"
  unfolding apply_query_string_def
  by (induction q arbitrary: b) (auto intro: apply_element_ok simp del: apply_element.simps)

section \<open>Lemmas: the statement\<close>

lemma digits_closed: "list_all is_digit s \<Longrightarrow> closed 0 s"
  by (induction s) (auto simp: closed_def is_digit_def less_eq_char_def)

lemma show_i64_closed: "closed 0 (show_i64 i)"
  using digits_closed [of "show_nat (nat i)"] digits_closed [of "show_nat (nat (- i))"] show_nat_digits
  by (auto simp: show_i64_def closed_def)

lemma wheres_closed:
  assumes "bound_parts b"
  shows "closed (length (qb_args b)) (join_with '' and '' (qb_wheres b))"
proof -
  have "even (sum_list (map quotes ws))" if "list_all (\<lambda>w. even (quotes w)) ws" for ws
    using that by (induction ws) auto
  then show ?thesis using assms by (simp add: closed_def bound_parts_def count_join)
qed

lemma joins_closed: "list_all (closed 0) js \<Longrightarrow> closed 0 (concat (map (\<lambda>j. '' '' @ j) js))"
  by (induction js) (auto simp: closed_def)

lemma statement_closed:
  assumes "builder_ok b"
  shows "closed (length (qb_args b)) (statement b)"
proof -
  have sep: "closed 0 '', ''" by (simp add: closed_def)
  have parts: "fixed_parts b" using assms by (simp add: builder_ok_def)
  have f: "closed 0 (join_with '', '' (qb_select b))" "closed 0 (join_with '', '' (qb_from b))"
    "closed 0 (join_with '', '' (qb_group_by b))"
    using parts by (simp_all add: fixed_parts_def join_closed [OF _ sep])
  have j: "closed 0 (concat (map (\<lambda>j. '' '' @ j) (qb_left_join b)))"
    by (rule joins_closed) (use parts in \<open>simp add: fixed_parts_def\<close>)
  have w: "closed (length (qb_args b)) (join_with '' and '' (qb_wheres b))"
    using assms by (simp add: builder_ok_def wheres_closed)
  have e: "qb_wheres b = [] \<Longrightarrow> qb_args b = []" using assms by (simp add: builder_ok_def bound_parts_def)
  have ord: "case qb_order_by b of None \<Rightarrow> True | Some (fd, ord) \<Rightarrow> closed 0 fd \<and> closed 0 ord"
    using assms by (simp add: builder_ok_def fixed_parts_def)
  show ?thesis
    using f j w e ord show_i64_closed [of "qb_limit b"]
    by (auto simp: statement_def closed_def split: option.splits)
qed

lemma with_fts_ok: "builder_ok b \<Longrightarrow> builder_ok (with_fts b)"
  by (auto simp: with_fts_def intro!: push_one_ok) (simp add: closed_def)

definition well_formed :: "query_builder \<Rightarrow> bool" where
  "well_formed b = (case fst (build b) of (sql, args) \<Rightarrow> closed (length args) sql)"

lemma build_well_formed: "builder_ok b \<Longrightarrow> well_formed b"
  by (simp add: well_formed_def build_def Let_def statement_closed with_fts_ok)

text \<open>The parts that are set once.\<close>

lemma set_parts_ok:
  "builder_ok (builder_new fts)"
  "builder_ok b \<Longrightarrow> closed 0 s \<Longrightarrow> builder_ok (select_field s b)"
  "builder_ok b \<Longrightarrow> closed 0 s \<Longrightarrow> builder_ok (from_table s b)"
  "builder_ok b \<Longrightarrow> closed 0 s \<Longrightarrow> builder_ok (group_by s b)"
  "builder_ok b \<Longrightarrow> closed 0 s \<Longrightarrow> closed 0 ord \<Longrightarrow> builder_ok (order_by s ord b)"
  "builder_ok b \<Longrightarrow> builder_ok (set_limit n b)"
  "builder_ok b \<Longrightarrow> closed 0 s \<Longrightarrow> builder_ok (add_left_join s b)"
  by (auto simp: builder_ok_def fixed_parts_def bound_parts_def builder_new_def select_field_def from_table_def
      group_by_def order_by_def set_limit_def add_left_join_def)

lemma left_joins_ok: "builder_ok b \<Longrightarrow> builder_ok (left_join_from_query_string q b)"
proof (induction q b rule: left_join_from_query_string.induct)
  case (2 e q b)
  have "closed 0 queries_join" "closed 0 answers_join"
    by (simp_all add: queries_join_def answers_join_def closed_def)
  then show ?case using 2 set_parts_ok(7) by (auto split: query_value.splits)
qed simp

lemma sensor_clause_ok: "builder_ok b \<Longrightarrow> builder_ok (sensor_clause sensor b)"
  by (auto simp: sensor_clause_def wherejs_def quoted_def closed_def plain_def
      intro!: push_where_ok push_one_ok extract_clause_closed split: option.splits)

lemma maybe_time_ok: "builder_ok b \<Longrightarrow> closed 0 op \<Longrightarrow> builder_ok (maybe_time nanos op ts b)"
  by (auto simp: maybe_time_def timestamp_clause_ok split: option.splits)

lemma events_query_ok:
  assumes "list_all plain_element (ep_query p)"
    and "case ep_order p of None \<Rightarrow> True | Some order \<Rightarrow> closed 0 order"
  shows "builder_ok (events_query nanos fts p)"
proof -
  have t: "builder_ok b \<Longrightarrow> builder_ok (case ep_event_type p of None \<Rightarrow> b | Some t \<Rightarrow> push_arg (Arg_Text t)
      (push_where (''json_extract(events.source, '' @ quoted ''$.event_type'' @ '') = ?'') b))" for b
    by (auto simp: quoted_def closed_def intro!: push_one_ok split: option.splits)
  have o: "closed 0 (case ep_order p of None \<Rightarrow> ''DESC'' | Some order \<Rightarrow> order)"
    using assms(2) by (auto simp: closed_def split: option.splits)
  show ?thesis
    unfolding events_query_def Let_def
    by (intro set_parts_ok(5) apply_query_string_ok assms(1) maybe_time_ok sensor_clause_ok t set_parts_ok(6)
        left_joins_ok set_parts_ok(1,2,3) o) (simp_all add: closed_def)
qed

lemma agg_hint_ok: "builder_ok b \<Longrightarrow> builder_ok (agg_hint field b)"
  by (auto simp: agg_hint_def quoted_def closed_def intro!: push_where_ok)

lemma agg_columns_closed:
  assumes "plain field"
  shows "closed 0 (agg_column field)"
    and "closed 0 (if field = ''dns.rrname'' then ''count('' @ rrname_column @ '') as count''
      else ''count(json_extract(events.source, '' @ quoted (''$.'' @ field) @ '')) as count'')"
  using assms by (auto simp: agg_column_def rrname_column_def quoted_def closed_def plain_def)

lemma aggregates_ok:
  assumes "list_all plain_element q" and "plain field" and "closed 0 order"
  shows "builder_ok (agg_query nanos fts field n order q)" and "builder_ok (agg_stream_query nanos fts field q)"
  unfolding agg_query_def agg_stream_query_def Let_def
  by (intro set_parts_ok apply_query_string_ok agg_hint_ok push_where_ok agg_columns_closed assms; simp add: closed_def)+

lemma show_word_closed: "closed 0 (show_word w)"
  using digits_closed show_nat_digits by (simp add: show_word_def)

lemma counts_ok:
  assumes "list_all plain_element q"
  shows "builder_ok (count_query nanos fts q)" and "builder_ok (event_types_query nanos fts q)"
    and "builder_ok (histogram_query nanos fts interval q)"
  unfolding count_query_def event_types_query_def histogram_query_def Let_def
  using show_word_closed [of interval]
  by (auto intro!: set_parts_ok apply_query_string_ok assms simp: closed_def quoted_def)

section \<open>Lemmas: values are bound\<close>

text \<open>Two builders that make the same text: they differ in their arguments and in the texts of their
  full text phrases only.\<close>

definition same_text :: "query_builder \<Rightarrow> query_builder \<Rightarrow> bool" where
  "same_text b b' \<longleftrightarrow>
     b\<lparr>qb_args := [], qb_fts_phrases := map (\<lambda>_. []) (qb_fts_phrases b)\<rparr> =
     b'\<lparr>qb_args := [], qb_fts_phrases := map (\<lambda>_. []) (qb_fts_phrases b')\<rparr>"

text \<open>Two elements that differ in their values only. The two spellings of a kind of DNS message
  count as the same value; every other value of \<open>dns.type\<close> is as good as another.\<close>

definition dns_kind :: "string \<Rightarrow> nat" where
  "dns_kind v = (if v = ''query'' \<or> v = ''request'' then 1 else if v = ''response'' \<or> v = ''answer'' then 2 else 0)"

fun same_value :: "'dt query_value \<Rightarrow> 'dt query_value \<Rightarrow> bool" where
  "same_value (QV_String s) (QV_String s') \<longleftrightarrow> True"
| "same_value (QV_KeyValue k v) (QV_KeyValue k' v') \<longleftrightarrow> k = k' \<and> (k = ''dns.type'' \<longrightarrow> dns_kind v = dns_kind v')"
| "same_value (QV_From t) (QV_From t') \<longleftrightarrow> True"
| "same_value (QV_To t) (QV_To t') \<longleftrightarrow> True"
| "same_value (QV_After t) (QV_After t') \<longleftrightarrow> True"
| "same_value (QV_Before t) (QV_Before t') \<longleftrightarrow> True"
| "same_value QV_Archived QV_Archived \<longleftrightarrow> True"
| "same_value QV_Escalated QV_Escalated \<longleftrightarrow> True"
| "same_value _ _ \<longleftrightarrow> False"

definition same_shape :: "'dt query_element \<Rightarrow> 'dt query_element \<Rightarrow> bool" where
  "same_shape e e' \<longleftrightarrow> qe_negated e = qe_negated e' \<and> same_value (qe_value e) (qe_value e')"

lemma same_text_refl [simp]: "same_text b b"
  by (simp add: same_text_def)

lemma same_text_fts: "same_text b b' \<Longrightarrow> qb_fts b = qb_fts b'"
  by (auto simp: same_text_def dest: arg_cong [where f = qb_fts])

lemma same_push:
  "same_text b b' \<Longrightarrow> same_text (push_arg a b) (push_arg a' b')"
  "same_text b b' \<Longrightarrow> same_text (push_where w b) (push_where w b')"
  "same_text b b' \<Longrightarrow> same_text (push_fts v b) (push_fts v' b')"
  by (cases b; cases b'; auto simp: same_text_def push_arg_def push_where_def push_fts_def)+

lemma same_like: "same_text b b' \<Longrightarrow> same_text (like_clause n s b) (like_clause n s' b')"
  using same_text_fts [of b b'] by (auto simp: like_clause_def intro!: same_push)

lemma same_extract:
  "same_text b b' \<Longrightarrow> same_text (where_source_json_extract k op v b) (where_source_json_extract k op v' b')"
  by (auto simp: where_source_json_extract_def intro!: same_push)

lemma same_json: "same_text b b' \<Longrightarrow> same_text (where_source_json k op v b) (where_source_json k op v' b')"
  by (auto simp: where_source_json_def intro!: same_push)

lemma same_fts_term: "same_text b b' \<Longrightarrow> same_text (fts_term k v b) (fts_term k v' b')"
  using same_text_fts [of b b'] by (auto simp: fts_term_def intro!: same_push)

lemma same_positive:
  assumes "same_text b b'" and "k = ''dns.type'' \<longrightarrow> dns_kind v = dns_kind v'"
  shows "same_text (positive_term k v b) (positive_term k v' b')"
proof (cases "k = ''dns.type''")
  case True
  then show ?thesis
    using assms by (auto simp: positive_term_def dns_kind_def intro!: same_push same_extract split: if_splits)
next
  case False
  then show ?thesis
    unfolding positive_term_def using assms(1) by (auto intro!: same_push same_extract)
qed

lemma same_term:
  assumes "same_text b b'" and "k = ''dns.type'' \<longrightarrow> dns_kind v = dns_kind v'"
  shows "same_text (apply_term n k v b) (apply_term n k v' b')"
proof -
  have "resolve_key k = ''dns.type'' \<longrightarrow> dns_kind v = dns_kind v'"
    using assms(2) by (auto simp: resolve_key_def split: if_splits)
  then show ?thesis
    using assms(1) by (auto simp: apply_term_def Let_def intro!: same_like same_json same_extract same_fts_term same_positive)
qed

lemma same_element:
  assumes "same_shape e e'" and "same_text b b'"
  shows "same_text (apply_element nanos e b) (apply_element nanos e' b')"
  using assms
  by (cases "qe_value e"; cases "qe_value e'")
     (auto simp: same_shape_def timestamp_clause_def intro!: same_like same_term same_push)

lemma same_query:
  "list_all2 same_shape q q' \<Longrightarrow> same_text b b' \<Longrightarrow>
     same_text (apply_query_string nanos q b) (apply_query_string nanos q' b')"
  unfolding apply_query_string_def
  by (induction q q' arbitrary: b b' rule: list_all2_induct)
     (auto simp del: apply_element.simps intro: same_element)

lemma same_text_build: "same_text b b' \<Longrightarrow> fst (fst (build b)) = fst (fst (build b'))"
  by (cases b; cases b')
     (auto simp: same_text_def build_def Let_def with_fts_def statement_def push_arg_def push_where_def)

lemma same_joins: "list_all2 same_shape q q' \<Longrightarrow> left_join_from_query_string q b = left_join_from_query_string q' b"
proof (induction q q' arbitrary: b rule: list_all2_induct)
  case (Cons e q e' q')
  then show ?case by (cases "qe_value e"; cases "qe_value e'") (auto simp: same_shape_def)
qed simp

section \<open>Lemmas: keys are not\<close>

lemma join_member: "x \<in> set xs \<Longrightarrow> \<exists>pre post. join_with sep xs = pre @ x @ post"
proof (induction sep xs rule: join_with.induct)
  case (2 sep x')
  then show ?case by (intro exI [of _ "[]"]) simp
next
  case (3 sep x' y ys)
  show ?case
  proof (cases "x = x'")
    case True
    then show ?thesis by (intro exI [of _ "[]"] exI [of _ "sep @ join_with sep (y # ys)"]) simp
  next
    case False
    then obtain pre post where "join_with sep (y # ys) = pre @ x @ post" using 3 by auto
    then show ?thesis by (intro exI [of _ "x' @ sep @ pre"] exI [of _ post]) simp
  qed
qed auto

lemma statement_where: "w \<in> set (qb_wheres b) \<Longrightarrow> \<exists>pre post. statement b = pre @ w @ post"
proof -
  assume w: "w \<in> set (qb_wheres b)"
  then obtain pre post where j: "join_with '' and '' (qb_wheres b) = pre @ w @ post" using join_member by blast
  have "qb_wheres b \<noteq> []" using w by auto
  then show ?thesis unfolding statement_def j by (simp) (metis append.assoc append_Cons)
qed

lemma build_where: "w \<in> set (qb_wheres b) \<Longrightarrow> \<exists>pre post. fst (fst (build b)) = pre @ w @ post"
  by (auto simp: build_def Let_def with_fts_def push_arg_def push_where_def intro!: statement_where)

text \<open>A key that gets no translation of its own.\<close>

definition generic_key :: "string \<Rightarrow> bool" where
  "generic_key k \<longleftrightarrow> k \<notin> {''@sid'', ''@sig'', ''@ip'', ''@mac'', ''src_port'', ''dest_port'', ''dns.type'', ''dns.rrname'',
       ''dns.queries.rrname'', ''@from'', ''@to'', ''@before'', ''@after'', ''is'', ''-'', ''!''}
     \<and> \<not> prefix ''dns.queries.'' k \<and> \<not> prefix ''dns.answers.'' k
     \<and> \<not> prefix ''dns.authorities'' k \<and> \<not> prefix ''dns.additionals'' k"

lemma apply_generic:
  assumes "generic_key k"
  shows "extract_clause k ''='' \<in> set (qb_wheres (apply_element nanos \<lparr>qe_negated = False, qe_value = QV_KeyValue k v\<rparr> b))"
  using assms
  by (simp add: generic_key_def apply_term_def resolve_key_def Let_def positive_term_def where_source_json_extract_def
      fts_term_def push_arg_def push_where_def push_fts_def)

lemma events_query_generic:
  assumes "generic_key k" and "ep_query p = [\<lparr>qe_negated = False, qe_value = QV_KeyValue k v\<rparr>]"
  shows "extract_clause k ''='' \<in> set (qb_wheres (events_query nanos fts p))"
proof -
  have "qb_wheres (order_by f ord b) = qb_wheres b" for f ord b by (simp add: order_by_def)
  then show ?thesis
    unfolding events_query_def Let_def assms(2) apply_query_string_def
    by (simp add: apply_generic [OF assms(1)] del: apply_element.simps)
qed

lemma parse_generic:
  assumes "generic_key k"
  shows "queryparser_parse chrono (render_term k v) tz = Inr [\<lparr>qe_negated = False, qe_value = QV_KeyValue k v\<rparr>]"
  using query_loop_term [of k chrono tz v "[]" False "[]"] assms
  by (simp add: queryparser_parse_def generic_key_def query_term_def)

section \<open>Properties\<close>

text \<open>C10. The statements are well formed: for a query string whose keys have neither a quote nor a
  question mark, and a sort order and field without them, the text of the events query, of the
  counts, the event types, the histogram and the aggregations has exactly one placeholder for each
  bound argument, and every string literal in it is closed.\<close>

theorem sql_well_formed:
  assumes "list_all plain_element (ep_query p)" and "plain field" and "plain order" and "ep_order p = Some order"
  shows "well_formed (events_query nanos fts p) \<and> well_formed (count_query nanos fts (ep_query p))
    \<and> well_formed (event_types_query nanos fts (ep_query p)) \<and> well_formed (histogram_query nanos fts interval (ep_query p))
    \<and> well_formed (agg_query nanos fts field n order (ep_query p)) \<and> well_formed (agg_stream_query nanos fts field (ep_query p))"
proof -
  have o: "closed 0 order" using assms(3) by (simp add: plain_def closed_def)
  then have "case ep_order p of None \<Rightarrow> True | Some order \<Rightarrow> closed 0 order" using assms(4) by simp
  from events_query_ok [OF assms(1) this] counts_ok [OF assms(1)] aggregates_ok [OF assms(1,2) o]
  show ?thesis by (intro conjI build_well_formed)
qed

text \<open>C9. The values of a query never reach the text of the statement: two searches whose elements have
  the same keys, kinds and negations, and which have the same other parameters, make the same text,
  whatever their values, words and times; these are bound as arguments. Only the kind of message
  asked for with \<open>dns.type\<close> is told apart in the text.\<close>

theorem sql_values_bound:
  assumes "list_all2 same_shape q q'"
  shows "fst (fst (build (events_query nanos fts (p\<lparr>ep_query := q\<rparr>)))) =
      fst (fst (build (events_query nanos fts (p\<lparr>ep_query := q'\<rparr>))))
    \<and> fst (fst (build (count_query nanos fts q))) = fst (fst (build (count_query nanos fts q')))
    \<and> fst (fst (build (agg_query nanos fts field n order q))) = fst (fst (build (agg_query nanos fts field n order q')))"
proof -
  have "same_text b b' \<Longrightarrow> same_text (order_by f ord b) (order_by f ord b')" for f ord b b'
    by (cases b; cases b') (auto simp: same_text_def order_by_def)
  then show ?thesis
    using same_query [OF assms same_text_refl] same_joins [OF assms]
    by (auto simp: events_query_def count_query_def agg_query_def Let_def intro!: same_text_build)
qed

text \<open>C11. Keys do reach it: the key of a term, which the query language lets be any quoted text, stands
  as it is between the quotes of a literal of the statement, its own quotes included.\<close>

theorem sql_key_verbatim:
  assumes "generic_key k"
  shows "\<exists>q pre post. queryparser_parse chrono (render_term k v) tz = Inr q
    \<and> fst (fst (build (events_query nanos fts (p\<lparr>ep_query := q\<rparr>)))) =
        pre @ ''json_extract(events.source, '' @ [CHR 0x27] @ ''$.'' @ k @ [CHR 0x27] @ '') = ?'' @ post"
proof -
  let ?q = "[\<lparr>qe_negated = False, qe_value = QV_KeyValue k v\<rparr>]"
  have "extract_clause k ''='' \<in> set (qb_wheres (events_query nanos fts (p\<lparr>ep_query := ?q\<rparr>)))"
    by (rule events_query_generic [OF assms]) simp
  from build_where [OF this] obtain pre post where
    "fst (fst (build (events_query nanos fts (p\<lparr>ep_query := ?q\<rparr>)))) = pre @ extract_clause k ''='' @ post" by blast
  then show ?thesis
    using parse_generic [OF assms, of chrono v tz]
    by (intro exI [of _ ?q] exI [of _ pre] exI [of _ post]) (simp add: extract_clause_def)
qed

section \<open>Examples\<close>

definition demo_term :: "bool \<Rightarrow> string \<Rightarrow> string \<Rightarrow> int query_element" where
  "demo_term negated k v = \<lparr>qe_negated = negated, qe_value = QV_KeyValue k v\<rparr>"

definition demo_params :: "int query_element list \<Rightarrow> int event_params" where
  "demo_params q = \<lparr>ep_order = Some ''asc'', ep_from = Some 5, ep_to = None, ep_event_type = None,
     ep_sensor = Some ''(no-name)'', ep_size = Some 10, ep_query = q\<rparr>"

definition demo_query :: "int query_element list" where
  "demo_query = [demo_term False ''dns.answers.rdata'' ''10.0.0.1'', demo_term True ''src_port'' ''53'',
     \<lparr>qe_negated = False, qe_value = QV_String ''text''\<rparr>]"

theorem sql_well_formed_witness:
  "well_formed (events_query id True (demo_params demo_query)) \<and> well_formed (agg_query id True ''src_ip'' 10 ''asc'' demo_query)"
proof -
  have "list_all plain_element (ep_query (demo_params demo_query))"
    by (simp add: demo_params_def demo_query_def demo_term_def plain_element_def plain_def)
  moreover have "plain ''src_ip''" "plain ''asc''" by (simp_all add: plain_def)
  moreover have "ep_order (demo_params demo_query) = Some ''asc''" by (simp add: demo_params_def)
  ultimately show ?thesis
    using sql_well_formed [of "demo_params demo_query" "''src_ip''" "''asc''" id True 60 10]
    by (simp add: demo_params_def)
qed

theorem sql_values_bound_witness:
  "fst (fst (build (count_query id False [demo_term False ''src_ip'' ''10.0.0.1'']))) =
   fst (fst (build (count_query id False [demo_term False ''src_ip'' [CHR 0x27]])))"
proof -
  have "list_all2 same_shape [demo_term False ''src_ip'' ''10.0.0.1''] [demo_term False ''src_ip'' [CHR 0x27]]"
    by (simp add: same_shape_def demo_term_def)
  from sql_values_bound [OF this, of id False "demo_params []" "[]" 0 "[]"] show ?thesis by simp
qed

text \<open>A key that ends the literal and comments out the rest.\<close>

definition demo_key :: string where "demo_key = ''a'' @ [CHR 0x27] @ '') IS NULL OR 1=1 --''"

theorem sql_key_verbatim_witness:
  "\<exists>q pre post. queryparser_parse (\<lambda>s. None :: int option) (render_term demo_key ''x'') None = Inr q
    \<and> fst (fst (build (events_query id False (demo_params q)))) =
        pre @ ''json_extract(events.source, '' @ [CHR 0x27] @ ''$.a'' @ [CHR 0x27] @ '') IS NULL OR 1=1 --'' @ post"
proof -
  have "generic_key demo_key" by (simp add: generic_key_def demo_key_def)
  from sql_key_verbatim [OF this, where p = "demo_params []" and v = "''x''" and tz = None
      and chrono = "\<lambda>s. None" and nanos = id and fts = False]
  obtain q pre post where
    "queryparser_parse (\<lambda>s. None :: int option) (render_term demo_key ''x'') None = Inr q"
    "fst (fst (build (events_query id False (demo_params [] \<lparr>ep_query := q\<rparr>)))) =
        pre @ ''json_extract(events.source, '' @ [CHR 0x27] @ ''$.'' @ demo_key @ [CHR 0x27] @ '') = ?'' @ post" by blast
  then show ?thesis
    by (intro exI [of _ q] exI [of _ pre] exI [of _ "[CHR 0x27] @ '') = ?'' @ post"])
       (simp add: demo_params_def demo_key_def)
qed

end
