(* ===== verification/Spec2Isabelle.thy ===== *)
theory Spec2Isabelle
  imports Query_Parser Json Pcap_Timeframe Pcap_Fetch Eve_Processor Rules Agent_Server Pcap_Stream Agent_Link
    Eve_Socket Pcap_Purge Retention Sql_Builder
begin

text \<open>
  A verification library for EveBox (\<open>src/src\<close>), the event viewer and capture server for Suricata.
  Paths below are relative to \<open>src/src\<close>.

  \<^bold>\<open>The program.\<close> EVE records are read from files or spools (\<open>eve/reader.rs\<close>) or
  from sockets (\<open>eve/socket.rs\<close>), pass a chain of filters (\<open>eve/filters.rs\<close>), and are given to a sink, which is another EveBox, Elasticsearch or SQLite
  (\<open>agent/importer.rs\<close>, \<open>elastic/importer.rs\<close>, \<open>sqlite/importer.rs\<close>); a bookmark remembers the position
  (\<open>bookmark.rs\<close>, \<open>eve/processor.rs\<close>). A user searches with a query language (\<open>queryparser.rs\<close>) and may
  download the packets of an event. Such a request is turned into a filter and a time window
  (\<open>server/api/pcap.rs\<close>, \<open>pcap/timeframe.rs\<close>, \<open>pcap/filter.rs\<close>), a source is chosen
  (\<open>server/pcap/mod.rs\<close>), and either the server's own capture files are searched (\<open>pcap/spool.rs\<close>,
  \<open>pcap/fetch.rs\<close>, \<open>pcap/writer.rs\<close>) or an agent is asked over a control channel (\<open>agent/protocol.rs\<close>,
  \<open>agent/channel.rs\<close>, \<open>server/agents.rs\<close>, \<open>server/api/agent.rs\<close>), which uploads the packets in an HTTP
  request that the server forwards to the browser (\<open>server/pcap/tasks.rs\<close>, \<open>server/api/pcap.rs\<close>).

  \<^bold>\<open>The theories.\<close> A theory imports those of the components it calls.

  \<^item> \<open>Prelude\<close>: numbers, strings and results shared by all; runs of machines over event lists and the
    locales \<open>invariant_machine\<close> and \<open>monotone_machine\<close>, which every component with state instantiates.
  \<^item> \<open>Datetime\<close> (\<open>datetime.rs\<close>), \<open>Json\<close> (the values serde gives), \<open>Net_Addr\<close>, \<open>Query_Parser\<close>
    (\<open>queryparser.rs\<close>; the locale \<open>tokenizer\<close>).
  \<^item> \<open>Pcap_Format\<close> (\<open>util/pcap.rs\<close>, \<open>pcap/writer.rs\<close>), \<open>Pcap_Filter\<close> (\<open>pcap/filter.rs\<close>), \<open>Pcap_Timeframe\<close>
    (\<open>pcap/timeframe.rs\<close>), \<open>Pcap_Spool\<close> (\<open>pcap/spool.rs\<close>), \<open>Pcap_Request\<close> (\<open>pcap/request.rs\<close>), \<open>Pcap_Fetch\<close>
    (\<open>pcap/fetch.rs\<close>; the locale \<open>priority_queue\<close> for the merge heap).
  \<^item> \<open>Eve_Event\<close> (\<open>eve/eve.rs\<close>, \<open>eve/filters.rs\<close>, \<open>server/autoarchive.rs\<close>, the history entries of
    \<open>elastic/mod.rs\<close>, \<open>geoip.rs\<close>), \<open>Eve_Spool\<close> (\<open>eve/spool.rs\<close>), \<open>Eve_Reader\<close> (\<open>eve/reader.rs\<close>), \<open>Event_Sink\<close>
    (the three importers; the locale \<open>sink_contract\<close>), \<open>Eve_Processor\<close> (\<open>eve/processor.rs\<close>, \<open>bookmark.rs\<close>),
    \<open>Rules\<close> (\<open>rules.rs\<close>), \<open>Socket_Input\<close> and \<open>Eve_Socket\<close> (\<open>eve/socket.rs\<close>: settings and the socket's file;
    framing, queue and the two tasks).
  \<^item> \<open>Sql_Builder\<close> (\<open>sqlite/builder.rs\<close> and the queries made with it), \<open>Retention\<close> (\<open>sqlite/retention.rs\<close>,
    \<open>elastic/retention.rs\<close>), \<open>Pcap_Purge\<close> (\<open>cli/pcap/purge.rs\<close>).
  \<^item> \<open>Agent_Protocol\<close> (\<open>agent/protocol.rs\<close>), \<open>Pcap_Tasks\<close> (\<open>server/pcap/tasks.rs\<close> and \<open>receive_upload\<close>),
    \<open>Agent_Registry\<close> (\<open>server/agents.rs\<close>), \<open>Agent_Control\<close> (\<open>server/api/agent.rs\<close>), \<open>Agent_Server\<close> (the
    server's side as one machine, with the interleavings of connections, revocations and jobs).
  \<^item> \<open>Pcap_Routing\<close> (\<open>server/pcap/mod.rs\<close>), \<open>Pcap_Api\<close> and \<open>Pcap_Stream\<close> (\<open>server/api/pcap.rs\<close>: from the
    request to the extraction, and from the extraction to the response).
  \<^item> \<open>Agent_Channel\<close> and \<open>Agent_Job\<close> (\<open>agent/channel.rs\<close>: the connection of the agent, and one capture job),
    \<open>Agent_Link\<close> (both ends together).

  \<^bold>\<open>How code is modelled.\<close> Structs are records and enums datatypes, with a prefix on field names; a method
  on \<open>&mut self\<close> returns the new state; \<open>Result\<close> is a sum with the error on the left, and a panic is a
  value where the code can panic. Integers are words of their width where arithmetic could wrap, and
  natural numbers for lengths and times. Objects that several owners share (agents, jobs) live in a
  store and are named by number. Async code is a machine: a step is what happens under one lock, or one
  turn of a \<open>select!\<close> loop, and the environment (clocks, sockets, timeouts, other tasks) is the list of
  events, so a statement over all event lists is a statement over all interleavings. Libraries and
  services (libpcap, chrono, serde's text, maxminddb, HTTP, the databases) are arguments or fields of
  environment records, with what the code relies on as hypotheses.

  \<^bold>\<open>What is shown.\<close> Fetch: what is written is a single pcap stream of wanted packets, complete unless
  truncated or cancelled, within the limit, in time order; errors write nothing. Downloads: a body that
  ends cleanly is exactly the extraction, for local captures, for remote ones on the server, and end to
  end from the agent's fetch to the browser; the result of an agent never contradicts the upload. Requests:
  an accepted request starts one extraction that holds its permits and respects its limits, and the
  pre-flight agrees with it. Agents: a revoked key is cut off, a name has one live connection, no job
  waits for a connection that is gone, a job is uploaded at most once, jobs on the agent are bounded and
  each is answered once. Ingest: every record is filtered and submitted once, sinks lose and duplicate
  nothing, files are deleted only after delivery, a restart resumes at the bookmark; a socket input
  frames its stream into lines, holds a bounded queue, counts what it drops and removes only its own
  socket. Stored data: the values of a search are bound and never part of the SQL text, its keys are part
  of it; retention takes the oldest events and never an escalated one, and when it returns; a purge
  keeps the newest captures. Formats: queries,
  packets, pcap files and control messages read back; checksums verify; filters and conditions mean what
  they are documented to mean.

  \<^bold>\<open>Bounds and fuel.\<close> No definition uses fuel. Loops are structural recursions or have a termination proof
  by a measure (the merge: packets left; parsers: input left; the upload writer: bytes left to write; the
  response body: frames left), except \<open>delete_to_size\<close>, which need not end and is a partial function. A loop that waits consumes a list of events, and running out of them is a
  value (\<open>None\<close>: still waiting), which the statements keep apart from every outcome.

  \<^bold>\<open>Not modelled.\<close> The web server, sessions and TLS (\<open>server/main.rs\<close>, \<open>server/session.rs\<close>, \<open>cert.rs\<close>,
  \<open>agent/tls.rs\<close>): set-up of libraries. The Elasticsearch repository (\<open>elastic/eventrepo\<close>, most of
  \<open>elastic/client.rs\<close>) and what \<open>sqlite/eventrepo\<close> makes of rows, with its fixed statements: query
  documents and SQL whose meaning is the database's. The command line and the one-shot and container modes (\<open>cli\<close>, but for the purge): processes, prompts and
  files around the components above. Reading of configuration (\<open>config.rs\<close>, \<open>configure\<close> of
  \<open>server/pcap/mod.rs\<close>), logging and metrics: no state of their own.
\<close>

end
